(* ===== verification/Prelude.thy ===== *)
theory Prelude
  imports Main "HOL-Library.Word" "HOL-Library.FSet" "HOL-Library.Finite_Map"
begin

text \<open>
  Vocabulary shared by every component: the result type of a Rust function that may return an
  error, panic or wait for ever, byte strings with the slice operations the sources use, the
  fixed-width integer codecs (\<open>to_le_bytes\<close>, \<open>from_le_bytes\<close>, \<open>to_be_bytes\<close>), \<open>div_ceil\<close> and
  \<open>chunks\<close>.  Unsigned integers are natural numbers; where a value is stored at a fixed width the
  codec truncates it to that width, as the \<open>as\<close> conversions of the sources do.
\<close>

named_theorems slice_simps \<open>lengths and elements of spliced byte strings\<close>
named_theorems frame_simps \<open>fields an operation leaves unchanged\<close>

subsection \<open>Results\<close>

text \<open>
  \<open>Ok\<close> and \<open>Err\<close> are Rust's \<open>Result\<close>.  \<open>Panic\<close> is a failed index, slice or arithmetic check.
  \<open>Hang\<close> is a loop that has used up the bound on its iterations the model gives it.
\<close>

datatype ('a, 'e) res = Ok 'a | Err 'e | Panic | Hang

fun is_ok :: "('a, 'e) res \<Rightarrow> bool" where
  "is_ok (Ok _) = True"
| "is_ok _ = False"

fun map_ok :: "('a \<Rightarrow> 'b) \<Rightarrow> ('a, 'e) res \<Rightarrow> ('b, 'e) res" where
  "map_ok f (Ok x) = Ok (f x)"
| "map_ok f (Err e) = Err e"
| "map_ok f Panic = Panic"
| "map_ok f Hang = Hang"

fun map_err :: "('e \<Rightarrow> 'd) \<Rightarrow> ('a, 'e) res \<Rightarrow> ('a, 'd) res" where
  "map_err f (Ok x) = Ok x"
| "map_err f (Err e) = Err (f e)"
| "map_err f Panic = Panic"
| "map_err f Hang = Hang"

text \<open>The \<open>?\<close> operator on a stateful computation: go on after \<open>Ok\<close>, otherwise return.\<close>

fun and_then :: "('a, 'e) res \<times> 's \<Rightarrow> ('a \<Rightarrow> 's \<Rightarrow> ('b, 'e) res \<times> 's) \<Rightarrow> ('b, 'e) res \<times> 's" where
  "and_then (Ok x, s) f = f x s"
| "and_then (Err e, s) f = (Err e, s)"
| "and_then (Panic, s) f = (Panic, s)"
| "and_then (Hang, s) f = (Hang, s)"

lemma and_then_cases:
  assumes "and_then m f = (r, s')"
  obtains (go) x s where "m = (Ok x, s)" and "f x s = (r, s')"
  | (stop) q where "m = (q, s')" and "\<not> is_ok q" and "r = Panic \<longleftrightarrow> q = Panic"
      and "r = Hang \<longleftrightarrow> q = Hang" and "\<And>e. r = Err e \<longleftrightarrow> q = Err e" and "\<not> is_ok r"
proof -
  obtain q s where m: "m = (q, s)" by (cases m)
  show thesis
  proof (cases q)
    case (Ok x)
    then show thesis using assms m by (intro go) auto
  qed (use assms m in \<open>auto intro!: stop [of q]\<close>)
qed

lemma and_then_Ok:
  "and_then m f = (Ok y, s') \<longleftrightarrow> (\<exists>x s. m = (Ok x, s) \<and> f x s = (Ok y, s'))"
  by (cases "(m, f)" rule: and_then.cases) auto

text \<open>
  \<open>safe I Q m\<close>: the computation \<open>m\<close> does not panic, it ends in a state with \<open>I\<close>, and its value, if it
  returns one, has \<open>Q\<close>.
\<close>

definition safe :: "('s \<Rightarrow> bool) \<Rightarrow> ('a \<Rightarrow> 's \<Rightarrow> bool) \<Rightarrow> ('a, 'e) res \<times> 's \<Rightarrow> bool" where
  "safe I Q m \<longleftrightarrow> (case m of (r, s) \<Rightarrow> I s \<and> r \<noteq> Panic \<and> (\<forall>x. r = Ok x \<longrightarrow> Q x s))"

named_theorems safe_intros \<open>rules for safe computations\<close>

lemma safe_values [simp]:
  "safe I Q (Ok x, s) \<longleftrightarrow> I s \<and> Q x s"
  "safe I Q (Err e, s) \<longleftrightarrow> I s"
  "safe I Q (Hang, s) \<longleftrightarrow> I s"
  "\<not> safe I Q (Panic, s)"
  by (auto simp: safe_def)

lemma safeD:
  assumes "safe I Q m" and "m = (r, s)"
  shows "I s" and "r \<noteq> Panic" and "r = Ok x \<Longrightarrow> Q x s"
  using assms by (auto simp: safe_def)

lemma safeI:
  assumes "\<And>r s. m = (r, s) \<Longrightarrow> I s \<and> r \<noteq> Panic \<and> (\<forall>x. r = Ok x \<longrightarrow> Q x s)"
  shows "safe I Q m"
  using assms by (cases m) (simp add: safe_def)

lemma safe_and_then [safe_intros]:
  assumes "safe I Q m" and "\<And>x s. I s \<Longrightarrow> Q x s \<Longrightarrow> safe I R (f x s)"
  shows "safe I R (and_then m f)"
  using assms by (cases "(m, f)" rule: and_then.cases) auto

lemma safe_if [safe_intros]:
  "(b \<Longrightarrow> safe I Q m) \<Longrightarrow> (\<not> b \<Longrightarrow> safe I Q n) \<Longrightarrow> safe I Q (if b then m else n)"
  by simp

lemma safe_mono:
  assumes "safe I Q m" and "\<And>x s. I s \<Longrightarrow> Q x s \<Longrightarrow> R x s"
  shows "safe I R m"
  using assms by (auto simp: safe_def)

lemma safe_map_err [simp]: "safe I Q (apfst (map_err f) m) \<longleftrightarrow> safe I Q m"
proof -
  obtain r s where "m = (r, s)" by (cases m)
  then show ?thesis by (cases r) simp_all
qed

lemma is_ok_iff: "is_ok r \<longleftrightarrow> (\<exists>x. r = Ok x)"
  by (cases r) auto

text \<open>\<open>ends m\<close>: the computation \<open>m\<close> does not run out of its bound.\<close>

definition ends :: "('a, 'e) res \<times> 's \<Rightarrow> bool" where
  "ends m \<longleftrightarrow> fst m \<noteq> Hang"

lemma ends_values [simp]: "ends (Ok x, s)" "ends (Err e, s)" "ends (Panic, s)" "\<not> ends (Hang, s)"
  by (simp_all add: ends_def)

lemma ends_and_then: "ends m \<Longrightarrow> (\<And>x s. ends (f x s)) \<Longrightarrow> ends (and_then m f)"
  by (cases "(m, f)" rule: and_then.cases) auto

lemma ends_if: "(b \<Longrightarrow> ends m) \<Longrightarrow> (\<not> b \<Longrightarrow> ends n) \<Longrightarrow> ends (if b then m else n)"
  by simp

text \<open>The first number that does not fit in 64 bits.\<close>

definition U64 :: nat where "U64 = 2 ^ 64"

subsection \<open>Byte strings\<close>

type_synonym byte = "8 word"
type_synonym bytes = "byte list"

definition zeros :: "nat \<Rightarrow> bytes" where
  "zeros n = replicate n 0"

lemma length_zeros [simp]: "length (zeros n) = n"
  by (simp add: zeros_def)

lemma nth_zeros [simp]: "i < n \<Longrightarrow> zeros n ! i = 0"
  by (simp add: zeros_def)

text \<open>\<open>buf[at..at + xs.len()].copy_from_slice(xs)\<close>; the caller checks the range.\<close>

definition overwrite :: "'a list \<Rightarrow> nat \<Rightarrow> 'a list \<Rightarrow> 'a list" where
  "overwrite buf at xs = take at buf @ xs @ drop (at + length xs) buf"

text \<open>\<open>&buf[at..at + n]\<close>; the caller checks the range.\<close>

definition sub_slice :: "'a list \<Rightarrow> nat \<Rightarrow> nat \<Rightarrow> 'a list" where
  "sub_slice buf at n = take n (drop at buf)"

text \<open>\<open>bytes.get(at..at + n)\<close>\<close>

definition get_slice :: "bytes \<Rightarrow> nat \<Rightarrow> nat \<Rightarrow> bytes option" where
  "get_slice bs at n = (if at + n \<le> length bs then Some (sub_slice bs at n) else None)"

lemma length_overwrite [simp, slice_simps]:
  "at + length xs \<le> length buf \<Longrightarrow> length (overwrite buf at xs) = length buf"
  by (simp add: overwrite_def)

lemma length_slice [simp, slice_simps]:
  "at + n \<le> length buf \<Longrightarrow> length (sub_slice buf at n) = n"
  by (simp add: sub_slice_def)

lemma nth_slice [slice_simps]:
  "at + n \<le> length buf \<Longrightarrow> i < n \<Longrightarrow> sub_slice buf at n ! i = buf ! (at + i)"
  by (simp add: sub_slice_def)

lemma nth_overwrite [slice_simps]:
  assumes "at + length xs \<le> length buf" and "i < length buf"
  shows "overwrite buf at xs ! i =
    (if at \<le> i \<and> i < at + length xs then xs ! (i - at) else buf ! i)"
  using assms by (auto simp: overwrite_def nth_append min_def)

lemma overwrite_Nil [simp]: "overwrite buf at [] = buf"
  by (simp add: overwrite_def)

lemma slice_overwrite_same:
  "at + length xs \<le> length buf \<Longrightarrow> sub_slice (overwrite buf at xs) at (length xs) = xs"
  by (simp add: sub_slice_def overwrite_def)

lemma slice_all [simp]: "sub_slice buf 0 (length buf) = buf"
  by (simp add: sub_slice_def)

lemma slice_overwrite_before:
  "i + n \<le> at \<Longrightarrow> at + length xs \<le> length buf \<Longrightarrow> sub_slice (overwrite buf at xs) i n = sub_slice buf i n"
  by (rule nth_equalityI) (auto simp: slice_simps)

lemma slice_overwrite_after:
  "at + length xs \<le> i \<Longrightarrow> i + n \<le> length buf \<Longrightarrow> sub_slice (overwrite buf at xs) i n = sub_slice buf i n"
  by (rule nth_equalityI) (auto simp: slice_simps)

subsection \<open>Fixed-width integers as bytes\<close>

text \<open>\<open>to_le_bytes\<close> of an unsigned integer of \<open>k\<close> bytes, after truncation to that width.\<close>

primrec to_le_bytes :: "nat \<Rightarrow> nat \<Rightarrow> bytes" where
  "to_le_bytes 0 n = []"
| "to_le_bytes (Suc k) n = word_of_nat (n mod 256) # to_le_bytes k (n div 256)"

primrec from_le_bytes :: "bytes \<Rightarrow> nat" where
  "from_le_bytes [] = 0"
| "from_le_bytes (b # bs) = unat b + 256 * from_le_bytes bs"

definition to_be_bytes :: "nat \<Rightarrow> nat \<Rightarrow> bytes" where
  "to_be_bytes k n = rev (to_le_bytes k n)"

lemma length_to_le_bytes [simp, slice_simps]: "length (to_le_bytes k n) = k"
  by (induction k arbitrary: n) auto

lemma length_to_be_bytes [simp, slice_simps]: "length (to_be_bytes k n) = k"
  by (simp add: to_be_bytes_def)

lemma unat_word_of_nat_byte [simp]: "n < 256 \<Longrightarrow> unat (word_of_nat n :: byte) = n"
  by (simp add: unat_of_nat)

lemma from_le_bytes_to_le_bytes: "from_le_bytes (to_le_bytes k n) = n mod 256 ^ k"
proof (induction k arbitrary: n)
  case 0
  then show ?case by simp
next
  case (Suc k)
  have "unat (word_of_nat (n mod 256) :: byte) = n mod 256"
    by simp
  then show ?case
    using Suc.IH [of "n div 256"] by (simp add: mod_mult2_eq)
qed

lemma from_le_bytes_to_le_bytes_id [simp]:
  "n < 256 ^ k \<Longrightarrow> from_le_bytes (to_le_bytes k n) = n"
  by (simp add: from_le_bytes_to_le_bytes)

lemma from_le_bytes_less: "from_le_bytes bs < 256 ^ length bs"
proof (induction bs)
  case (Cons b bs)
  then have "unat b + 256 * from_le_bytes bs < 256 + 256 * from_le_bytes bs"
    using unsigned_less [of b, where ?'a = nat] by simp
  also have "\<dots> \<le> 256 * 256 ^ length bs"
    using Cons by (metis Suc_leI mult_Suc_right mult_le_mono2)
  finally show ?case by simp
qed simp

lemma to_le_bytes_inj:
  "m < 256 ^ k \<Longrightarrow> n < 256 ^ k \<Longrightarrow> to_le_bytes k m = to_le_bytes k n \<Longrightarrow> m = n"
  by (metis from_le_bytes_to_le_bytes_id)

lemma to_be_bytes_inj:
  "m < 256 ^ k \<Longrightarrow> n < 256 ^ k \<Longrightarrow> to_be_bytes k m = to_be_bytes k n \<Longrightarrow> m = n"
  by (auto simp: to_be_bytes_def intro: to_le_bytes_inj)

subsection \<open>Rounded-up division and chunks\<close>

definition div_ceil :: "nat \<Rightarrow> nat \<Rightarrow> nat" where
  "div_ceil n d = (n + d - 1) div d"

lemma div_ceil_le_iff: "0 < d \<Longrightarrow> div_ceil n d \<le> k \<longleftrightarrow> n \<le> k * d"
proof -
  assume d: "0 < d"
  have "div_ceil n d \<le> k \<longleftrightarrow> (n + d - 1) div d < Suc k"
    by (simp add: div_ceil_def less_Suc_eq_le)
  also have "\<dots> \<longleftrightarrow> n + d - 1 < Suc k * d"
    using d by (simp add: div_less_iff_less_mult)
  also have "\<dots> \<longleftrightarrow> n \<le> k * d"
    using d by auto
  finally show ?thesis .
qed

lemma less_div_ceil_iff: "0 < d \<Longrightarrow> k < div_ceil n d \<longleftrightarrow> k * d < n"
  using div_ceil_le_iff [of d n k] by linarith

lemma div_ceil_mult [simp]: "0 < d \<Longrightarrow> div_ceil (k * d) d = k"
  using div_ceil_le_iff [of d "k * d"] less_div_ceil_iff [of d _ "k * d"]
  by (metis le_refl mult_less_cancel2 nat_neq_iff not_less)

text \<open>\<open>slice::chunks\<close>: pieces of \<open>n\<close> elements, the last one shorter if need be; no piece for an
  empty slice.  Rust panics for a chunk size of 0, which the callers rule out.\<close>

function chunks :: "nat \<Rightarrow> 'a list \<Rightarrow> 'a list list" where
  "chunks n xs =
     (if xs = [] then [] else if n = 0 then [xs] else take n xs # chunks n (drop n xs))"
  by pat_completeness auto
termination
  by (relation "measure (\<lambda>(n, xs). length xs)") auto

declare chunks.simps [simp del]

lemma chunks_Nil [simp]: "chunks n [] = []"
  by (simp add: chunks.simps)

lemma chunks_eq_Nil_iff [simp]: "chunks n xs = [] \<longleftrightarrow> xs = []"
  by (simp add: chunks.simps)

lemma concat_chunks [simp]: "concat (chunks n xs) = xs"
proof (induction n xs rule: chunks.induct)
  case (1 n xs)
  then show ?case
    by (cases "xs = []"; cases "n = 0") (simp_all add: chunks.simps [of n xs] chunks.simps [of 0 xs])
qed

lemma chunks_bounds: "0 < n \<Longrightarrow> ys \<in> set (chunks n xs) \<Longrightarrow> ys \<noteq> [] \<and> length ys \<le> n"
proof (induction n xs rule: chunks.induct)
  case (1 n xs)
  then show ?case
    by (cases "xs = []") (auto simp: chunks.simps [of n xs])
qed

lemma chunks_exact:
  assumes "0 < n" and "length xs = n * k"
  shows "length (chunks n xs) = k \<and> (\<forall>ys \<in> set (chunks n xs). length ys = n)"
  using assms
proof (induction k arbitrary: xs)
  case 0
  then show ?case by simp
next
  case (Suc k)
  then have xs: "xs \<noteq> []" by auto
  show ?case
    using Suc.IH [of "drop n xs"] Suc.prems by (simp add: chunks.simps [of n xs] xs)
qed

lemma chunks_concat_blocks:
  "0 < n \<Longrightarrow> \<forall>ys \<in> set yss. length ys = n \<Longrightarrow> chunks n (concat yss) = yss"
proof (induction yss)
  case (Cons ys yss)
  then have "ys \<noteq> []" by auto
  then show ?case
    using Cons by (simp add: chunks.simps [of n "ys @ concat yss"])
qed simp

text \<open>Positions in a file made of blocks of one size.\<close>

lemma length_concat_blocks:
  "\<forall>xs \<in> set xss. length xs = n \<Longrightarrow> length (concat xss) = length xss * n"
  by (induction xss) auto

lemma nth_concat_blocks:
  assumes "\<forall>xs \<in> set xss. length xs = n" and "i < length xss * n"
  shows "concat xss ! i = xss ! (i div n) ! (i mod n)"
  using assms
proof (induction xss arbitrary: i)
  case Nil
  then show ?case by simp
next
  case (Cons xs xss)
  then have n: "length xs = n" and "0 < n"
    by (auto intro: Nat.gr0I)
  show ?case
  proof (cases "i < n")
    case True
    then show ?thesis using n by (simp add: nth_append)
  next
    case False
    then have "i div n = Suc ((i - n) div n)" and "i mod n = (i - n) mod n"
      using \<open>0 < n\<close> by (simp_all add: le_div_geq le_mod_geq)
    then show ?thesis
      using Cons False n by (simp add: nth_append)
  qed
qed

end
