(* ===== verification/Utf8.thy ===== *)
theory Utf8
  imports Prelude
begin

text \<open>
  Rust strings.  A \<open>String\<close> is the list of its UTF-8 bytes.  \<open>utf8_char\<close> is the decision the standard
  library takes at the start of a byte string: how many bytes belong to the first character, and
  whether they are one; \<open>String::from_utf8\<close> and \<open>String::from_utf8_lossy\<close> follow from it.
\<close>

type_synonym rstring = bytes

definition cont_byte :: "byte \<Rightarrow> bool" where
  "cont_byte b \<longleftrightarrow> 0x80 \<le> b \<and> b \<le> 0xBF"

text \<open>A byte past the end counts as 0, which continues no character.\<close>

definition byte_at :: "bytes \<Rightarrow> nat \<Rightarrow> byte" where
  "byte_at bs i = (if i < length bs then bs ! i else 0)"

definition utf8_char :: "bytes \<Rightarrow> bool \<times> nat" where
  "utf8_char bs =
     (let a = byte_at bs 0; b = byte_at bs 1; c = byte_at bs 2; d = byte_at bs 3 in
      if a < 0x80 then (True, 1)
      else if 0xC2 \<le> a \<and> a \<le> 0xDF then
        if cont_byte b then (True, 2) else (False, 1)
      else if 0xE0 \<le> a \<and> a \<le> 0xEF then
        if cont_byte b \<and> (a = 0xE0 \<longrightarrow> 0xA0 \<le> b) \<and> (a = 0xED \<longrightarrow> b \<le> 0x9F)
        then if cont_byte c then (True, 3) else (False, 2)
        else (False, 1)
      else if 0xF0 \<le> a \<and> a \<le> 0xF4 then
        if cont_byte b \<and> (a = 0xF0 \<longrightarrow> 0x90 \<le> b) \<and> (a = 0xF4 \<longrightarrow> b \<le> 0x8F)
        then if cont_byte c then if cont_byte d then (True, 4) else (False, 3) else (False, 2)
        else (False, 1)
      else (False, 1))"

lemma utf8_char_pos: "0 < snd (utf8_char bs)"
  by (simp add: utf8_char_def Let_def)

function valid_utf8 :: "bytes \<Rightarrow> bool" where
  "valid_utf8 bs =
     (if bs = [] then True
      else case utf8_char bs of (ok, n) \<Rightarrow> ok \<and> valid_utf8 (drop n bs))"
  by pat_completeness auto
termination
proof (relation "measure length")
  fix bs :: bytes and ok n
  assume "bs \<noteq> []" "(ok, n) = utf8_char bs"
  then show "(drop n bs, bs) \<in> measure length"
    using utf8_char_pos [of bs] by (metis in_measure length_drop diff_less length_greater_0_conv snd_conv)
qed simp

declare valid_utf8.simps [simp del]

definition from_utf8 :: "bytes \<Rightarrow> rstring option" where
  "from_utf8 bs = (if valid_utf8 bs then Some bs else None)"

text \<open>Malformed parts become the replacement character.\<close>

function from_utf8_lossy :: "bytes \<Rightarrow> rstring" where
  "from_utf8_lossy bs =
     (if bs = [] then []
      else case utf8_char bs of (ok, n) \<Rightarrow>
        (if ok then take n bs else [0xEF, 0xBF, 0xBD]) @ from_utf8_lossy (drop n bs))"
  by pat_completeness auto
termination
proof (relation "measure length")
  fix bs :: bytes and ok n
  assume "bs \<noteq> []" "(ok, n) = utf8_char bs"
  then show "(drop n bs, bs) \<in> measure length"
    using utf8_char_pos [of bs] by (metis in_measure length_drop diff_less length_greater_0_conv snd_conv)
qed simp

declare from_utf8_lossy.simps [simp del]

lemma from_utf8_eq_Some [simp]: "from_utf8 bs = Some s \<longleftrightarrow> valid_utf8 bs \<and> s = bs"
  by (auto simp: from_utf8_def)

lemma valid_utf8_Nil [simp]: "valid_utf8 []"
  by (simp add: valid_utf8.simps)

lemma from_utf8_lossy_valid: "valid_utf8 bs \<Longrightarrow> from_utf8_lossy bs = bs"
proof (induction bs rule: valid_utf8.induct)
  case (1 bs)
  obtain ok n where c: "utf8_char bs = (ok, n)" by (cases "utf8_char bs")
  show ?case
  proof (cases "bs = []")
    case True
    then show ?thesis by (simp add: from_utf8_lossy.simps)
  next
    case False
    then have "ok" "valid_utf8 (drop n bs)"
      using "1.prems" c by (simp_all add: valid_utf8.simps [of bs])
    then show ?thesis
      using False c "1.IH" [OF False c [symmetric]] by (simp add: from_utf8_lossy.simps [of bs])
  qed
qed

text \<open>ASCII is UTF-8, byte by byte.\<close>

lemma valid_utf8_ascii: "\<forall>b \<in> set bs. b < 0x80 \<Longrightarrow> valid_utf8 bs"
proof (induction bs)
  case (Cons b bs)
  then have "utf8_char (b # bs) = (True, 1)"
    by (simp add: utf8_char_def byte_at_def)
  then show ?case
    using Cons by (simp add: valid_utf8.simps [of "b # bs"])
qed simp

end
