(* ===== verification/Base.thy ===== *)
theory Base
  imports Utf8
begin

text \<open>
  Data that several components share: the counters of \<open>lib.rs\<close> (\<open>Stats\<close>), the reasons why an
  open database can no longer be used (\<open>Broken\<close> of \<open>database.rs\<close>) with the public form of them
  (\<open>Failure\<close> of \<open>lib.rs\<close>), and time.  A \<open>Moment\<close> and a \<open>Duration\<close> are numbers of milliseconds;
  subtraction of a later from an earlier moment gives 0, as \<open>Moment::since\<close> does.  Messages keep
  their fixed text; the values the sources format into them are left out, as no code reads them.
\<close>

type_synonym message = string

record stats =
  commits :: nat
  commit_frames :: nat
  committed_blocks :: nat
  committed_bytes :: nat
  commit_time :: nat
  max_commit_time :: nat
  fetches :: nat
  fetched_blocks :: nat
  fetch_time :: nat
  reconnects :: nat
  local_writes :: nat
  local_blocks_written :: nat
  local_reads :: nat
  local_blocks_read :: nat
  local_misses :: nat
  local_failures :: nat
  caught_up :: nat
  forgotten_blocks :: nat
  evicted_blocks :: nat
  held_blocks :: nat
  recovered_commits :: nat
  resent_commits :: nat
  healed :: nat

definition default_stats :: stats where
  "default_stats = \<lparr>commits = 0, commit_frames = 0, committed_blocks = 0, committed_bytes = 0,
     commit_time = 0, max_commit_time = 0, fetches = 0, fetched_blocks = 0, fetch_time = 0,
     reconnects = 0, local_writes = 0, local_blocks_written = 0, local_reads = 0,
     local_blocks_read = 0, local_misses = 0, local_failures = 0, caught_up = 0,
     forgotten_blocks = 0, evicted_blocks = 0, held_blocks = 0, recovered_commits = 0,
     resent_commits = 0, healed = 0\<rparr>"

text \<open>The metadata of a local copy (\<open>Head\<close> of \<open>local.rs\<close>).\<close>

record head =
  hd_subject :: rstring
  hd_db_id :: rstring
  hd_page_size :: nat
  hd_page_count :: nat
  hd_version :: nat

text \<open>Why a database can no longer be used.\<close>

datatype broken =
    Fenced
  | Uncertain message
  | Diverged message
  | Refused message
  | Denied message
  | Full message
  | Plaintext

text \<open>The public reason.\<close>

datatype failure = TakenOver | Unreachable | Denied_failure | Rejected | Full_failure | Plaintext_failure

end
