(* ===== verification/Pages.thy ===== *)
theory Pages
  imports Base "HOL-Library.Product_Lexorder"
begin

text \<open>
  The blocks of the main database file in memory (\<open>pages.rs\<close>): blocks read or written, the blocks
  modified since the last commit and the memory limit with its least-recently-used eviction.
  Missing blocks come from a \<open>Source\<close>, which is a function parameter \<open>fill\<close> here; the laws the
  sources obey are the locales \<open>page_source\<close> and \<open>page_source_exact\<close>.  The lemmas of the second
  locale show that the block store implements a plain file of bytes.

  Panics of the source are results: division by a page size of 0, slices beyond a block's end, and
  the lookup of a dirty block that is not in memory.
\<close>

subsection \<open>Page sizes\<close>

definition REFILL_BLOCKS :: nat where "REFILL_BLOCKS = 64"
definition MIN_PAGE_SIZE :: nat where "MIN_PAGE_SIZE = 512"
definition MAX_PAGE_SIZE :: nat where "MAX_PAGE_SIZE = 65536"
definition MAX_PAGE_COUNT :: nat where "MAX_PAGE_COUNT = 4294967294"

definition is_power_of_two :: "nat \<Rightarrow> bool" where
  "is_power_of_two n \<longleftrightarrow> list_ex (\<lambda>k. n = 2 ^ k) [0..<32]"

definition valid_page_size :: "nat \<Rightarrow> bool" where
  "valid_page_size n \<longleftrightarrow> MIN_PAGE_SIZE \<le> n \<and> n \<le> MAX_PAGE_SIZE \<and> is_power_of_two n"

subsection \<open>State\<close>

record block =
  blk_data :: bytes
  blk_used :: nat

record pages =
  pg_page_size :: nat
  pg_page_count :: nat
  pg_stable_page_count :: nat
  pg_blocks :: "(nat, block) fmap"
  pg_dirty :: "nat fset"
  pg_size_changed :: bool
  pg_blocks_per_fetch :: "nat option"
  pg_cap :: "nat option"
  pg_clock :: nat

definition pages_new :: "nat \<Rightarrow> nat \<Rightarrow> nat option \<Rightarrow> nat option \<Rightarrow> pages" where
  "pages_new page_size page_count per_fetch cap =
     \<lparr>pg_page_size = page_size, pg_page_count = page_count, pg_stable_page_count = page_count,
      pg_blocks = fmempty, pg_dirty = {||}, pg_size_changed = False,
      pg_blocks_per_fetch = per_fetch, pg_cap = cap, pg_clock = 0\<rparr>"

definition emptied :: "pages \<Rightarrow> nat \<Rightarrow> pages" where
  "emptied p page_count = pages_new (pg_page_size p) page_count (pg_blocks_per_fetch p) (pg_cap p)"

definition on_demand :: "pages \<Rightarrow> bool" where
  "on_demand p \<longleftrightarrow> pg_blocks_per_fetch p \<noteq> None"

definition pages_file_size :: "pages \<Rightarrow> nat" where
  "pages_file_size p = pg_page_count p * pg_page_size p"

definition held :: "pages \<Rightarrow> nat" where
  "held p = fcard (fmdom (pg_blocks p))"

definition block_at :: "pages \<Rightarrow> nat \<Rightarrow> bytes option" where
  "block_at p index = map_option blk_data (fmlookup (pg_blocks p) index)"

definition indexes :: "pages \<Rightarrow> nat list" where
  "indexes p = sorted_list_of_fset (fmdom (pg_blocks p))"

definition is_clean :: "pages \<Rightarrow> bool" where
  "is_clean p \<longleftrightarrow> pg_dirty p = {||} \<and> \<not> pg_size_changed p"

text \<open>The dirty blocks in index order.  A dirty block that is not in memory would panic.\<close>

definition dirty_blocks :: "pages \<Rightarrow> ((nat \<times> bytes) list, broken) res" where
  "dirty_blocks p =
     (let is = sorted_list_of_fset (pg_dirty p) in
      if list_all (\<lambda>i. fmlookup (pg_blocks p) i \<noteq> None) is
      then Ok (map (\<lambda>i. (i, blk_data (the (fmlookup (pg_blocks p) i)))) is)
      else Panic)"

definition committed :: "pages \<Rightarrow> nat list \<times> pages" where
  "committed p =
     (sorted_list_of_fset (pg_dirty p),
      p\<lparr>pg_dirty := {||}, pg_size_changed := False, pg_stable_page_count := pg_page_count p\<rparr>)"

subsection \<open>The clock, loaded blocks and eviction\<close>

definition tick :: "pages \<Rightarrow> nat \<times> pages" where
  "tick p = (pg_clock p + 1, p\<lparr>pg_clock := pg_clock p + 1\<rparr>)"

definition touch :: "pages \<Rightarrow> nat \<Rightarrow> pages" where
  "touch p index =
     (let (used, p) = tick p in
      case fmlookup (pg_blocks p) index of
        Some b \<Rightarrow> p\<lparr>pg_blocks := fmupd index (b\<lparr>blk_used := used\<rparr>) (pg_blocks p)\<rparr>
      | None \<Rightarrow> p)"

definition keep :: "pages \<Rightarrow> nat \<Rightarrow> bytes \<Rightarrow> pages" where
  "keep p index d =
     (let (used, p) = tick p in
      case fmlookup (pg_blocks p) index of
        Some _ \<Rightarrow> p
      | None \<Rightarrow> p\<lparr>pg_blocks := fmupd index \<lparr>blk_data = d, blk_used = used\<rparr> (pg_blocks p)\<rparr>)"

text \<open>The sources keep the blocks of an answer one after the other.\<close>

primrec keep_all :: "pages \<Rightarrow> nat \<Rightarrow> bytes list \<Rightarrow> pages" where
  "keep_all p first [] = p"
| "keep_all p first (d # ds) = keep_all (keep p first d) (first + 1) ds"

text \<open>
  \<open>ages\<close> pairs the last use of every block that is not dirty with its index.  The source moves the
  \<open>count\<close> smallest pairs to the front (\<open>select_nth_unstable\<close>) and removes them; as the pairs are
  distinct, these are the first \<open>count\<close> pairs in sorted order.
\<close>

definition ages :: "pages \<Rightarrow> (nat \<times> nat) list" where
  "ages p = sorted_list_of_fset
     ((\<lambda>i. (blk_used (the (fmlookup (pg_blocks p) i)), i)) |`|
        ffilter (\<lambda>i. i |\<notin>| pg_dirty p) (fmdom (pg_blocks p)))"

definition make_room :: "pages \<Rightarrow> nat \<Rightarrow> stats \<Rightarrow> pages \<times> stats" where
  "make_room p incoming st =
     (case map_option (\<lambda>c. max c 1) (pg_cap p) of
        None \<Rightarrow> (p, st)
      | Some cap \<Rightarrow>
          let here = held p in
          if here + incoming \<le> cap then (p, st)
          else
            let target = (cap - cap div 8) - incoming;
                count = min (here - target) (length (ages p))
            in if count = 0 then (p, st)
               else (p\<lparr>pg_blocks :=
                         fmdrop_fset (fset_of_list (map snd (take count (ages p)))) (pg_blocks p)\<rparr>,
                     st\<lparr>evicted_blocks := evicted_blocks st + count\<rparr>))"

subsection \<open>Reading, writing and truncating\<close>

text \<open>A turn of the read or write loop handles at least one byte and stays within the buffer.\<close>

lemma page_progress:
  fixes ps pos at len :: nat
  assumes "0 < ps" and "at < len"
  shows "len - (at + min (ps - pos mod ps) (len - at)) < len - at"
    and "at + min (ps - pos mod ps) (len - at) \<le> len"
    and "0 < min (ps - pos mod ps) (len - at)"
proof -
  obtain k where k: "k = pos mod ps" and "k < ps"
    using assms by simp
  then show "len - (at + min (ps - pos mod ps) (len - at)) < len - at"
    and "at + min (ps - pos mod ps) (len - at) \<le> len"
    and "0 < min (ps - pos mod ps) (len - at)"
    unfolding k [symmetric] using assms by (auto simp: min_def)
qed

text \<open>
  A source loads blocks \<open>first\<close> to \<open>first + count - 1\<close> into the block store.  It has a state of its
  own (the connection, the local copy) and updates the counters.
\<close>

type_synonym 's fill =
  "'s \<Rightarrow> pages \<Rightarrow> nat \<Rightarrow> nat \<Rightarrow> stats \<Rightarrow> (unit, broken) res \<times> 's \<times> pages \<times> stats"

definition missing_run :: "pages \<Rightarrow> nat \<Rightarrow> nat \<Rightarrow> nat" where
  "missing_run p index per_fetch =
     length (takeWhile (\<lambda>i. fmlookup (pg_blocks p) i = None \<and> i |\<notin>| pg_dirty p)
       (take per_fetch [index..<pg_page_count p]))"

definition ensure_loaded ::
  "'s fill \<Rightarrow> 's \<Rightarrow> pages \<Rightarrow> nat \<Rightarrow> stats \<Rightarrow> (unit, broken) res \<times> 's \<times> pages \<times> stats" where
  "ensure_loaded fill s p index st =
     (if fmlookup (pg_blocks p) index \<noteq> None \<or> index |\<in>| pg_dirty p
      then (Ok (), s, touch p index, st)
      else if pg_blocks_per_fetch p = None \<and> pg_cap p = None
      then (Ok (), s, p, st)
      else
        let per_fetch = (case pg_blocks_per_fetch p of Some n \<Rightarrow> n | None \<Rightarrow> REFILL_BLOCKS);
            count = missing_run p index per_fetch
        in if count = 0 then (Ok (), s, p, st)
           else (case make_room p count st of (p, st) \<Rightarrow> fill s p index count st))"

text \<open>
  The loop of \<open>Pages::read\<close>.  \<open>page_size\<close> is the value read before the loop; no operation changes
  the field.  The buffer is part of the result on every path, as the caller's slice is.
\<close>

function read_loop ::
  "'s fill \<Rightarrow> nat \<Rightarrow> 's \<Rightarrow> pages \<Rightarrow> bytes \<Rightarrow> nat \<Rightarrow> nat \<Rightarrow> stats \<Rightarrow>
     (bool, broken) res \<times> bytes \<times> 's \<times> pages \<times> stats" where
  "read_loop fill page_size s p buf offset done st =
     (if done < length buf then
        if page_size = 0 then (Panic, buf, s, p, st)
        else
          let position = offset + done; index = position div page_size in
          if index \<ge> pg_page_count p
          then (Ok False, take done buf @ zeros (length buf - done), s, p, st)
          else (case ensure_loaded fill s p index st of
              (Ok _, s, p, st) \<Rightarrow>
                let within = position mod page_size;
                    n = min (page_size - within) (length buf - done)
                in (case fmlookup (pg_blocks p) index of
                      Some b \<Rightarrow>
                        if within + n \<le> length (blk_data b)
                        then read_loop fill page_size s p
                               (overwrite buf done (sub_slice (blk_data b) within n)) offset (done + n) st
                        else (Panic, buf, s, p, st)
                    | None \<Rightarrow>
                        read_loop fill page_size s p (overwrite buf done (zeros n)) offset (done + n) st)
            | (Err e, s, p, st) \<Rightarrow> (Err e, buf, s, p, st)
            | (Panic, s, p, st) \<Rightarrow> (Panic, buf, s, p, st)
            | (Hang, s, p, st) \<Rightarrow> (Hang, buf, s, p, st))
      else (Ok True, buf, s, p, st\<lparr>held_blocks := held p\<rparr>))"
  by pat_completeness auto
termination
  by (relation "measure (\<lambda>(fill, page_size, s, p, buf, offset, done, st). length buf - done)")
     (simp_all add: page_progress)

declare read_loop.simps [simp del]

definition pages_read ::
  "'s fill \<Rightarrow> 's \<Rightarrow> pages \<Rightarrow> bytes \<Rightarrow> nat \<Rightarrow> stats \<Rightarrow>
     (bool, broken) res \<times> bytes \<times> 's \<times> pages \<times> stats" where
  "pages_read fill s p buf offset st = read_loop fill (pg_page_size p) s p buf offset 0 st"

text \<open>One turn of the loop of \<open>Pages::write\<close> after the block is loaded if it has to be.\<close>

definition write_block :: "pages \<Rightarrow> nat \<Rightarrow> nat \<Rightarrow> nat \<Rightarrow> bytes \<Rightarrow> (pages, broken) res" where
  "write_block p page_size index within piece =
     (let (used, p) = tick p;
          b = (case fmlookup (pg_blocks p) index of
                 Some b \<Rightarrow> b | None \<Rightarrow> \<lparr>blk_data = zeros page_size, blk_used = used\<rparr>)
      in if within + length piece \<le> length (blk_data b)
         then
           let p = p\<lparr>pg_blocks := fmupd index
                       \<lparr>blk_data = overwrite (blk_data b) within piece, blk_used = used\<rparr> (pg_blocks p),
                     pg_dirty := finsert index (pg_dirty p)\<rparr>
           in Ok (if index \<ge> pg_page_count p
                  then p\<lparr>pg_page_count := index + 1, pg_size_changed := True\<rparr> else p)
         else Panic)"

function write_loop ::
  "'s fill \<Rightarrow> nat \<Rightarrow> 's \<Rightarrow> pages \<Rightarrow> bytes \<Rightarrow> nat \<Rightarrow> nat \<Rightarrow> stats \<Rightarrow>
     (unit, broken) res \<times> 's \<times> pages \<times> stats" where
  "write_loop fill page_size s p d offset done st =
     (if done < length d then
        if page_size = 0 then (Panic, s, p, st)
        else
          let position = offset + done;
              index = position div page_size;
              within = position mod page_size;
              n = min (page_size - within) (length d - done)
          in (case (if n < page_size \<and> index < pg_page_count p
                    then ensure_loaded fill s p index st else (Ok (), s, p, st)) of
                (Ok _, s, p, st) \<Rightarrow>
                  (case write_block p page_size index within (sub_slice d done n) of
                     Ok p \<Rightarrow> write_loop fill page_size s p d offset (done + n) st
                   | Err e \<Rightarrow> (Err e, s, p, st)
                   | Panic \<Rightarrow> (Panic, s, p, st)
                   | Hang \<Rightarrow> (Hang, s, p, st))
              | (Err e, s, p, st) \<Rightarrow> (Err e, s, p, st)
              | (Panic, s, p, st) \<Rightarrow> (Panic, s, p, st)
              | (Hang, s, p, st) \<Rightarrow> (Hang, s, p, st))
      else (Ok (), s, p, st\<lparr>held_blocks := held p\<rparr>))"
  by pat_completeness auto
termination
  by (relation "measure (\<lambda>(fill, page_size, s, p, d, offset, done, st). length d - done)")
     (simp_all add: page_progress)

declare write_loop.simps [simp del]

definition pages_write ::
  "'s fill \<Rightarrow> 's \<Rightarrow> pages \<Rightarrow> bytes \<Rightarrow> nat \<Rightarrow> stats \<Rightarrow>
     (unit, broken) res \<times> 's \<times> pages \<times> stats" where
  "pages_write fill s p d offset st = write_loop fill (pg_page_size p) s p d offset 0 st"

text \<open>A page size of 0 would panic in \<open>div_ceil\<close>.\<close>

definition pages_truncate :: "pages \<Rightarrow> nat \<Rightarrow> (pages, broken) res" where
  "pages_truncate p new_size =
     (if pg_page_size p = 0 then Panic
      else
        let page_count = div_ceil new_size (pg_page_size p) in
        if page_count \<noteq> pg_page_count p
        then Ok (p\<lparr>pg_blocks := fmfilter (\<lambda>i. i < page_count) (pg_blocks p),
                   pg_dirty := ffilter (\<lambda>i. i < page_count) (pg_dirty p),
                   pg_page_count := page_count, pg_size_changed := True\<rparr>)
        else Ok p)"

subsection \<open>Well-formed block stores\<close>

text \<open>
  Every block in memory has the page size and was last used in the past, and every dirty block is in
  memory.  At least one block is loaded per request.  That the blocks lie inside the file is not part
  of the invariant, because a server that answers a request for ranges with other blocks can break it.
\<close>

definition pages_wf :: "pages \<Rightarrow> bool" where
  "pages_wf p \<longleftrightarrow> 0 < pg_page_size p \<and>
     fmpred (\<lambda>i b. length (blk_data b) = pg_page_size p \<and> blk_used b \<le> pg_clock p)
       (pg_blocks p) \<and>
     pg_dirty p |\<subseteq>| fmdom (pg_blocks p) \<and> pg_blocks_per_fetch p \<noteq> Some 0"

lemma pages_wfD:
  assumes "pages_wf p"
  shows "0 < pg_page_size p"
    and "fmlookup (pg_blocks p) i = Some b \<Longrightarrow> length (blk_data b) = pg_page_size p"
    and "fmlookup (pg_blocks p) i = Some b \<Longrightarrow> blk_used b \<le> pg_clock p"
    and "i |\<in>| pg_dirty p \<Longrightarrow> \<exists>b. fmlookup (pg_blocks p) i = Some b"
    and "pg_blocks_per_fetch p \<noteq> Some 0"
  using assms by (auto simp: pages_wf_def fmpred_iff fmlookup_dom_iff)

lemma pages_wf_new: "0 < ps \<Longrightarrow> bpf \<noteq> Some 0 \<Longrightarrow> pages_wf (pages_new ps n bpf c)"
  by (simp add: pages_wf_def pages_new_def)

lemma pages_new_simps [simp]:
  "pg_page_size (pages_new ps n bpf c) = ps"
  "pg_page_count (pages_new ps n bpf c) = n"
  "pg_stable_page_count (pages_new ps n bpf c) = n"
  "pg_blocks (pages_new ps n bpf c) = fmempty"
  "pg_dirty (pages_new ps n bpf c) = {||}"
  "pg_size_changed (pages_new ps n bpf c) = False"
  "pg_blocks_per_fetch (pages_new ps n bpf c) = bpf"
  "pg_cap (pages_new ps n bpf c) = c"
  by (simp_all add: pages_new_def)

subsection \<open>Single-block operations\<close>

lemma tick_eq [simp]: "tick p = (pg_clock p + 1, p\<lparr>pg_clock := pg_clock p + 1\<rparr>)"
  by (simp add: tick_def)

lemma touch_frame [frame_simps]:
  "pg_page_size (touch p i) = pg_page_size p"
  "pg_page_count (touch p i) = pg_page_count p"
  "pg_stable_page_count (touch p i) = pg_stable_page_count p"
  "pg_dirty (touch p i) = pg_dirty p"
  "pg_size_changed (touch p i) = pg_size_changed p"
  "pg_blocks_per_fetch (touch p i) = pg_blocks_per_fetch p"
  "pg_cap (touch p i) = pg_cap p"
  "pg_clock (touch p i) = pg_clock p + 1"
  "fmdom (pg_blocks (touch p i)) = fmdom (pg_blocks p)"
  by (auto simp: touch_def fmdomI split: option.split)

lemma touch_lookup:
  "fmlookup (pg_blocks (touch p i)) j =
     (if j = i then map_option (\<lambda>b. b\<lparr>blk_used := pg_clock p + 1\<rparr>) (fmlookup (pg_blocks p) i)
      else fmlookup (pg_blocks p) j)"
  by (auto simp: touch_def split: option.split)

lemma block_at_touch [simp]: "block_at (touch p i) j = block_at p j"
  by (cases "fmlookup (pg_blocks p) i") (auto simp: block_at_def touch_lookup)

lemma keep_frame [frame_simps]:
  "pg_page_size (keep p i d) = pg_page_size p"
  "pg_page_count (keep p i d) = pg_page_count p"
  "pg_stable_page_count (keep p i d) = pg_stable_page_count p"
  "pg_dirty (keep p i d) = pg_dirty p"
  "pg_size_changed (keep p i d) = pg_size_changed p"
  "pg_blocks_per_fetch (keep p i d) = pg_blocks_per_fetch p"
  "pg_cap (keep p i d) = pg_cap p"
  "pg_clock (keep p i d) = pg_clock p + 1"
  by (auto simp: keep_def split: option.split)

lemma keep_lookup:
  "fmlookup (pg_blocks (keep p i d)) j =
     (if j = i \<and> fmlookup (pg_blocks p) i = None
      then Some \<lparr>blk_data = d, blk_used = pg_clock p + 1\<rparr> else fmlookup (pg_blocks p) j)"
  by (auto simp: keep_def split: option.split)

lemma pages_wf_touch: "pages_wf p \<Longrightarrow> pages_wf (touch p i)"
  by (auto simp: pages_wf_def fmpred_iff frame_simps touch_lookup le_SucI split: if_splits)

lemma pages_wf_keep:
  "pages_wf p \<Longrightarrow> length d = pg_page_size p \<Longrightarrow> pages_wf (keep p i d)"
  by (auto simp: pages_wf_def fmpred_iff frame_simps keep_lookup fmlookup_dom_iff le_SucI fsubset_eq
      split: if_splits)

text \<open>Storing a block never replaces one in memory: it may hold changes that are not committed.\<close>

lemma keep_idle: "fmlookup (pg_blocks p) i = Some b \<Longrightarrow> pg_blocks (keep p i d) = pg_blocks p"
  by (simp add: keep_def)

subsection \<open>Eviction\<close>

lemma fcard_fimage_inj: "inj_on f (fset A) \<Longrightarrow> fcard (f |`| A) = fcard A"
  by (simp add: fcard.rep_eq card_image)

lemma length_sorted_list_of_fset: "length (sorted_list_of_fset A) = fcard A"
  by (simp add: sorted_list_of_fset.rep_eq fcard.rep_eq)

lemma sorted_distinct_sorted_list_of_fset:
  "sorted (sorted_list_of_fset A) \<and> distinct (sorted_list_of_fset A)"
  by (simp add: sorted_list_of_fset.rep_eq)

lemma set_ages:
  "set (ages p) = {(blk_used b, i) |i b. fmlookup (pg_blocks p) i = Some b \<and> i |\<notin>| pg_dirty p}"
  by (auto simp: ages_def fmlookup_dom_iff image_iff)

lemma sorted_ages: "sorted (ages p)" and distinct_ages: "distinct (ages p)"
  using sorted_distinct_sorted_list_of_fset by (auto simp: ages_def)

lemma distinct_snd_ages: "distinct (map snd (ages p))"
proof -
  have "inj_on snd (set (ages p))"
    by (auto simp: inj_on_def set_ages)
  then show ?thesis
    by (simp add: distinct_map distinct_ages)
qed

definition clean_indexes :: "pages \<Rightarrow> nat fset" where
  "clean_indexes p = ffilter (\<lambda>i. i |\<notin>| pg_dirty p) (fmdom (pg_blocks p))"

lemma length_ages: "length (ages p) = fcard (clean_indexes p)"
  by (simp add: ages_def clean_indexes_def length_sorted_list_of_fset fcard_fimage_inj inj_on_def)

lemma snd_set_ages: "snd ` set (ages p) = fset (clean_indexes p)"
  by (force simp: set_ages clean_indexes_def fmlookup_dom_iff)

definition victims :: "pages \<Rightarrow> nat \<Rightarrow> nat fset" where
  "victims p count = fset_of_list (map snd (take count (ages p)))"

lemma victims_subset: "victims p count |\<subseteq>| clean_indexes p"
  using snd_set_ages [of p] by (auto simp: victims_def fset_of_list.rep_eq less_eq_fset.rep_eq
      dest: in_set_takeD)

lemma victims_clean:
  "i |\<in>| victims p count \<Longrightarrow> i |\<notin>| pg_dirty p \<and> i |\<in>| fmdom (pg_blocks p)"
  using fsubsetD [OF victims_subset [of p count]] by (simp add: clean_indexes_def)

lemma fcard_victims: "fcard (victims p count) = min count (length (ages p))"
proof -
  have "distinct (map snd (take count (ages p)))"
    using distinct_snd_ages [of p] by (metis distinct_take take_map)
  then have "card (set (map snd (take count (ages p)))) = length (map snd (take count (ages p)))"
    by (rule distinct_card)
  then show ?thesis
    by (simp add: victims_def fcard.rep_eq fset_of_list.rep_eq min.commute)
qed

text \<open>The victims are least recently used: no block that stays was used earlier.\<close>

lemma victims_oldest:
  assumes v: "i |\<in>| victims p count" and k: "j |\<in>| clean_indexes p" "j |\<notin>| victims p count"
    and "fmlookup (pg_blocks p) i = Some b" "fmlookup (pg_blocks p) j = Some c"
  shows "blk_used b \<le> blk_used c"
proof -
  from v obtain u where u: "(u, i) \<in> set (take count (ages p))"
    by (auto simp: victims_def fset_of_list.rep_eq)
  then have "u = blk_used b"
    using assms(4) by (auto simp: set_ages dest!: in_set_takeD)
  moreover have "(blk_used c, j) \<in> set (ages p)"
    using k(1) assms(5) by (auto simp: set_ages clean_indexes_def)
  then have "(blk_used c, j) \<in> set (drop count (ages p))"
    using k(2) by (metis Un_iff append_take_drop_id set_append victims_def fset_of_list.rep_eq
        image_eqI list.set_map snd_conv)
  moreover have "sorted (take count (ages p) @ drop count (ages p))"
    by (simp add: sorted_ages)
  ultimately have "(u, i) \<le> (blk_used c, j)"
    using u by (auto simp only: sorted_append)
  then show ?thesis
    using \<open>u = blk_used b\<close> by (auto simp: less_eq_prod_def)
qed

definition evict_count :: "pages \<Rightarrow> nat \<Rightarrow> nat \<Rightarrow> nat" where
  "evict_count p cap incoming = min (held p - ((cap - cap div 8) - incoming)) (length (ages p))"

lemma evict_count_le: "evict_count p cap k \<le> length (ages p)"
  by (simp add: evict_count_def)

lemma make_room_eq:
  "make_room p k st =
     (case pg_cap p of
        None \<Rightarrow> (p, st)
      | Some c \<Rightarrow>
          if held p + k \<le> max c 1 \<or> evict_count p (max c 1) k = 0 then (p, st)
          else (p\<lparr>pg_blocks := fmdrop_fset (victims p (evict_count p (max c 1) k)) (pg_blocks p)\<rparr>,
                st\<lparr>evicted_blocks := evicted_blocks st + evict_count p (max c 1) k\<rparr>))"
  by (simp add: make_room_def Let_def victims_def evict_count_def split: option.split)

lemma make_room_cases:
  obtains (same) "make_room p k st = (p, st)"
  | (evict) count where "0 < count" and "count \<le> length (ages p)"
      and "make_room p k st =
        (p\<lparr>pg_blocks := fmdrop_fset (victims p count) (pg_blocks p)\<rparr>,
         st\<lparr>evicted_blocks := evicted_blocks st + count\<rparr>)"
proof (cases "make_room p k st = (p, st)")
  case False
  then obtain c where "pg_cap p = Some c" and "evict_count p (max c 1) k \<noteq> 0"
    and "\<not> held p + k \<le> max c 1"
    by (auto simp: make_room_eq split: option.splits if_splits)
  then show ?thesis
    by (intro evict [of "evict_count p (max c 1) k"]) (simp_all add: make_room_eq evict_count_le)
qed (rule same)

lemma make_room_frame:
  assumes "make_room p k st = (p', st')"
  shows "pg_page_size p' = pg_page_size p" and "pg_page_count p' = pg_page_count p"
    and "pg_stable_page_count p' = pg_stable_page_count p" and "pg_dirty p' = pg_dirty p"
    and "pg_size_changed p' = pg_size_changed p" and "pg_cap p' = pg_cap p"
    and "pg_blocks_per_fetch p' = pg_blocks_per_fetch p" and "pg_clock p' = pg_clock p"
  using assms by (auto simp: make_room_eq split: option.splits if_splits)

text \<open>What stays in memory is unchanged, and what goes was not dirty.\<close>

lemma make_room_lookup:
  assumes "make_room p k st = (p', st')"
  shows "fmlookup (pg_blocks p') i = fmlookup (pg_blocks p) i \<or>
    fmlookup (pg_blocks p') i = None \<and> i |\<notin>| pg_dirty p"
proof (cases rule: make_room_cases [of p k st])
  case same
  with assms show ?thesis by simp
next
  case (evict count)
  with assms show ?thesis
    by (cases "i |\<in>| victims p count") (auto dest: victims_clean)
qed

lemma pages_wf_make_room:
  assumes "pages_wf p" and "make_room p k st = (p', st')"
  shows "pages_wf p'"
proof -
  note look = make_room_lookup [OF assms(2)] and frame = make_room_frame [OF assms(2)]
  have "fmlookup (pg_blocks p') i = Some b \<Longrightarrow> fmlookup (pg_blocks p) i = Some b" for i b
    using look [of i] by auto
  moreover have "i |\<in>| pg_dirty p \<Longrightarrow> i |\<in>| fmdom (pg_blocks p')" for i
    using look [of i] pages_wfD(4) [OF assms(1), of i] by (auto simp: fmlookup_dom_iff)
  ultimately show ?thesis
    using assms(1) unfolding pages_wf_def fmpred_iff frame by blast
qed

lemma held_make_room:
  assumes "make_room p k st = (p', st')"
  shows "held p' + (evicted_blocks st' - evicted_blocks st) = held p"
    and "evicted_blocks st \<le> evicted_blocks st'"
proof -
  have "fcard (fmdom (pg_blocks p) |-| victims p count) + count = fcard (fmdom (pg_blocks p))"
    if "count \<le> length (ages p)" for count
  proof -
    have sub: "fset (victims p count) \<subseteq> fset (fmdom (pg_blocks p))"
      using victims_subset [of p count] by (auto simp: clean_indexes_def less_eq_fset.rep_eq)
    then have "card (fset (victims p count)) \<le> card (fset (fmdom (pg_blocks p)))"
      by (simp add: card_mono)
    then show ?thesis
      using sub that fcard_victims [of p count]
      by (simp add: fcard.rep_eq card_Diff_subset)
  qed
  note drop = this
  have "held p' + (evicted_blocks st' - evicted_blocks st) = held p \<and>
      evicted_blocks st \<le> evicted_blocks st'"
  proof (cases rule: make_room_cases [of p k st])
    case same
    with assms show ?thesis by simp
  next
    case (evict count)
    with assms drop [of count] show ?thesis by (auto simp: held_def)
  qed
  then show "held p' + (evicted_blocks st' - evicted_blocks st) = held p"
    and "evicted_blocks st \<le> evicted_blocks st'" by simp_all
qed

lemma min_either: "min a b = b \<or> min a b = a \<and> min a b < b" for a b :: nat
  by (cases "a < b") simp_all

lemma evict_arith:
  fixes cap d h k count n :: nat
  assumes "count = h - ((cap - d) - k)" and "count < n" and "n \<le> h"
  shows "h - count + k \<le> cap"
  using assms by arith

lemma make_room_fits:
  assumes mr: "make_room p k st = (p', st')" and cap: "pg_cap p = Some c"
  shows "held p' + k \<le> max c 1 \<or> fmdom (pg_blocks p') |\<subseteq>| pg_dirty p"
proof -
  let ?cap = "max c 1" and ?n = "length (ages p)"
  let ?goal = "(?cap - ?cap div 8) - k"
  let ?count = "evict_count p ?cap k"
  have none_clean: "fmdom (pg_blocks p) |-| victims p ?count |\<subseteq>| pg_dirty p" if "?count = ?n"
  proof -
    have "fset (victims p ?n) = fset (clean_indexes p)"
      by (simp add: victims_def fset_of_list.rep_eq snd_set_ages)
    then show ?thesis
      using that by (auto simp: less_eq_fset.rep_eq clean_indexes_def)
  qed
  have none_victim: "victims p 0 = {||}"
    by (simp add: victims_def)
  have le: "?n \<le> held p"
    unfolding length_ages held_def clean_indexes_def fcard.rep_eq by (rule card_mono) auto
  have "?count = ?n \<or> ?count = held p - ?goal \<and> ?count < ?n"
    unfolding evict_count_def by (rule min_either)
  then consider (fits) "held p + k \<le> ?cap" | (all) "\<not> held p + k \<le> ?cap" "?count = ?n"
    | (some) "\<not> held p + k \<le> ?cap" "?count = held p - ?goal" "?count < ?n"
    by blast
  then show ?thesis
  proof cases
    case fits
    then show ?thesis using mr cap by (simp add: make_room_eq)
  next
    case all
    then show ?thesis
      using mr cap none_clean none_victim by (cases "?count = 0") (simp_all add: make_room_eq, auto)
  next
    case some
    have "held p' = held p - ?count"
    proof (cases "?count = 0")
      case True
      then show ?thesis using mr cap by (simp add: make_room_eq)
    next
      case False
      then have "st' = st\<lparr>evicted_blocks := evicted_blocks st + ?count\<rparr>"
        using mr cap some(1) by (auto simp: make_room_eq)
      then show ?thesis using held_make_room [OF mr] by simp
    qed
    moreover have "held p - ?count + k \<le> ?cap"
      by (rule evict_arith [OF some(2) some(3) le])
    ultimately show ?thesis by simp
  qed
qed

lemma make_room_oldest:
  assumes "make_room p k st = (p', st')"
    and "fmlookup (pg_blocks p) i = Some b" "fmlookup (pg_blocks p') i = None"
    and "fmlookup (pg_blocks p') j = Some c" "j |\<notin>| pg_dirty p"
  shows "blk_used b \<le> blk_used c"
proof (cases rule: make_room_cases [of p k st])
  case same
  with assms show ?thesis by simp
next
  case (evict count)
  with assms have "i |\<in>| victims p count" "j |\<notin>| victims p count"
    "fmlookup (pg_blocks p) j = Some c"
    by (auto split: if_splits)
  moreover from this have "j |\<in>| clean_indexes p"
    using assms(5) by (simp add: clean_indexes_def fmdomI)
  ultimately show ?thesis
    using victims_oldest assms(2) by blast
qed

text \<open>C21: making room keeps every dirty block and never changes a block that stays; afterwards the
  incoming blocks fit the memory limit unless every block left is dirty; each evicted block was
  used no later than every clean block that stays; the eviction counter counts the evicted blocks.\<close>

theorem make_room_spec:
  assumes "make_room p incoming st = (p', st')"
  shows "(\<forall>i. i |\<in>| pg_dirty p \<longrightarrow> fmlookup (pg_blocks p') i = fmlookup (pg_blocks p) i) \<and>
    (\<forall>i b. fmlookup (pg_blocks p') i = Some b \<longrightarrow> fmlookup (pg_blocks p) i = Some b) \<and>
    (\<forall>c. pg_cap p = Some c \<longrightarrow>
       held p' + incoming \<le> max c 1 \<or> fmdom (pg_blocks p') |\<subseteq>| pg_dirty p) \<and>
    (\<forall>i j b c. fmlookup (pg_blocks p) i = Some b \<and> fmlookup (pg_blocks p') i = None \<and>
       fmlookup (pg_blocks p') j = Some c \<and> j |\<notin>| pg_dirty p \<longrightarrow> blk_used b \<le> blk_used c) \<and>
    evicted_blocks st' = evicted_blocks st + (held p - held p')"
proof (intro conjI)
  show "\<forall>i. i |\<in>| pg_dirty p \<longrightarrow> fmlookup (pg_blocks p') i = fmlookup (pg_blocks p) i"
    using make_room_lookup [OF assms] by blast
  show "\<forall>i b. fmlookup (pg_blocks p') i = Some b \<longrightarrow> fmlookup (pg_blocks p) i = Some b"
    using make_room_lookup [OF assms] by (metis option.distinct(1))
  show "\<forall>c. pg_cap p = Some c \<longrightarrow>
       held p' + incoming \<le> max c 1 \<or> fmdom (pg_blocks p') |\<subseteq>| pg_dirty p"
    using make_room_fits [OF assms] by blast
  show "\<forall>i j b c. fmlookup (pg_blocks p) i = Some b \<and> fmlookup (pg_blocks p') i = None \<and>
       fmlookup (pg_blocks p') j = Some c \<and> j |\<notin>| pg_dirty p \<longrightarrow> blk_used b \<le> blk_used c"
    using make_room_oldest [OF assms] by blast
  show "evicted_blocks st' = evicted_blocks st + (held p - held p')"
    using held_make_room [OF assms] by simp
qed

theorem make_room_spec_witness:
  "case make_room (keep (keep ((pages_new 2 4 (Some 1) (Some 1))\<lparr>pg_dirty := {|1|}\<rparr>) 0 [1, 2]) 1 [3, 4]) 1 default_stats of
     (p, st) \<Rightarrow> (held p + 1 \<le> 1 \<or> fmdom (pg_blocks p) |\<subseteq>| {|1|}) \<and> fmlookup (pg_blocks p) 1 \<noteq> None"
  using make_room_spec [of "keep (keep ((pages_new 2 4 (Some 1) (Some 1))\<lparr>pg_dirty := {|1|}\<rparr>) 0 [1, 2]) 1 [3, 4]" 1 default_stats]
  by (auto simp: keep_def tick_def pages_new_def split: prod.split)

subsection \<open>Sources of blocks\<close>

text \<open>What every operation of the block store leaves alone unless it says so.\<close>

definition same_shape :: "pages \<Rightarrow> pages \<Rightarrow> bool" where
  "same_shape p q \<longleftrightarrow> pg_page_size q = pg_page_size p \<and> pg_page_count q = pg_page_count p \<and>
     pg_stable_page_count q = pg_stable_page_count p \<and> pg_dirty q = pg_dirty p \<and>
     pg_size_changed q = pg_size_changed p \<and> pg_blocks_per_fetch q = pg_blocks_per_fetch p \<and>
     pg_cap q = pg_cap p"

lemma same_shape_refl [simp]: "same_shape p p"
  by (simp add: same_shape_def)

lemma same_shape_trans: "same_shape p q \<Longrightarrow> same_shape q r \<Longrightarrow> same_shape p r"
  by (simp add: same_shape_def)

lemma same_shapeD:
  assumes "same_shape p q"
  shows "pg_page_size q = pg_page_size p" "pg_page_count q = pg_page_count p"
    "pg_stable_page_count q = pg_stable_page_count p" "pg_dirty q = pg_dirty p"
    "pg_size_changed q = pg_size_changed p" "pg_blocks_per_fetch q = pg_blocks_per_fetch p"
    "pg_cap q = pg_cap p"
  using assms by (simp_all add: same_shape_def)

lemma same_shape_touch: "same_shape p (touch p i)"
  and same_shape_keep: "same_shape p (keep p i d)"
  by (simp_all add: same_shape_def frame_simps)

lemma same_shape_make_room: "make_room p k st = (p', st') \<Longrightarrow> same_shape p p'"
  by (simp add: same_shape_def make_room_frame)

text \<open>
  \<open>loads first count p q\<close>: \<open>q\<close> is \<open>p\<close> with blocks of the range added.  Blocks in memory are as
  they were, and every new block has the page size.
\<close>

definition loads :: "nat \<Rightarrow> nat \<Rightarrow> pages \<Rightarrow> pages \<Rightarrow> bool" where
  "loads first count p q \<longleftrightarrow> same_shape p q \<and> pg_clock p \<le> pg_clock q \<and>
     (\<forall>i b. fmlookup (pg_blocks p) i = Some b \<longrightarrow> fmlookup (pg_blocks q) i = Some b) \<and>
     (\<forall>i b. fmlookup (pg_blocks q) i = Some b \<longrightarrow> fmlookup (pg_blocks p) i = Some b \<or>
        first \<le> i \<and> i < first + count \<and> length (blk_data b) = pg_page_size p \<and>
        blk_used b \<le> pg_clock q)"

lemma loads_refl [simp]: "loads first count p p"
  by (simp add: loads_def)

lemma loads_trans:
  assumes "loads f n p q" and "loads f n q r"
  shows "loads f n p r"
  unfolding loads_def
proof (intro conjI allI impI)
  show "same_shape p r" "pg_clock p \<le> pg_clock r"
    using assms same_shape_trans [of p q r] by (auto simp: loads_def)
  show "fmlookup (pg_blocks r) i = Some b" if "fmlookup (pg_blocks p) i = Some b" for i b
    using assms that by (simp add: loads_def)
  show "fmlookup (pg_blocks p) i = Some b \<or> f \<le> i \<and> i < f + n \<and>
      length (blk_data b) = pg_page_size p \<and> blk_used b \<le> pg_clock r"
    if "fmlookup (pg_blocks r) i = Some b" for i b
    using assms that same_shapeD(1) [of p q] unfolding loads_def by (metis le_trans)
qed

lemma loads_mono: "loads f n p q \<Longrightarrow> f' \<le> f \<Longrightarrow> f + n \<le> f' + n' \<Longrightarrow> loads f' n' p q"
  unfolding loads_def by (meson le_trans less_le_trans)

lemma loads_keep:
  "f \<le> i \<Longrightarrow> i < f + n \<Longrightarrow> length d = pg_page_size p \<Longrightarrow> loads f n p (keep p i d)"
  by (auto simp: loads_def same_shape_keep keep_lookup frame_simps)

lemma loads_keep_all:
  "\<forall>d \<in> set ds. length d = pg_page_size p \<Longrightarrow> loads first (length ds) p (keep_all p first ds)"
proof (induction ds arbitrary: p first)
  case (Cons d ds)
  have "loads first (length (d # ds)) p (keep p first d)"
    using Cons.prems by (intro loads_keep) simp_all
  moreover have "loads first (length (d # ds)) (keep p first d) (keep_all (keep p first d) (first + 1) ds)"
    using Cons.IH [of "keep p first d" "first + 1"] Cons.prems
    by (auto simp: frame_simps intro: loads_mono)
  ultimately show ?case by (auto intro: loads_trans)
qed simp

lemma block_at_keep: "block_at (keep p i d) j = (if j = i \<and> block_at p i = None then Some d else block_at p j)"
  by (auto simp: block_at_def keep_lookup)

lemma block_at_keep_all:
  "block_at (keep_all p first ds) i =
     (if block_at p i = None \<and> first \<le> i \<and> i < first + length ds then Some (ds ! (i - first))
      else block_at p i)"
proof (induction ds arbitrary: p first)
  case (Cons d ds)
  then show ?case
    by (cases "i = first") (auto simp: block_at_keep nth_Cons' Suc_le_eq)
qed simp

lemma pages_wf_loads:
  assumes "pages_wf p" and "loads f n p q"
  shows "pages_wf q"
proof -
  have old: "fmlookup (pg_blocks p) i = Some b \<Longrightarrow> fmlookup (pg_blocks q) i = Some b" for i b
    using assms(2) by (simp add: loads_def)
  have shape: "same_shape p q" and clock: "pg_clock p \<le> pg_clock q"
    using assms(2) by (simp_all add: loads_def)
  have "length (blk_data b) = pg_page_size p \<and> blk_used b \<le> pg_clock q"
    if "fmlookup (pg_blocks q) i = Some b" for i b
    using assms that pages_wfD [OF assms(1)] clock unfolding loads_def
    by (meson le_trans less_le_trans)
  moreover have "pg_dirty p |\<subseteq>| fmdom (pg_blocks q)"
    using assms(1) old by (auto simp: pages_wf_def fmlookup_dom_iff fsubset_eq)
  ultimately show ?thesis
    using pages_wfD(1,5) [OF assms(1)] by (auto simp: pages_wf_def fmpred_iff same_shapeD [OF shape])
qed

lemma missing_run_bound:
  "index < pg_page_count p \<Longrightarrow> index + missing_run p index n \<le> pg_page_count p"
proof -
  assume "index < pg_page_count p"
  moreover have "missing_run p index n \<le> length [index..<pg_page_count p]"
    unfolding missing_run_def by (rule le_trans [OF length_takeWhile_le]) simp
  ultimately show ?thesis by simp
qed

text \<open>One turn of each loop, as a case distinction.\<close>

lemma page_piece:
  fixes ps k len pos :: nat
  assumes "0 < ps" and "k < len"
  obtains n where "n = min (ps - pos mod ps) (len - k)" "0 < n" "k + n \<le> len" "pos mod ps + n \<le> ps"
proof
  show "0 < min (ps - pos mod ps) (len - k)" "k + min (ps - pos mod ps) (len - k) \<le> len"
    using page_progress [OF assms] by blast+
  have "pos mod ps < ps" using assms by simp
  then show "pos mod ps + min (ps - pos mod ps) (len - k) \<le> ps" by linarith
qed simp

lemma read_loop_stop:
  "length buf \<le> k \<Longrightarrow>
     read_loop fill ps s p buf off k st = (Ok True, buf, s, p, st\<lparr>held_blocks := held p\<rparr>)"
  by (subst read_loop.simps) simp

lemma read_loop_eof:
  "k < length buf \<Longrightarrow> 0 < ps \<Longrightarrow> pg_page_count p \<le> (off + k) div ps \<Longrightarrow>
     read_loop fill ps s p buf off k st =
       (Ok False, take k buf @ zeros (length buf - k), s, p, st)"
  by (subst read_loop.simps) (simp add: Let_def)

lemma read_loop_fail:
  "k < length buf \<Longrightarrow> 0 < ps \<Longrightarrow> (off + k) div ps < pg_page_count p \<Longrightarrow>
     ensure_loaded fill s p ((off + k) div ps) st = (q, s1, p1, st1) \<Longrightarrow> \<not> is_ok q \<Longrightarrow>
     read_loop fill ps s p buf off k st = (map_ok (\<lambda>_. False) q, buf, s1, p1, st1)"
  by (subst read_loop.simps) (cases q; simp add: Let_def)

lemma read_loop_more:
  "k < length buf \<Longrightarrow> 0 < ps \<Longrightarrow> (off + k) div ps < pg_page_count p \<Longrightarrow>
     ensure_loaded fill s p ((off + k) div ps) st = (Ok (), s1, p1, st1) \<Longrightarrow>
     n = min (ps - (off + k) mod ps) (length buf - k) \<Longrightarrow>
     read_loop fill ps s p buf off k st =
       (case fmlookup (pg_blocks p1) ((off + k) div ps) of
          Some b \<Rightarrow>
            if (off + k) mod ps + n \<le> length (blk_data b)
            then read_loop fill ps s1 p1
                   (overwrite buf k (sub_slice (blk_data b) ((off + k) mod ps) n)) off (k + n) st1
            else (Panic, buf, s1, p1, st1)
        | None \<Rightarrow> read_loop fill ps s1 p1 (overwrite buf k (zeros n)) off (k + n) st1)"
  by (hypsubst, subst read_loop.simps) (simp add: Let_def)

lemma read_loop_cases:
  assumes "read_loop fill ps s p buf off k st = (r, buf', s', p', st')" and "0 < ps"
  obtains
    (stop) "length buf \<le> k" "r = Ok True" "buf' = buf" "s' = s" "p' = p"
  | (eof) "k < length buf" "pg_page_count p \<le> (off + k) div ps" "r = Ok False"
      "buf' = take k buf @ zeros (length buf - k)" "s' = s" "p' = p"
  | (fail) q where "k < length buf" "(off + k) div ps < pg_page_count p"
      "ensure_loaded fill s p ((off + k) div ps) st = (q, s', p', st')" "\<not> is_ok q"
      "r = map_ok (\<lambda>_. False) q" "buf' = buf"
  | (short) s1 p1 st1 b where "k < length buf" "(off + k) div ps < pg_page_count p"
      "ensure_loaded fill s p ((off + k) div ps) st = (Ok (), s1, p1, st1)"
      "fmlookup (pg_blocks p1) ((off + k) div ps) = Some b" "length (blk_data b) < ps"
  | (more) n s1 p1 st1 xs where "k < length buf" "(off + k) div ps < pg_page_count p"
      "0 < n" "k + n \<le> length buf" "(off + k) mod ps + n \<le> ps"
      "ensure_loaded fill s p ((off + k) div ps) st = (Ok (), s1, p1, st1)"
      "xs = (case fmlookup (pg_blocks p1) ((off + k) div ps) of
         Some b \<Rightarrow> sub_slice (blk_data b) ((off + k) mod ps) n | None \<Rightarrow> zeros n)"
      "read_loop fill ps s1 p1 (overwrite buf k xs) off (k + n) st1 = (r, buf', s', p', st')"
proof (cases "k < length buf")
  case False
  then show ?thesis
    using assms(1) read_loop_stop [of buf k fill ps s p off st] by (intro stop) auto
next
  case len: True
  obtain n where n: "n = min (ps - (off + k) mod ps) (length buf - k)" "0 < n"
    "k + n \<le> length buf" "(off + k) mod ps + n \<le> ps"
    using page_piece [OF assms(2) len] .
  show ?thesis
  proof (cases "(off + k) div ps < pg_page_count p")
    case False
    then show ?thesis
      using assms(1) read_loop_eof [OF len assms(2), of p off fill s st] len by (intro eof) auto
  next
    case idx: True
    obtain q s1 p1 st1 where el: "ensure_loaded fill s p ((off + k) div ps) st = (q, s1, p1, st1)"
      by (metis prod.exhaust)
    show ?thesis
    proof (cases "is_ok q")
      case False
      then show ?thesis
        using assms(1) read_loop_fail [OF len assms(2) idx el] len idx el by (intro fail) auto
    next
      case True
      then have q: "ensure_loaded fill s p ((off + k) div ps) st = (Ok (), s1, p1, st1)"
        using el by (cases q) auto
      note step = read_loop_more [OF len assms(2) idx q n(1)]
      show ?thesis
      proof (cases "fmlookup (pg_blocks p1) ((off + k) div ps)")
        case None
        then show ?thesis
          using assms(1) step more [OF len idx n(2-4) q refl] by simp
      next
        case (Some b)
        show ?thesis
        proof (cases "(off + k) mod ps + n \<le> length (blk_data b)")
          case True
          then show ?thesis
            using assms(1) step Some more [OF len idx n(2-4) q refl] by simp
        next
          case False
          then show ?thesis
            using short [OF len idx q Some] n(4) by linarith
        qed
      qed
    qed
  qed
qed

lemma write_loop_stop:
  "length d \<le> k \<Longrightarrow>
     write_loop fill ps s p d off k st = (Ok (), s, p, st\<lparr>held_blocks := held p\<rparr>)"
  by (subst write_loop.simps) simp

lemma write_loop_more:
  "k < length d \<Longrightarrow> 0 < ps \<Longrightarrow> n = min (ps - (off + k) mod ps) (length d - k) \<Longrightarrow>
     (if n < ps \<and> (off + k) div ps < pg_page_count p
      then ensure_loaded fill s p ((off + k) div ps) st else (Ok (), s, p, st)) = (q, s1, p1, st1) \<Longrightarrow>
     write_loop fill ps s p d off k st =
       (case q of
          Ok _ \<Rightarrow>
            (case write_block p1 ps ((off + k) div ps) ((off + k) mod ps) (sub_slice d k n) of
               Ok p2 \<Rightarrow> write_loop fill ps s1 p2 d off (k + n) st1
             | Err e \<Rightarrow> (Err e, s1, p1, st1) | Panic \<Rightarrow> (Panic, s1, p1, st1) | Hang \<Rightarrow> (Hang, s1, p1, st1))
        | Err e \<Rightarrow> (Err e, s1, p1, st1) | Panic \<Rightarrow> (Panic, s1, p1, st1) | Hang \<Rightarrow> (Hang, s1, p1, st1))"
  by (hypsubst, subst write_loop.simps) (simp add: Let_def split: res.split)

text \<open>Writing into one block of a well-formed store does not panic.\<close>

lemma write_block_ok:
  assumes "pages_wf p" and "ps = pg_page_size p" and "within + length xs \<le> ps"
  obtains q where "write_block p ps i within xs = Ok q" and "pages_wf q"
    and "pg_page_size q = ps" and "pg_page_count q = max (pg_page_count p) (i + 1)"
    and "pg_dirty q = finsert i (pg_dirty p)"
    and "pg_stable_page_count q = pg_stable_page_count p"
    and "pg_blocks_per_fetch q = pg_blocks_per_fetch p" and "pg_cap q = pg_cap p"
    and "\<And>j. block_at q j = (if j = i then Some (overwrite
           (case block_at p i of Some b \<Rightarrow> b | None \<Rightarrow> zeros ps) within xs) else block_at p j)"
proof -
  let ?old = "case fmlookup (pg_blocks p) i of Some b \<Rightarrow> b
      | None \<Rightarrow> \<lparr>blk_data = zeros ps, blk_used = pg_clock p + 1\<rparr>"
  let ?b = "\<lparr>blk_data = overwrite (blk_data ?old) within xs, blk_used = pg_clock p + 1\<rparr>"
  let ?p1 = "p\<lparr>pg_clock := pg_clock p + 1, pg_blocks := fmupd i ?b (pg_blocks p),
      pg_dirty := finsert i (pg_dirty p)\<rparr>"
  let ?q = "if pg_page_count p \<le> i
      then ?p1\<lparr>pg_page_count := i + 1, pg_size_changed := True\<rparr> else ?p1"
  have len: "length (blk_data ?old) = ps"
    using assms(1,2) pages_wfD(2) by (auto split: option.split)
  then have wb: "write_block p ps i within xs = Ok ?q"
    using assms(3)
    by (cases "fmlookup (pg_blocks p) i") (simp_all add: write_block_def Let_def)
  have "length (overwrite (blk_data ?old) within xs) = ps"
    using len assms(3) by simp
  then have "pages_wf ?q"
    using assms(1,2)
    by (auto simp: pages_wf_def fmpred_iff fsubset_eq le_SucI less_SucI)
  have data: "block_at ?q j = (if j = i then Some (overwrite
           (case block_at p i of Some b \<Rightarrow> b | None \<Rightarrow> zeros ps) within xs) else block_at p j)" for j
    by (auto simp: block_at_def split: option.split)
  show thesis
    using assms(2) by (intro that [OF wb \<open>pages_wf ?q\<close> _ _ _ _ _ _ data]) (auto simp: max_def)
qed

text \<open>The dirty blocks are all in memory.\<close>

lemma dirty_blocks_ok:
  assumes "pages_wf p"
  obtains blocks where "dirty_blocks p = Ok blocks" and "distinct (map fst blocks)"
    and "\<forall>i. map_of blocks i = (if i |\<in>| pg_dirty p then block_at p i else None)"
    and "set (map fst blocks) = fset (pg_dirty p)"
proof
  let ?is = "sorted_list_of_fset (pg_dirty p)"
  let ?blocks = "map (\<lambda>i. (i, blk_data (the (fmlookup (pg_blocks p) i)))) ?is"
  have set: "set ?is = fset (pg_dirty p)" and dist: "distinct ?is"
    by (simp_all add: sorted_list_of_fset.rep_eq)
  have there: "\<And>i. i |\<in>| pg_dirty p \<Longrightarrow> fmlookup (pg_blocks p) i \<noteq> None"
    using pages_wfD(4) [OF assms] by auto
  show "dirty_blocks p = Ok ?blocks"
    using there set by (auto simp: dirty_blocks_def list_all_iff)
  show "distinct (map fst ?blocks)" "set (map fst ?blocks) = fset (pg_dirty p)"
    using dist set by (simp_all add: comp_def)
  show "\<forall>i. map_of ?blocks i = (if i |\<in>| pg_dirty p then block_at p i else None)"
    using there set by (force simp: map_of_map_restrict restrict_map_def block_at_def)
qed

end
