(* ===== verification/Page_Source.thy ===== *)
theory Page_Source
  imports Pages
begin

text \<open>
  The interface between the block store and the places its blocks come from (trait \<open>Source\<close> of
  \<open>pages.rs\<close>), as two locales.  \<open>page_source\<close> is the law every source keeps, whatever the other side
  sends: it adds blocks of the requested range and does not panic.  \<open>page_source_exact\<close> adds that
  the blocks are those of a stored file.  Under the first, reading and writing keep the block
  store well-formed; under the second, they read and write a plain file of bytes.
\<close>

subsection \<open>One turn of the write loop\<close>

lemma write_loop_cases:
  assumes "write_loop fill ps s p d off k st = (r, s', p', st')" and "0 < ps"
  obtains
    (stop) "length d \<le> k" "r = Ok ()" "s' = s" "p' = p"
  | (fail) q where "k < length d" "(off + k) div ps < pg_page_count p"
      "ensure_loaded fill s p ((off + k) div ps) st = (q, s', p', st')" "\<not> is_ok q" "r = q"
  | (more) n s1 p1 st1 where "k < length d" "0 < n" "k + n \<le> length d"
      "(off + k) mod ps + n \<le> ps"
      "(if n < ps \<and> (off + k) div ps < pg_page_count p
        then ensure_loaded fill s p ((off + k) div ps) st else (Ok (), s, p, st)) = (Ok (), s1, p1, st1)"
      "(case write_block p1 ps ((off + k) div ps) ((off + k) mod ps) (sub_slice d k n) of
          Ok p2 \<Rightarrow> write_loop fill ps s1 p2 d off (k + n) st1
        | Err e \<Rightarrow> (Err e, s1, p1, st1) | Panic \<Rightarrow> (Panic, s1, p1, st1) | Hang \<Rightarrow> (Hang, s1, p1, st1)) =
        (r, s', p', st')"
proof (cases "k < length d")
  case False
  then show ?thesis
    using assms(1) write_loop_stop [of d k fill ps s p off st] by (intro stop) auto
next
  case len: True
  obtain n where n: "n = min (ps - (off + k) mod ps) (length d - k)" "0 < n"
    "k + n \<le> length d" "(off + k) mod ps + n \<le> ps"
    using page_piece [OF assms(2) len] .
  let ?load = "if n < ps \<and> (off + k) div ps < pg_page_count p
    then ensure_loaded fill s p ((off + k) div ps) st else (Ok (), s, p, st)"
  obtain q s1 p1 st1 where el: "?load = (q, s1, p1, st1)"
    by (metis prod.exhaust)
  note step = write_loop_more [OF len assms(2) n(1) el]
  show ?thesis
  proof (cases "is_ok q")
    case True
    then have q: "?load = (Ok (), s1, p1, st1)"
      using el by (cases q) auto
    show ?thesis
      by (rule more [OF len n(2-4) q])
        (use assms(1) write_loop_more [OF len assms(2) n(1) q] in simp)
  next
    case False
    then have "q = r" "s1 = s'" "p1 = p'" "st1 = st'"
      using assms(1) step by (cases q; simp)+
    then show ?thesis
      using el False len by (intro fail) (auto split: if_splits)
  qed
qed

text \<open>What a write leaves alone, whether it succeeds or not.\<close>

definition grown :: "pages \<Rightarrow> pages \<Rightarrow> bool" where
  "grown p q \<longleftrightarrow> pg_page_size q = pg_page_size p \<and> pg_page_count p \<le> pg_page_count q \<and>
     pg_stable_page_count q = pg_stable_page_count p \<and> pg_dirty p |\<subseteq>| pg_dirty q \<and>
     pg_blocks_per_fetch q = pg_blocks_per_fetch p \<and> pg_cap q = pg_cap p"

lemma grown_refl [simp]: "grown p p"
  by (simp add: grown_def)

lemma grown_trans: "grown p q \<Longrightarrow> grown q r \<Longrightarrow> grown p r"
  by (auto simp: grown_def)

lemma same_shape_grown: "same_shape p q \<Longrightarrow> grown p q"
  by (simp add: same_shape_def grown_def)

lemma write_block_grown:
  assumes "pages_wf p" and "ps = pg_page_size p" and "within + length xs \<le> ps"
  obtains q where "write_block p ps i within xs = Ok q" "pages_wf q" "pg_page_size q = ps" "grown p q"
proof (rule write_block_ok [OF assms, of i])
  fix q
  assume "write_block p ps i within xs = Ok q" "pages_wf q" "pg_page_size q = ps"
    "pg_page_count q = max (pg_page_count p) (i + 1)" "pg_dirty q = finsert i (pg_dirty p)"
    "pg_stable_page_count q = pg_stable_page_count p"
    "pg_blocks_per_fetch q = pg_blocks_per_fetch p" "pg_cap q = pg_cap p"
  then show thesis
    using assms(2) by (intro that [of q]) (auto simp: grown_def)
qed

subsection \<open>Every source\<close>

text \<open>\<open>good\<close> is the source's own invariant for the given page size.\<close>

locale page_source =
  fixes fill :: "'s fill" and good :: "nat \<Rightarrow> 's \<Rightarrow> bool"
  assumes fill_loads: "\<lbrakk>good (pg_page_size p) s; pages_wf p; 0 < count;
      first + count \<le> pg_page_count p; fill s p first count st = (r, s', p', st')\<rbrakk> \<Longrightarrow>
      r \<noteq> Panic \<and> good (pg_page_size p) s' \<and> loads first count p p'"
begin

lemma ensure_loaded_safe:
  assumes "good (pg_page_size p) s" and "pages_wf p" and "index < pg_page_count p"
    and "ensure_loaded fill s p index st = (r, s', p', st')"
  shows "r \<noteq> Panic \<and> good (pg_page_size p) s' \<and> pages_wf p' \<and> same_shape p p'"
proof -
  let ?n = "missing_run p index (case pg_blocks_per_fetch p of Some n \<Rightarrow> n | None \<Rightarrow> REFILL_BLOCKS)"
  obtain q t where mr: "make_room p ?n st = (q, t)"
    by (cases "make_room p ?n st")
  have q: "pages_wf q" "same_shape p q"
    using assms(2) mr by (blast intro: pages_wf_make_room same_shape_make_room)+
  have "r \<noteq> Panic \<and> good (pg_page_size q) s' \<and> loads index ?n q p'"
    if "fill s q index ?n t = (r, s', p', st')" "0 < ?n"
    using fill_loads [OF _ q(1) that(2) _ that(1)] assms(1,3) missing_run_bound [OF assms(3)]
    by (simp add: same_shapeD [OF q(2)])
  moreover have "pages_wf p' \<and> same_shape p p'" if "loads index ?n q p'"
    using pages_wf_loads [OF q(1) that] missing_run_bound [OF assms(3)] same_shapeD [OF q(2)]
      that q(2) by (auto simp: loads_def intro: same_shape_trans)
  ultimately show ?thesis
    using assms mr pages_wf_touch [of p index] same_shape_touch [of p index]
      same_shapeD(1) [OF q(2)]
    by (auto simp: ensure_loaded_def Let_def split: if_splits)
qed

lemma read_loop_safe:
  assumes "read_loop fill ps s p buf off k st = (r, buf', s', p', st')"
    and "good ps s" and "pages_wf p" and "ps = pg_page_size p" and "k \<le> length buf"
  shows "r \<noteq> Panic \<and> good ps s' \<and> pages_wf p' \<and> same_shape p p' \<and> length buf' = length buf"
  using assms
proof (induction "length buf - k" arbitrary: s p buf k st rule: less_induct)
  case less
  have ps: "0 < ps"
    using less.prems pages_wfD(1) by simp
  from less.prems(1) ps show ?case
  proof (cases rule: read_loop_cases)
    case (fail q)
    then show ?thesis
      using ensure_loaded_safe [of p s "(off + k) div ps" st q s' p' st'] less.prems
      by (cases q) auto
  next
    case (short s1 p1 st1 b)
    then have "pages_wf p1" "pg_page_size p1 = ps"
      using ensure_loaded_safe [of p s] less.prems same_shapeD(1) [of p p1] by auto
    then show ?thesis
      using pages_wfD(2) [of p1] short(4,5) by simp
  next
    case (more n s1 p1 st1 xs)
    then have s1: "good ps s1" "pages_wf p1" "same_shape p p1" "pg_page_size p1 = ps"
      using ensure_loaded_safe [of p s] less.prems same_shapeD(1) [of p p1] by auto
    have "length xs = n"
      using more(5,7) pages_wfD(2) [OF s1(2)] s1(4) by (auto split: option.splits)
    then have "length (overwrite buf k xs) = length buf"
      using more(4) by simp
    then have "r \<noteq> Panic \<and> good ps s' \<and> pages_wf p' \<and> same_shape p1 p' \<and>
        length buf' = length (overwrite buf k xs)"
      by (intro less.hyps [OF _ more(8) s1(1,2) s1(4) [symmetric]]) (use more(1,3,4) in simp_all)
    then show ?thesis
      using \<open>length (overwrite buf k xs) = length buf\<close> same_shape_trans [OF s1(3)] by simp
  next
    case stop
    then show ?thesis using less.prems(2,3) by simp
  next
    case eof
    then show ?thesis using less.prems(2,3) by simp
  qed
qed

lemma write_loop_safe:
  assumes "write_loop fill ps s p d off k st = (r, s', p', st')"
    and "good ps s" and "pages_wf p" and "ps = pg_page_size p"
  shows "r \<noteq> Panic \<and> good ps s' \<and> pages_wf p' \<and> grown p p'"
  using assms
proof (induction "length d - k" arbitrary: s p k st rule: less_induct)
  case less
  have ps: "0 < ps"
    using less.prems pages_wfD(1) by simp
  from less.prems(1) ps show ?case
  proof (cases rule: write_loop_cases)
    case stop
    then show ?thesis using less.prems by simp
  next
    case (fail q)
    then show ?thesis
      using ensure_loaded_safe [of p s "(off + k) div ps" st q s' p' st'] less.prems
      by (auto intro: same_shape_grown)
  next
    case (more n s1 p1 st1)
    have s1: "good ps s1" "pages_wf p1" "same_shape p p1"
      using ensure_loaded_safe [of p s "(off + k) div ps" st "Ok ()" s1 p1 st1] more(5) less.prems
      by (auto split: if_splits)
    then have "ps = pg_page_size p1"
      using less.prems(4) same_shapeD(1) by simp
    then obtain p2 where p2: "write_block p1 ps ((off + k) div ps) ((off + k) mod ps)
        (sub_slice d k n) = Ok p2" "pages_wf p2" "pg_page_size p2 = ps" "grown p1 p2"
      by (rule write_block_grown [OF s1(2), of ps "(off + k) mod ps" "sub_slice d k n" "(off + k) div ps"])
        (use more(3,4) in auto)
    have "r \<noteq> Panic \<and> good ps s' \<and> pages_wf p' \<and> grown p2 p'"
      by (rule less.hyps [OF _ _ s1(1) p2(2) p2(3) [symmetric], of "k + n" st1])
        (use more(1-3,6) p2(1) in simp_all)
    then show ?thesis
      using p2(4) s1(3) by (blast intro: grown_trans same_shape_grown)
  qed
qed

end

subsection \<open>The file a block store holds\<close>

text \<open>
  \<open>view src p i\<close> is the content of block \<open>i\<close>: the block in memory, or the source's block.  A store
  that neither loads on demand nor evicts never asks its source, so a block missing there is zero.
\<close>

definition asks_source :: "pages \<Rightarrow> bool" where
  "asks_source p \<longleftrightarrow> \<not> (pg_blocks_per_fetch p = None \<and> pg_cap p = None)"

definition view :: "(nat \<Rightarrow> bytes) \<Rightarrow> pages \<Rightarrow> nat \<Rightarrow> bytes" where
  "view src p i =
     (case block_at p i of
        Some d \<Rightarrow> d
      | None \<Rightarrow> if asks_source p then src i else zeros (pg_page_size p))"

text \<open>
  The blocks in memory lie inside the file, those not modified are the source's, and the number of
  blocks is one the source can be asked for.
\<close>

definition agrees :: "(nat \<Rightarrow> bytes) \<Rightarrow> pages \<Rightarrow> bool" where
  "agrees src p \<longleftrightarrow> pg_page_count p \<le> U64 \<and>
     (\<forall>i b. fmlookup (pg_blocks p) i = Some b \<longrightarrow> i < pg_page_count p \<and>
        (i |\<notin>| pg_dirty p \<longrightarrow> blk_data b = src i))"

definition file_byte :: "(nat \<Rightarrow> bytes) \<Rightarrow> pages \<Rightarrow> nat \<Rightarrow> byte" where
  "file_byte src p x =
     (if x < pages_file_size p
      then view src p (x div pg_page_size p) ! (x mod pg_page_size p) else 0)"

definition file_of :: "(nat \<Rightarrow> bytes) \<Rightarrow> pages \<Rightarrow> bytes" where
  "file_of src p = map (file_byte src p) [0..<pages_file_size p]"

lemma length_file_of [simp]: "length (file_of src p) = pages_file_size p"
  by (simp add: file_of_def)

lemma nth_file_of [simp]: "x < pages_file_size p \<Longrightarrow> file_of src p ! x = file_byte src p x"
  by (simp add: file_of_def)

lemma div_less_iff: "0 < ps \<Longrightarrow> x div ps < n \<longleftrightarrow> x < n * ps" for ps x n :: nat
  by (metis div_less_iff_less_mult)

lemma slice_zeros: "k + n \<le> m \<Longrightarrow> sub_slice (zeros m) k n = zeros n"
  by (simp add: sub_slice_def zeros_def)

lemma no_hole:
  "0 < pg_page_size p \<Longrightarrow> off \<le> pages_file_size p \<Longrightarrow> off div pg_page_size p \<le> pg_page_count p"
  by (metis div_le_mono nonzero_mult_div_cancel_right not_less0 pages_file_size_def)

lemma within_page:
  assumes "(0::nat) < ps" and "x mod ps + j < ps"
  shows "(x + j) div ps = x div ps" and "(x + j) mod ps = x mod ps + j"
proof -
  have "x + j = (x mod ps + j) + x div ps * ps"
    using mod_div_mult_eq [of x ps] by simp
  then show "(x + j) div ps = x div ps" "(x + j) mod ps = x mod ps + j"
    using assms by (metis add.commute div_less div_mult_self3 add.left_neutral not_less0)
      (metis \<open>x + j = (x mod ps + j) + x div ps * ps\<close> assms(2) mod_less mod_mult_self1)
qed

lemma view_piece:
  assumes "0 < pg_page_size p" and "x div pg_page_size p < pg_page_count p"
    and "x mod pg_page_size p + n \<le> pg_page_size p"
    and "length (view src p (x div pg_page_size p)) = pg_page_size p"
  shows "sub_slice (view src p (x div pg_page_size p)) (x mod pg_page_size p) n =
    map (file_byte src p) [x..<x + n]"
proof (rule nth_equalityI)
  fix j assume "j < length (sub_slice (view src p (x div pg_page_size p)) (x mod pg_page_size p) n)"
  then have j: "j < n" "x mod pg_page_size p + j < pg_page_size p"
    using assms by simp_all
  then have "x + j < pages_file_size p"
    using within_page(1) [OF assms(1) j(2)] assms(1,2)
    by (metis div_less_iff pages_file_size_def)
  then show "sub_slice (view src p (x div pg_page_size p)) (x mod pg_page_size p) n ! j =
      map (file_byte src p) [x..<x + n] ! j"
    using j assms within_page [OF assms(1) j(2)] by (simp add: file_byte_def nth_slice)
qed (use assms in simp)

lemma past_end_piece:
  assumes "0 < pg_page_size p" and "pg_page_count p \<le> x div pg_page_size p"
  shows "map (file_byte src p) [x..<x + n] = zeros n"
proof (rule nth_equalityI)
  fix j assume "j < length (map (file_byte src p) [x..<x + n])"
  moreover have "pages_file_size p \<le> x"
    using assms by (metis div_less_iff not_less pages_file_size_def)
  ultimately show "map (file_byte src p) [x..<x + n] ! j = zeros n ! j"
    by (simp add: file_byte_def)
qed simp

lemma agreesD:
  assumes "agrees src p" and "fmlookup (pg_blocks p) i = Some b"
  shows "i |\<notin>| pg_dirty p \<Longrightarrow> blk_data b = src i" and "i < pg_page_count p"
  using assms by (simp_all add: agrees_def)

lemma agrees_count: "agrees src p \<Longrightarrow> pg_page_count p \<le> U64"
  by (simp add: agrees_def)

lemma asks_source_touch [simp]: "asks_source (touch p i) = asks_source p"
  by (simp add: asks_source_def frame_simps)

lemma view_touch [simp]: "view src (touch p i) = view src p"
  by (simp add: view_def fun_eq_iff frame_simps split: option.split)

lemma agrees_touch: "agrees src p \<Longrightarrow> agrees src (touch p i)"
  by (auto simp: agrees_def touch_lookup frame_simps split: if_splits)

lemma view_make_room:
  assumes "agrees src p" and "make_room p n st = (p', st')" and "asks_source p"
  shows "agrees src p' \<and> view src p' = view src p"
proof
  show "agrees src p'"
    using assms(1) make_room_lookup [OF assms(2)] make_room_frame [OF assms(2)]
    unfolding agrees_def by (metis option.distinct(1))
  have "asks_source p'"
    using assms(3) make_room_frame [OF assms(2)] by (simp add: asks_source_def)
  then show "view src p' = view src p"
  proof (intro ext)
    fix i
    have "blk_data b = src i"
      if "fmlookup (pg_blocks p') i = None" "fmlookup (pg_blocks p) i = Some b" for b
      using make_room_lookup [OF assms(2), of i] that agreesD [OF assms(1)] by auto
    then show "view src p' i = view src p i"
      using make_room_lookup [OF assms(2), of i] \<open>asks_source p'\<close> assms(3)
      by (auto simp: view_def block_at_def split: option.splits)
  qed
qed

lemma missing_run_pos:
  assumes "index < pg_page_count p" "0 < n" "fmlookup (pg_blocks p) index = None"
    "index |\<notin>| pg_dirty p"
  shows "0 < missing_run p index n"
proof -
  obtain m where "n = Suc m" using assms(2) by (cases n) auto
  then show ?thesis
    using assms by (simp add: missing_run_def upt_conv_Cons)
qed

lemma missing_run_absent:
  assumes "index \<le> i" and "i < index + missing_run p index n"
  shows "fmlookup (pg_blocks p) i = None"
proof -
  let ?P = "\<lambda>i. fmlookup (pg_blocks p) i = None \<and> i |\<notin>| pg_dirty p"
  define xs where "xs = take n [index..<pg_page_count p]"
  define k where "k = i - index"
  have k: "k < length (takeWhile ?P xs)" "i = index + k"
    using assms by (simp_all add: missing_run_def xs_def k_def)
  then have "k < length xs" using length_takeWhile_le [of ?P xs] by linarith
  then have "xs ! k = i" by (simp add: xs_def k(2) less_diff_conv add.commute)
  moreover have "takeWhile ?P xs ! k = xs ! k" by (rule takeWhile_nth [OF k(1)])
  moreover have "?P (takeWhile ?P xs ! k)" using nth_mem [OF k(1)] by (rule set_takeWhileD [THEN conjunct2])
  ultimately show ?thesis by simp
qed

lemma same_page:
  fixes x y ps n :: nat
  assumes "x div ps = y div ps"
  shows "y \<le> x \<and> x < y + n \<longleftrightarrow> y mod ps \<le> x mod ps \<and> x mod ps < y mod ps + n"
    and "x - y = x mod ps - y mod ps"
proof -
  have "x = y div ps * ps + x mod ps" "y = y div ps * ps + y mod ps"
    using assms by (metis div_mult_mod_eq)+
  then obtain q where q: "x = q + x mod ps" "y = q + y mod ps"
    by blast
  show "y \<le> x \<and> x < y + n \<longleftrightarrow> y mod ps \<le> x mod ps \<and> x mod ps < y mod ps + n"
    by (subst (1 2) q(1), subst (1 2) q(2)) simp
  show "x - y = x mod ps - y mod ps"
    by (subst q(1), subst q(2)) simp
qed

lemma other_page:
  fixes x y ps n :: nat
  assumes "x div ps \<noteq> y div ps" and "0 < ps" and "y mod ps + n \<le> ps"
  shows "\<not> (y \<le> x \<and> x < y + n)"
proof
  assume x: "y \<le> x \<and> x < y + n"
  then have "y mod ps + (x - y) < ps"
    using assms(3) by linarith
  from within_page(1) [OF assms(2) this] show False
    using x assms(1) by simp
qed

lemma piece_end:
  fixes y ps n m :: nat
  assumes "0 < ps" and "y mod ps + n \<le> ps" and "0 < n"
  shows "(y + n) div ps \<le> y div ps + 1" and "div_ceil (y + n) ps = y div ps + 1"
    and "y < m \<Longrightarrow> y div ps + 1 \<le> div_ceil m ps"
proof -
  have y: "y div ps * ps \<le> y" by simp
  have le: "y + n \<le> (y div ps + 1) * ps"
    using assms(2) div_mult_mod_eq [of y ps] by (simp only: distrib_right)
  then have "(y + n) div ps \<le> (y div ps + 1) * ps div ps"
    by (rule div_le_mono)
  then show "(y + n) div ps \<le> y div ps + 1" using assms(1) by simp
  have up: "y < j \<Longrightarrow> y div ps < div_ceil j ps" for j
    using less_div_ceil_iff [OF assms(1), of "y div ps" j] y by linarith
  then show "y < m \<Longrightarrow> y div ps + 1 \<le> div_ceil m ps" by fastforce
  show "div_ceil (y + n) ps = y div ps + 1"
    using up [of "y + n"] assms(3) div_ceil_le_iff [OF assms(1), of "y + n" "y div ps + 1"] le
    by linarith
qed

text \<open>Writing a piece of a block writes it into the file.\<close>

lemma write_block_exact:
  assumes "pages_wf p" and "agrees src p" and "ps = pg_page_size p"
    and "\<And>i. length (view src p i) = ps" and "pos mod ps + length xs \<le> ps"
    and "pos div ps \<le> pg_page_count p" and "pos < U64"
    and "pos div ps < pg_page_count p \<Longrightarrow> length xs < ps \<Longrightarrow>
      fmlookup (pg_blocks p) (pos div ps) = None \<Longrightarrow> view src p (pos div ps) = zeros ps"
    and "write_block p ps (pos div ps) (pos mod ps) xs = Ok q"
  shows "agrees src q"
    and "file_byte src q x =
      (if pos \<le> x \<and> x < pos + length xs then xs ! (x - pos) else file_byte src p x)"
proof -
  let ?i = "pos div ps" and ?old = "case block_at p (pos div ps) of Some b \<Rightarrow> b | None \<Rightarrow> zeros ps"
  have ps: "0 < ps" using pages_wfD(1) [OF assms(1)] assms(3) by simp
  have q: "pg_page_size q = ps" "pg_page_count q = max (pg_page_count p) (?i + 1)"
    "pg_dirty q = finsert ?i (pg_dirty p)" "asks_source q = asks_source p"
    "block_at q j = (if j = ?i then Some (overwrite ?old (pos mod ps) xs) else block_at p j)" for j
    by (rule write_block_ok [OF assms(1,3,5), of ?i]; use assms(9) in \<open>simp add: asks_source_def\<close>)+
  show "agrees src q"
    unfolding agrees_def
  proof (intro allI impI conjI)
    have "?i < U64"
      using assms(7) div_le_dividend [of pos ps] by linarith
    then show "pg_page_count q \<le> U64"
      using q(2) agrees_count [OF assms(2)] by simp
    fix j b assume j: "fmlookup (pg_blocks q) j = Some b"
    then have b: "j = ?i \<or> (\<exists>c. fmlookup (pg_blocks p) j = Some c \<and> blk_data c = blk_data b)"
      using q(5) [of j] by (cases "j = ?i"; cases "fmlookup (pg_blocks p) j") (auto simp: block_at_def)
    then show "j < pg_page_count q"
      using q(2) agreesD(2) [OF assms(2), of j] by (auto simp: less_max_iff_disj)
    show "blk_data b = src j" if "j |\<notin>| pg_dirty q"
      using that q(3) b agreesD(1) [OF assms(2), of j] by auto
  qed
  have size: "x < pages_file_size q \<longleftrightarrow> x div ps < max (pg_page_count p) (?i + 1)"
    "x < pages_file_size p \<longleftrightarrow> x div ps < pg_page_count p"
    using q(1,2) assms(3) ps by (simp_all only: pages_file_size_def div_less_iff)
  have mod: "x mod ps < ps" and len: "length ?old = ps"
    using ps pages_wfD(2) [OF assms(1)] assms(3) by (auto simp: block_at_def split: option.split)
  show "file_byte src q x =
      (if pos \<le> x \<and> x < pos + length xs then xs ! (x - pos) else file_byte src p x)"
  proof (cases "x div ps = ?i")
    case False
    then have "view src q (x div ps) = view src p (x div ps)"
      using q(1,4) q(5) [of "x div ps"] assms(3) by (simp add: view_def split: option.split)
    moreover have "x div ps < max (pg_page_count p) (?i + 1) \<longleftrightarrow> x div ps < pg_page_count p"
      using False assms(6) by auto
    ultimately show ?thesis
      using other_page [OF False ps assms(5)] q(1) assms(3) unfolding file_byte_def size by auto
  next
    case True
    then have "file_byte src q x = overwrite ?old (pos mod ps) xs ! (x mod ps)"
      unfolding file_byte_def size q(1) view_def using q(5) [of ?i] by (simp add: less_max_iff_disj)
    also have "\<dots> = (if pos \<le> x \<and> x < pos + length xs then xs ! (x - pos) else ?old ! (x mod ps))"
      unfolding same_page [OF True] using nth_overwrite [of "pos mod ps" xs ?old "x mod ps"] len mod assms(5)
      by simp
    also have "\<dots> = (if pos \<le> x \<and> x < pos + length xs then xs ! (x - pos) else file_byte src p x)"
    proof (rule if_cong [OF refl refl])
      assume out: "\<not> (pos \<le> x \<and> x < pos + length xs)"
      then have "length xs < ps"
        using assms(5) mod unfolding same_page(1) [OF True] by linarith
      then have "?i < pg_page_count p \<Longrightarrow> ?old = view src p ?i"
        using assms(8) by (auto simp: view_def block_at_def split: option.splits)
      moreover have "\<not> ?i < pg_page_count p \<Longrightarrow> ?old = zeros ps"
        using agreesD(2) [OF assms(2), of ?i] by (auto simp: block_at_def split: option.split)
      ultimately show "?old ! (x mod ps) = file_byte src p x"
        unfolding file_byte_def size using True mod assms(3) by auto
    qed
    finally show ?thesis .
  qed
qed

subsection \<open>A plain file\<close>

text \<open>
  The specification: a file is a list of bytes whose length is a multiple of the page size.  Reads
  past the end give zeros; writes past the end extend the file to the end of the last page.
\<close>

definition file_read :: "bytes \<Rightarrow> nat \<Rightarrow> nat \<Rightarrow> bytes" where
  "file_read f offset n = map (\<lambda>x. if x < length f then f ! x else 0) [offset..<offset + n]"

definition file_write :: "nat \<Rightarrow> bytes \<Rightarrow> nat \<Rightarrow> bytes \<Rightarrow> bytes" where
  "file_write ps f offset d =
     map (\<lambda>x. if offset \<le> x \<and> x < offset + length d then d ! (x - offset)
              else if x < length f then f ! x else 0)
       [0..<max (length f) (if d = [] then 0 else div_ceil (offset + length d) ps * ps)]"

definition file_truncate :: "nat \<Rightarrow> bytes \<Rightarrow> nat \<Rightarrow> bytes" where
  "file_truncate ps f n =
     (let len = div_ceil n ps * ps in take len f @ zeros (len - length f))"

lemma file_read_file_of: "file_read (file_of src p) off n = map (file_byte src p) [off..<off + n]"
  by (auto simp: file_read_def file_byte_def)

lemma file_of_eqI:
  assumes "length f = pages_file_size p" and "\<And>x. x < length f \<Longrightarrow> f ! x = file_byte src p x"
  shows "file_of src p = f"
  using assms by (intro nth_equalityI) simp_all

text \<open>What was written is read back.\<close>

lemma file_read_write_same:
  assumes "0 < ps" and "d \<noteq> []"
  shows "file_read (file_write ps f off d) off (length d) = d"
proof (rule nth_equalityI)
  fix i assume "i < length (file_read (file_write ps f off d) off (length d))"
  then have i: "i < length d" by (simp add: file_read_def)
  have "off + length d \<le> div_ceil (off + length d) ps * ps"
    using div_ceil_le_iff [OF assms(1), of "off + length d"] by blast
  then have "off + i < max (length f) (div_ceil (off + length d) ps * ps)"
    using i by (simp add: less_max_iff_disj)
  then show "file_read (file_write ps f off d) off (length d) ! i = d ! i"
    using i assms(2) by (simp add: file_read_def file_write_def)
qed (simp add: file_read_def)

lemma file_write_other:
  assumes "x < length f" and "x < off \<or> off + length d \<le> x"
  shows "x < length (file_write ps f off d)" and "file_write ps f off d ! x = f ! x"
  using assms by (auto simp: file_write_def less_max_iff_disj)

text \<open>Truncating never needs the source.\<close>

lemma pages_truncate_ok:
  assumes "pages_wf p"
  obtains q where "pages_truncate p n = Ok q" and "pages_wf q" and "pg_page_size q = pg_page_size p"
    and "pg_page_count q = div_ceil n (pg_page_size p)" and "asks_source q = asks_source p"
    and "pg_stable_page_count q = pg_stable_page_count p"
    and "pg_dirty q |\<subseteq>| pg_dirty p"
    and "\<And>src. agrees src p \<Longrightarrow> n \<le> U64 \<Longrightarrow> agrees src q"
    and "\<And>i. i < pg_page_count q \<Longrightarrow> block_at q i = block_at p i"
proof (cases "div_ceil n (pg_page_size p) = pg_page_count p")
  case True
  then show thesis
    using assms pages_wfD(1) [OF assms] by (intro that [of p]) (simp_all add: pages_truncate_def)
next
  case False
  let ?c = "div_ceil n (pg_page_size p)"
  let ?q = "p\<lparr>pg_blocks := fmfilter (\<lambda>i. i < ?c) (pg_blocks p),
    pg_dirty := ffilter (\<lambda>i. i < ?c) (pg_dirty p), pg_page_count := ?c, pg_size_changed := True\<rparr>"
  have "pages_truncate p n = Ok ?q"
    using False pages_wfD(1) [OF assms] by (simp add: pages_truncate_def Let_def)
  moreover have "pages_wf ?q"
    using assms by (auto simp: pages_wf_def fmpred_iff fsubset_eq fmlookup_dom_iff)
  moreover have "n \<le> U64 \<Longrightarrow> ?c \<le> U64"
    using div_ceil_le_iff [OF pages_wfD(1) [OF assms], of n n] pages_wfD(1) [OF assms] by simp
  then have "agrees src ?q" if "agrees src p" "n \<le> U64" for src
    using that by (auto simp: agrees_def)
  ultimately show thesis
    by (intro that [of ?q]) (auto simp: block_at_def asks_source_def)
qed

lemma pages_truncate_exact:
  assumes "pages_wf p" and "agrees src p" and "n \<le> pages_file_size p \<or> \<not> asks_source p"
    and "pages_truncate p n = Ok q"
  shows "file_of src q = file_truncate (pg_page_size p) (file_of src p) n"
proof (rule pages_truncate_ok [OF assms(1), of n])
  fix q' assume t: "pages_truncate p n = Ok q'" "pg_page_size q' = pg_page_size p"
    "pg_page_count q' = div_ceil n (pg_page_size p)" "asks_source q' = asks_source p"
    "\<And>i. i < pg_page_count q' \<Longrightarrow> block_at q' i = block_at p i"
  let ?ps = "pg_page_size p"
  have ps: "0 < ?ps" and q: "q' = q"
    using pages_wfD(1) [OF assms(1)] t(1) assms(4) by simp_all
  have view: "view src q i = view src p i" if "i < pg_page_count q" for i
    using t(2,4) t(5) [of i] that q by (simp add: view_def split: option.split)
  show ?thesis
  proof (rule file_of_eqI)
    show "length (file_truncate ?ps (file_of src p) n) = pages_file_size q"
      using t(2,3) q by (simp add: file_truncate_def Let_def pages_file_size_def)
    fix x assume "x < length (file_truncate ?ps (file_of src p) n)"
    then have x: "x < pages_file_size q" "x < div_ceil n ?ps * ?ps"
      using t(2,3) q by (simp_all add: file_truncate_def Let_def pages_file_size_def)
    then have idx: "x div ?ps < pg_page_count q"
      using t(2) q ps by (metis div_less_iff pages_file_size_def)
    show "file_truncate ?ps (file_of src p) n ! x = file_byte src q x"
    proof (cases "x < pages_file_size p")
      case True
      then show ?thesis
        using x t(2) q view [OF idx]
        by (simp add: file_truncate_def Let_def nth_append file_byte_def)
    next
      case False
      then have "\<not> asks_source p"
        using assms(3) x(2) div_ceil_le_iff [OF ps, of n "pg_page_count p"] ps
        by (metis le_less_trans mult_le_mono1 not_le pages_file_size_def)
      moreover have "\<not> x div ?ps < pg_page_count p"
        using False ps by (metis div_less_iff pages_file_size_def)
      then have "fmlookup (pg_blocks p) (x div ?ps) = None"
        using agreesD(2) [OF assms(2)] by fastforce
      ultimately have "view src p (x div ?ps) = zeros ?ps"
        by (simp add: view_def block_at_def)
      then show ?thesis
        using False x t(2) q view [OF idx] ps
        by (simp add: file_truncate_def Let_def nth_append file_byte_def)
    qed
  qed
qed

text \<open>
  After a commit the source holds every block of the file, so nothing is dirty any more and clean
  blocks can be evicted without changing the file.
\<close>

lemma committed_exact:
  assumes "pages_wf p" and "agrees src p" and "\<And>i. i < pg_page_count p \<Longrightarrow> src' i = view src p i"
    and "make_room (snd (committed p)) k st = (q, st')"
  shows "pages_wf q" and "agrees src' q" and "file_of src' q = file_of src p" and "is_clean q"
    and "pg_page_size q = pg_page_size p" and "pg_page_count q = pg_page_count p"
    and "pg_stable_page_count q = pg_page_count p" and "asks_source q = asks_source p"
proof -
  let ?c = "snd (committed p)"
  have c: "pages_wf ?c" "pg_blocks ?c = pg_blocks p" "pg_page_size ?c = pg_page_size p"
    "pg_page_count ?c = pg_page_count p" "asks_source ?c = asks_source p" "block_at ?c = block_at p"
    using assms(1) by (auto simp: committed_def pages_wf_def asks_source_def block_at_def fun_eq_iff)
  note frame = make_room_frame [OF assms(4)]
  show "pages_wf q"
    using c(1) assms(4) by (rule pages_wf_make_room)
  show "is_clean q" "pg_page_size q = pg_page_size p" "pg_page_count q = pg_page_count p"
    "pg_stable_page_count q = pg_page_count p"
    using frame by (simp_all add: is_clean_def committed_def)
  show asks: "asks_source q = asks_source p"
    using frame c(5) by (simp add: asks_source_def)
  have agrees: "agrees src' ?c"
    using agrees_count [OF assms(2)] agreesD(2) [OF assms(2)] assms(3) c
    by (auto simp: agrees_def view_def block_at_def)
  have view: "view src' ?c i = view src p i" if "i < pg_page_count p" for i
    using assms(3) [OF that] c by (auto simp: view_def split: option.splits)
  have "agrees src' q \<and> view src' q = view src' ?c"
  proof (cases "asks_source ?c")
    case True
    then show ?thesis using view_make_room [OF agrees assms(4)] by blast
  next
    case False
    then have "q = ?c"
      using assms(4) by (auto simp: make_room_eq asks_source_def split: option.splits)
    then show ?thesis using agrees by simp
  qed
  then show "agrees src' q" and "file_of src' q = file_of src p"
    using view frame c(3,4) pages_wfD(1) [OF assms(1)]
    by (auto simp: file_of_def file_byte_def pages_file_size_def div_less_iff)
qed

lemma file_of_concat:
  assumes "\<And>i. i < pg_page_count p \<Longrightarrow> view src p i = f i" and "\<And>i. length (f i) = pg_page_size p"
    and "0 < pg_page_size p"
  shows "file_of src p = concat (map f [0..<pg_page_count p])"
proof (rule file_of_eqI)
  have blocks: "\<forall>xs \<in> set (map f [0..<pg_page_count p]). length xs = pg_page_size p"
    using assms(2) by simp
  show len: "length (concat (map f [0..<pg_page_count p])) = pages_file_size p"
    using length_concat_blocks [OF blocks] by (simp add: pages_file_size_def)
  fix x assume x: "x < length (concat (map f [0..<pg_page_count p]))"
  then have "x div pg_page_size p < pg_page_count p"
    using len assms(3) by (simp add: div_less_iff pages_file_size_def)
  then show "concat (map f [0..<pg_page_count p]) ! x = file_byte src p x"
    using x len assms(1) nth_concat_blocks [OF blocks, of x] by (simp add: file_byte_def pages_file_size_def)
qed

subsection \<open>Sources that hold a file\<close>

text \<open>
  \<open>stored s\<close> is the file behind the source, block by block; filling does not change it.  A block
  asked for is loaded, or it is zero in the file.
\<close>

locale page_source_exact = page_source fill good
  for fill :: "'s fill" and good :: "nat \<Rightarrow> 's \<Rightarrow> bool" +
  fixes serves :: "nat \<Rightarrow> nat \<Rightarrow> 's \<Rightarrow> bool" and stored :: "'s \<Rightarrow> nat \<Rightarrow> bytes"
  assumes stored_length: "serves ps n s \<Longrightarrow> length (stored s i) = ps"
    and fill_exact: "\<lbrakk>good (pg_page_size p) s; serves (pg_page_size p) (pg_stable_page_count p) s; pages_wf p; 0 < count;
      first + count \<le> pg_page_count p; fill s p first count st = (r, s', p', st');
      \<forall>i. first \<le> i \<and> i < first + count \<longrightarrow> fmlookup (pg_blocks p) i = None; pg_page_count p \<le> U64\<rbrakk> \<Longrightarrow>
      serves (pg_page_size p) (pg_stable_page_count p) s' \<and> stored s' = stored s \<and>
      (\<forall>i b. fmlookup (pg_blocks p) i = None \<and> fmlookup (pg_blocks p') i = Some b \<longrightarrow>
         blk_data b = stored s i) \<and>
      (r = Ok () \<longrightarrow> fmlookup (pg_blocks p') first = None \<longrightarrow>
         stored s first = zeros (pg_page_size p))"
begin

lemma view_length:
  assumes "serves (pg_page_size p) (pg_stable_page_count p) s" and "pages_wf p"
  shows "length (view (stored s) p i) = pg_page_size p"
  using stored_length [OF assms(1)] pages_wfD(2) [OF assms(2)]
  by (auto simp: view_def block_at_def split: option.split)

lemma loads_exact:
  assumes "loads first count p p'" and "agrees (stored s) p"
    and "asks_source p"
    and "\<And>i b. fmlookup (pg_blocks p) i = None \<Longrightarrow> fmlookup (pg_blocks p') i = Some b \<Longrightarrow>
      blk_data b = stored s i"
    and "first + count \<le> pg_page_count p"
  shows "agrees (stored s) p' \<and> view (stored s) p' = view (stored s) p"
proof
  have shape: "same_shape p p'"
    and old: "\<And>i b. fmlookup (pg_blocks p) i = Some b \<Longrightarrow> fmlookup (pg_blocks p') i = Some b"
    using assms(1) by (simp_all add: loads_def)
  have new: "blk_data b = stored s i" if "fmlookup (pg_blocks p') i = Some b" "i |\<notin>| pg_dirty p" for i b
    using assms(4) [of i b] agreesD [OF assms(2), of i] old [of i] that
    by (cases "fmlookup (pg_blocks p) i") auto
  moreover have "i < pg_page_count p" if "fmlookup (pg_blocks p') i = Some b" for i b
    using assms(1,5) agreesD(2) [OF assms(2)] that unfolding loads_def by (meson less_le_trans)
  ultimately show "agrees (stored s) p'"
    using agrees_count [OF assms(2)] by (auto simp: agrees_def same_shapeD [OF shape])
  have "asks_source p'"
    using assms(3) same_shapeD [OF shape] by (simp add: asks_source_def)
  then show "view (stored s) p' = view (stored s) p"
    using old assms(3,4) by (auto simp: view_def block_at_def fun_eq_iff split: option.split)
qed

lemma ensure_loaded_exact:
  assumes "good (pg_page_size p) s" and "pages_wf p" and "index < pg_page_count p"
    and "agrees (stored s) p" and "ensure_loaded fill s p index st = (r, s', p', st')"
    and "serves (pg_page_size p) (pg_stable_page_count p) s"
  shows "serves (pg_page_size p) (pg_stable_page_count p) s' \<and> stored s' = stored s \<and> agrees (stored s) p' \<and> view (stored s) p' = view (stored s) p \<and>
    (r = Ok () \<longrightarrow> fmlookup (pg_blocks p') index = None \<longrightarrow>
       view (stored s) p index = zeros (pg_page_size p))"
proof (cases "fmlookup (pg_blocks p) index \<noteq> None \<or> index |\<in>| pg_dirty p")
  case True
  then have "fmlookup (pg_blocks p) index \<noteq> None"
    using pages_wfD(4) [OF assms(2)] by auto
  with True show ?thesis
    using assms(4,5,6) agrees_touch by (auto simp: ensure_loaded_def touch_lookup split: if_splits)
next
  case absent: False
  show ?thesis
  proof (cases "asks_source p")
    case False
    then show ?thesis
      using absent assms(4,5,6) by (auto simp: ensure_loaded_def view_def block_at_def asks_source_def)
  next
    case limited: True
    let ?n = "missing_run p index (case pg_blocks_per_fetch p of Some n \<Rightarrow> n | None \<Rightarrow> REFILL_BLOCKS)"
    obtain q t where mr: "make_room p ?n st = (q, t)"
      by (cases "make_room p ?n st")
    have q: "pages_wf q" "same_shape p q" "agrees (stored s) q" "view (stored s) q = view (stored s) p"
      using mr assms(2) view_make_room [OF assms(4) mr limited]
      by (blast intro: pages_wf_make_room same_shape_make_room)+
    have pos: "0 < ?n"
      using missing_run_pos [OF assms(3)] absent pages_wfD(5) [OF assms(2)]
      by (auto simp: REFILL_BLOCKS_def split: option.split)
    have run: "\<forall>i. index \<le> i \<and> i < index + ?n \<longrightarrow> fmlookup (pg_blocks q) i = None"
      using missing_run_absent make_room_lookup [OF mr] by (metis option.distinct(1) option.exhaust)
    then have missing: "fmlookup (pg_blocks q) index = None"
      using pos by simp
    have fill: "fill s q index ?n t = (r, s', p', st')"
      using assms(5) absent limited mr pos by (auto simp: ensure_loaded_def asks_source_def Let_def)
    have range: "index + ?n \<le> pg_page_count q" and good: "good (pg_page_size q) s"
      and serves: "serves (pg_page_size q) (pg_stable_page_count q) s"
      using missing_run_bound [OF assms(3)] same_shapeD [OF q(2)] assms(1,6) by simp_all
    note exact = fill_exact [OF good serves q(1) pos range fill run agrees_count [OF q(3)]]
    have asks: "asks_source q"
      using limited same_shapeD [OF q(2)] by (simp add: asks_source_def)
    have "agrees (stored s) p' \<and> view (stored s) p' = view (stored s) q"
      using fill_loads [OF good q(1) pos range fill] q(3) exact
      by (intro loads_exact [of index ?n, OF _ _ asks _ range]) simp_all
    moreover have "view (stored s) q index = stored s index"
      using missing asks by (simp add: view_def block_at_def)
    ultimately show ?thesis
      using exact q(4) same_shapeD(1,3) [OF q(2)] by auto
  qed
qed

lemma read_loop_exact:
  assumes "read_loop fill ps s p buf off k st = (r, buf', s', p', st')"
    and "good ps s" and "pages_wf p" and "ps = pg_page_size p" and "k \<le> length buf"
    and "agrees (stored s) p" and "serves ps (pg_stable_page_count p) s"
  shows "serves ps (pg_stable_page_count p) s' \<and> stored s' = stored s \<and> agrees (stored s) p' \<and> view (stored s) p' = view (stored s) p \<and>
    (\<forall>full. r = Ok full \<longrightarrow>
       buf' = take k buf @ map (file_byte (stored s) p) [off + k..<off + length buf] \<and>
       (full \<longleftrightarrow> k = length buf \<or> off + length buf \<le> pages_file_size p))"
  using assms
proof (induction "length buf - k" arbitrary: s p buf k st rule: less_induct)
  case less
  have ps: "0 < ps" "0 < pg_page_size p"
    using less.prems pages_wfD(1) by simp_all
  from less.prems(1) ps(1) show ?case
  proof (cases rule: read_loop_cases)
    case stop
    then show ?thesis using less.prems(5,6,7) by simp
  next
    case eof
    then have "map (file_byte (stored s) p) [off + k..<off + k + (length buf - k)] = zeros (length buf - k)"
      using less.prems(4) by (intro past_end_piece [OF ps(2)]) simp
    moreover have "pages_file_size p \<le> off + k"
      using eof(2) less.prems(4) ps(2) by (metis div_less_iff not_less pages_file_size_def)
    ultimately show ?thesis
      using eof less.prems(6,7) by simp
  next
    case (fail q)
    then show ?thesis
      using ensure_loaded_exact [of p s "(off + k) div ps" st q s' p' st'] less.prems
      by (cases q) auto
  next
    case (short s1 p1 st1 b)
    then have "pages_wf p1" "pg_page_size p1 = ps"
      using ensure_loaded_safe [of p s] less.prems same_shapeD(1) [of p p1] by auto
    then show ?thesis
      using pages_wfD(2) [of p1] short(4,5) by simp
  next
    case (more n s1 p1 st1 xs)
    let ?v = "view (stored s) p ((off + k) div ps)"
    have s1: "good ps s1" "pages_wf p1" "same_shape p p1" "pg_page_size p1 = ps"
      using more ensure_loaded_safe [of p s] less.prems same_shapeD(1) [of p p1] by auto
    have e: "stored s1 = stored s" "agrees (stored s) p1" "view (stored s) p1 = view (stored s) p"
      "serves ps (pg_stable_page_count p1) s1" "fmlookup (pg_blocks p1) ((off + k) div ps) = None \<Longrightarrow> ?v = zeros ps"
      using ensure_loaded_exact [OF _ less.prems(3) _ less.prems(6) more(6)] more(2) less.prems(2,4,7)
        same_shapeD(3) [OF s1(3)] by auto
    have same: "file_byte (stored s) p1 = file_byte (stored s) p" "pages_file_size p1 = pages_file_size p"
        "pg_stable_page_count p1 = pg_stable_page_count p"
      using e(3) same_shapeD [OF s1(3)] by (simp_all add: file_byte_def fun_eq_iff pages_file_size_def)
    have len: "length ?v = ps"
      using view_length [OF _ less.prems(3)] less.prems(4,7) by simp
    have "fmlookup (pg_blocks p1) ((off + k) div ps) = Some b \<Longrightarrow> ?v = blk_data b" for b
      unfolding e(3) [symmetric] by (simp add: view_def block_at_def)
    then have "xs = sub_slice ?v ((off + k) mod ps) n"
      using more(7) e(5) slice_zeros [OF more(5)] by (simp split: option.splits)
    then have xs: "xs = map (file_byte (stored s) p) [off + k..<off + k + n]"
      using view_piece [OF ps(2), of "off + k" n "stored s"] more(2,5) len less.prems(4) by simp
    then have ow: "length (overwrite buf k xs) = length buf"
        "take (k + n) (overwrite buf k xs) = take k buf @ xs"
      using more(3,4) by (simp_all add: overwrite_def)
    have "length (overwrite buf k xs) - (k + n) < length buf - k" "k + n \<le> length (overwrite buf k xs)"
      "agrees (stored s1) p1"
      using more(1,3,4) e(1,2) ow(1) by simp_all
    note IH = less.hyps [OF this(1) more(8) s1(1,2) s1(4) [symmetric] this(2,3) e(4),
        unfolded e(1,3) same ow]
    have "[off + k..<off + length buf] =
        [off + k..<off + k + n] @ [off + k + n..<off + length buf]"
      using upt_add_eq_append [of "off + k" "off + k + n" "length buf - (k + n)"] more(4) by simp
    moreover have "off + length buf \<le> pages_file_size p" if "k + n = length buf"
    proof -
      have "(off + k + (n - 1)) div ps = (off + k) div ps"
        using within_page(1) [OF ps(1), of "off + k" "n - 1"] more(3,5) by simp
      then have "off + k + (n - 1) < pages_file_size p"
        using more(2) ps less.prems(4) by (metis div_less_iff pages_file_size_def)
      then show ?thesis using that more(3) by simp
    qed
    moreover have "k \<noteq> length buf" using more(1) by simp
    ultimately show ?thesis
      using IH by (auto simp: xs [symmetric] add.assoc [symmetric])
  qed
qed

lemma write_loop_exact:
  assumes "write_loop fill ps s p d off k st = (r, s', p', st')"
    and "good ps s" and "pages_wf p" and "ps = pg_page_size p" and "k \<le> length d"
    and "agrees (stored s) p" and "(off + k) div ps \<le> pg_page_count p" and "off + length d \<le> U64"
    and "serves ps (pg_stable_page_count p) s"
  shows "serves ps (pg_stable_page_count p) s' \<and> stored s' = stored s \<and> agrees (stored s) p' \<and>
    (r = Ok () \<longrightarrow>
       pg_page_count p' = max (pg_page_count p) (if k = length d then 0 else div_ceil (off + length d) ps) \<and>
       (\<forall>x. file_byte (stored s) p' x =
          (if off + k \<le> x \<and> x < off + length d then d ! (x - off) else file_byte (stored s) p x)))"
  using assms
proof (induction "length d - k" arbitrary: s p k st rule: less_induct)
  case less
  have ps: "0 < ps" "0 < pg_page_size p"
    using less.prems pages_wfD(1) by simp_all
  from less.prems(1) ps(1) show ?case
  proof (cases rule: write_loop_cases)
    case stop
    then show ?thesis using less.prems(5,6,9) by auto
  next
    case (fail q)
    then show ?thesis
      using ensure_loaded_exact [of p s "(off + k) div ps" st q s' p' st'] less.prems
      by (cases q) auto
  next
    case (more n s1 p1 st1)
    let ?i = "(off + k) div ps" and ?xs = "sub_slice d k n"
    have s1: "good ps s1" "pages_wf p1" "same_shape p p1"
      using ensure_loaded_safe [of p s ?i st "Ok ()" s1 p1 st1] more(5) less.prems
      by (auto split: if_splits)
    have e: "stored s1 = stored s" "agrees (stored s) p1" "view (stored s) p1 = view (stored s) p"
      "serves ps (pg_stable_page_count p) s1" "n < ps \<and> ?i < pg_page_count p \<Longrightarrow> fmlookup (pg_blocks p1) ?i = None \<Longrightarrow>
         view (stored s) p ?i = zeros ps"
      using ensure_loaded_exact [of p s ?i st "Ok ()" s1 p1 st1] more(5) less.prems
      by (auto split: if_splits)
    have same: "file_byte (stored s) p1 = file_byte (stored s) p"
      using e(3) same_shapeD [OF s1(3)] by (simp add: file_byte_def fun_eq_iff pages_file_size_def)
    have p1: "ps = pg_page_size p1" "?i \<le> pg_page_count p1" "length ?xs = n"
      "(off + k) mod ps + length ?xs \<le> ps"
      using less.prems(4,7) same_shapeD [OF s1(3)] more(3,4) by simp_all
    obtain p2 where p2: "write_block p1 ps ?i ((off + k) mod ps) ?xs = Ok p2" "pages_wf p2"
        "pg_page_size p2 = ps" "pg_page_count p2 = max (pg_page_count p) (?i + 1)"
        "pg_stable_page_count p2 = pg_stable_page_count p"
      by (rule write_block_ok [OF s1(2) p1(1) p1(4), of ?i]) (use same_shapeD(2,3) [OF s1(3)] in auto)
    have e4: "serves ps (pg_stable_page_count p2) s1" using e(4) p2(5) by simp
    have vlen: "length (view (stored s) p1 i) = ps" for i
      using view_length [of p1 s1] s1(2) p1(1) e(1,4) same_shapeD(3) [OF s1(3)] by simp
    have fits: "off + k < U64"
      using less.prems(8) more(1) by simp
    have wb: "agrees (stored s) p2" "file_byte (stored s) p2 x =
        (if off + k \<le> x \<and> x < off + k + n then d ! (x - off) else file_byte (stored s) p x)" for x
      using write_block_exact [OF s1(2) e(2) p1(1) vlen p1(4,2) fits _ p2(1)] e(3,5) p1(3)
        same_shapeD(2) [OF s1(3)] same more(3)
      by (auto simp: nth_slice)
    have next_page: "(off + (k + n)) div ps \<le> ?i + 1" "div_ceil (off + (k + n)) ps = ?i + 1"
        "?i + 1 \<le> div_ceil (off + length d) ps"
      using piece_end [OF ps(1) more(4,2)] more(1) by (simp_all add: add.assoc)
    have "length d - (k + n) < length d - k" "k + n \<le> length d" "agrees (stored s1) p2"
      "(off + (k + n)) div ps \<le> pg_page_count p2"
      "write_loop fill ps s1 p2 d off (k + n) st1 = (r, s', p', st')"
      using more(1-3,6) wb(1) e(1) next_page(1) p2(1,4) by auto
    note IH = less.hyps [OF this(1,5) s1(1) p2(2) p2(3) [symmetric] this(2-4) less.prems(8) e4,
        unfolded e(1) p2(4,5)]
    have "pg_page_count p' = max (pg_page_count p) (div_ceil (off + length d) ps)" if "r = Ok ()"
      using IH that next_page(2,3) by (cases "k + n = length d") (auto simp: max_def)
    moreover have "file_byte (stored s) p' x =
        (if off + k \<le> x \<and> x < off + length d then d ! (x - off) else file_byte (stored s) p x)"
      if "r = Ok ()" for x
      using IH that wb(2) [of x] more(3) by auto
    ultimately show ?thesis
      using IH more(1) by auto
  qed
qed

theorem pages_read_exact:
  assumes "pages_read fill s p buf off st = (Ok full, buf', s', p', st')"
    and "good (pg_page_size p) s" and "pages_wf p" and "agrees (stored s) p"
    and "serves (pg_page_size p) (pg_stable_page_count p) s"
  shows "buf' = file_read (file_of (stored s) p) off (length buf)"
    and "full \<longleftrightarrow> buf = [] \<or> off + length buf \<le> length (file_of (stored s) p)"
  using read_loop_exact [OF assms(1) [unfolded pages_read_def] assms(2,3) refl _ assms(4,5)]
  by (simp_all add: file_read_file_of)

theorem pages_read_keeps:
  assumes "pages_read fill s p buf off st = (r, buf', s', p', st')"
    and "good (pg_page_size p) s" and "pages_wf p" and "agrees (stored s) p"
    and "serves (pg_page_size p) (pg_stable_page_count p) s"
  shows "r \<noteq> Panic" and "length buf' = length buf" and "pages_wf p'" and "agrees (stored s') p'"
    and "good (pg_page_size p') s'" and "file_of (stored s') p' = file_of (stored s) p"
    and "same_shape p p'" and "serves (pg_page_size p') (pg_stable_page_count p') s'"
proof -
  note safe = read_loop_safe [OF assms(1) [unfolded pages_read_def] assms(2,3) refl]
  note exact = read_loop_exact [OF assms(1) [unfolded pages_read_def] assms(2,3) refl _ assms(4,5)]
  show "r \<noteq> Panic" "length buf' = length buf" "pages_wf p'" "same_shape p p'"
    using safe by simp_all
  then have shape: "pg_page_size p' = pg_page_size p" "pages_file_size p' = pages_file_size p"
      "pg_stable_page_count p' = pg_stable_page_count p"
    by (simp_all add: same_shape_def pages_file_size_def)
  show "agrees (stored s') p'" "good (pg_page_size p') s'" "serves (pg_page_size p') (pg_stable_page_count p') s'"
    using safe exact shape by simp_all
  show "file_of (stored s') p' = file_of (stored s) p"
    using exact shape by (simp add: file_of_def file_byte_def)
qed

theorem pages_write_exact:
  assumes "pages_write fill s p d off st = (Ok (), s', p', st')"
    and "good (pg_page_size p) s" and "pages_wf p" and "agrees (stored s) p"
    and "serves (pg_page_size p) (pg_stable_page_count p) s"
    and "off \<le> pages_file_size p" and "off + length d \<le> U64"
  shows "file_of (stored s') p' = file_write (pg_page_size p) (file_of (stored s) p) off d"
proof -
  let ?ps = "pg_page_size p"
  have ps: "0 < ?ps" using pages_wfD(1) [OF assms(3)] .
  have "off div ?ps \<le> pg_page_count p"
    using no_hole [OF ps assms(6)] .
  note exact = write_loop_exact [OF assms(1) [unfolded pages_write_def] assms(2,3) refl _ assms(4) _ assms(7,5)]
  have e: "stored s' = stored s"
    "pg_page_count p' = max (pg_page_count p) (if d = [] then 0 else div_ceil (off + length d) ?ps)"
    "file_byte (stored s) p' x =
       (if off \<le> x \<and> x < off + length d then d ! (x - off) else file_byte (stored s) p x)" for x
    using exact \<open>off div ?ps \<le> pg_page_count p\<close> by auto
  have "pg_page_size p' = ?ps"
    using write_loop_safe [OF assms(1) [unfolded pages_write_def] assms(2,3) refl]
    by (simp add: grown_def)
  then have size: "pages_file_size p' =
      max (pages_file_size p) (if d = [] then 0 else div_ceil (off + length d) ?ps * ?ps)"
    using e(2) by (simp add: pages_file_size_def nat_mult_max_left)
  show ?thesis
    unfolding e(1)
  proof (rule file_of_eqI)
    show "length (file_write ?ps (file_of (stored s) p) off d) = pages_file_size p'"
      using size by (simp add: file_write_def)
    fix x assume "x < length (file_write ?ps (file_of (stored s) p) off d)"
    then show "file_write ?ps (file_of (stored s) p) off d ! x = file_byte (stored s) p' x"
      unfolding e(3) by (simp add: file_write_def file_byte_def)
  qed
qed

theorem pages_write_keeps:
  assumes "pages_write fill s p d off st = (r, s', p', st')"
    and "good (pg_page_size p) s" and "pages_wf p"
  shows "r \<noteq> Panic" and "pages_wf p'" and "good (pg_page_size p') s'" and "grown p p'"
  using write_loop_safe [OF assms(1) [unfolded pages_write_def] assms(2,3) refl]
  by (simp_all add: grown_def)

theorem pages_write_agrees:
  assumes "pages_write fill s p d off st = (r, s', p', st')"
    and "good (pg_page_size p) s" and "pages_wf p" and "agrees (stored s) p"
    and "serves (pg_page_size p) (pg_stable_page_count p) s"
    and "off \<le> pages_file_size p" and "off + length d \<le> U64"
  shows "agrees (stored s') p'" and "serves (pg_page_size p') (pg_stable_page_count p') s'"
proof -
  have "off div pg_page_size p \<le> pg_page_count p"
    using no_hole [OF pages_wfD(1) [OF assms(3)] assms(6)] .
  note exact = write_loop_exact [OF assms(1) [unfolded pages_write_def] assms(2,3) refl _ assms(4) _ assms(7,5)]
  then show "agrees (stored s') p'"
    using \<open>off div pg_page_size p \<le> pg_page_count p\<close> by simp
  show "serves (pg_page_size p') (pg_stable_page_count p') s'"
    using exact pages_write_keeps(4) [OF assms(1-3)] \<open>off div pg_page_size p \<le> pg_page_count p\<close>
    by (simp add: grown_def)
qed

end

end
