(* ===== verification/Bridge.thy ===== *)
theory Bridge
  imports Base
begin

text \<open>
  The browser's side of the bridge to the connection worker (\<open>transport.rs\<close>, the module for wasm):
  the request and answer exchange over shared memory, the local databases (\<open>LocalBridge\<close>), the
  transport (\<open>Bridge\<close>) and the local copy (\<open>Copy\<close>) on top of it.

  The shared memory and the worker behind it are the parameter \<open>shared_ops\<close>: the control slots are
  loaded and stored, the request region is written, the answer region is read, and waiting may let
  the worker run.  \<open>sh_turns\<close> bounds the turns of a wait loop.
\<close>

subsection \<open>Constants\<close>

definition STATE :: nat where "STATE = 0"
definition ANSWER :: nat where "ANSWER = 1"
definition KIND :: nat where "KIND = 2"
definition ANSWER_LENGTH :: nat where "ANSWER_LENGTH = 3"
definition REQUEST :: nat where "REQUEST = 4"
definition OP :: nat where "OP = 5"
definition REQUEST_LENGTH :: nat where "REQUEST_LENGTH = 6"
definition REACHABLE :: nat where "REACHABLE = 7"
definition PING_MS :: nat where "PING_MS = 8"

definition STATE_OPEN :: int where "STATE_OPEN = 1"
definition KIND_FRAME :: int where "KIND_FRAME = 1"
definition KIND_ERROR :: int where "KIND_ERROR = 2"
definition KIND_DONE :: int where "KIND_DONE = 3"
definition KIND_NOTHING :: int where "KIND_NOTHING = 4"
definition KIND_BUSY :: int where "KIND_BUSY = 5"
definition KIND_FULL :: int where "KIND_FULL = 6"

definition OP_SEND :: int where "OP_SEND = 1"
definition OP_RECEIVE :: int where "OP_RECEIVE = 2"
definition OP_REOPEN :: int where "OP_REOPEN = 3"
definition OP_COPY_HEAD :: int where "OP_COPY_HEAD = 5"
definition OP_COPY_READ :: int where "OP_COPY_READ = 6"
definition OP_COPY_WRITE :: int where "OP_COPY_WRITE = 7"
definition OP_COPY_CLEAR :: int where "OP_COPY_CLEAR = 8"
definition OP_COPY_FORGET :: int where "OP_COPY_FORGET = 9"
definition OP_COPY_SELECT :: int where "OP_COPY_SELECT = 10"
definition OP_LOCAL_OPEN :: int where "OP_LOCAL_OPEN = 11"
definition OP_LOCAL_READ :: int where "OP_LOCAL_READ = 12"
definition OP_LOCAL_COMMIT :: int where "OP_LOCAL_COMMIT = 13"
definition OP_LOCAL_CLOSE :: int where "OP_LOCAL_CLOSE = 14"
definition OP_LOCAL_DELETE :: int where "OP_LOCAL_DELETE = 15"
definition OP_COPY_FLUSH :: int where "OP_COPY_FLUSH = 16"
definition OP_PROBE :: int where "OP_PROBE = 17"

definition LOCAL_CREATE :: nat where "LOCAL_CREATE = 1"
definition LOCAL_TAKEOVER :: nat where "LOCAL_TAKEOVER = 2"
definition PIECE_FIRST :: nat where "PIECE_FIRST = 1"
definition PIECE_LAST :: nat where "PIECE_LAST = 2"
definition CAPACITY :: nat where "CAPACITY = 2097152"

subsection \<open>Shared memory\<close>

record 'b shared_ops =
  sh_store :: "nat \<Rightarrow> int \<Rightarrow> 'b \<Rightarrow> (unit, message) res \<times> 'b"
  sh_load :: "nat \<Rightarrow> 'b \<Rightarrow> (int, message) res \<times> 'b"
  sh_notify :: "nat \<Rightarrow> 'b \<Rightarrow> (unit, message) res \<times> 'b"
  sh_wait :: "nat \<Rightarrow> int \<Rightarrow> nat \<Rightarrow> 'b \<Rightarrow> 'b"
  sh_now :: "'b \<Rightarrow> nat \<times> 'b"
  sh_put :: "bytes \<Rightarrow> 'b \<Rightarrow> 'b"
  sh_region :: "'b \<Rightarrow> bytes"
  sh_turns :: nat

record 'b shared =
  sh_mem :: 'b
  sh_timeout :: nat
  sh_seen :: int
  sh_probing :: bool

definition on_mem :: "('b \<Rightarrow> 'a \<times> 'b) \<Rightarrow> 'b shared \<Rightarrow> 'a \<times> 'b shared" where
  "on_mem f sh = (case f (sh_mem sh) of (x, m) \<Rightarrow> (x, sh\<lparr>sh_mem := m\<rparr>))"

definition slot_store :: "'b shared_ops \<Rightarrow> nat \<Rightarrow> int \<Rightarrow> 'b shared \<Rightarrow> (unit, message) res \<times> 'b shared" where
  "slot_store ops slot v = on_mem (sh_store ops slot v)"

definition slot_load :: "'b shared_ops \<Rightarrow> nat \<Rightarrow> 'b shared \<Rightarrow> (int, message) res \<times> 'b shared" where
  "slot_load ops slot = on_mem (sh_load ops slot)"

definition put_request :: "'b shared_ops \<Rightarrow> bytes \<Rightarrow> 'b shared \<Rightarrow> 'b shared" where
  "put_request ops bs sh = sh\<lparr>sh_mem := sh_put ops bs (sh_mem sh)\<rparr>"

text \<open>\<open>Shared::ask\<close>: signal a request, then wait for the answer counter to change.\<close>

primrec ask_loop ::
  "nat \<Rightarrow> 'b shared_ops \<Rightarrow> nat \<Rightarrow> 'b shared \<Rightarrow> (int \<times> nat, message) res \<times> 'b shared" where
  "ask_loop 0 ops deadline sh = (Hang, sh)"
| "ask_loop (Suc n) ops deadline sh =
     and_then (slot_load ops ANSWER sh) (\<lambda>current sh.
       if current \<noteq> sh_seen sh then
         and_then (slot_load ops KIND (sh\<lparr>sh_seen := current\<rparr>)) (\<lambda>kind sh.
         and_then (slot_load ops ANSWER_LENGTH sh) (\<lambda>len sh.
           (Ok (kind, nat (max len 0)), sh)))
       else
         (case on_mem (sh_now ops) sh of (now, sh) \<Rightarrow>
            if deadline - now = 0 then (Err ''the connection worker did not respond in time'', sh)
            else ask_loop n ops deadline
                   (sh\<lparr>sh_mem := sh_wait ops ANSWER current (deadline - now) (sh_mem sh)\<rparr>)))"

definition ask ::
  "'b shared_ops \<Rightarrow> int \<Rightarrow> nat \<Rightarrow> 'b shared \<Rightarrow> (int \<times> nat, message) res \<times> 'b shared" where
  "ask ops op request_length sh =
     and_then (slot_store ops OP op sh) (\<lambda>_ sh.
     and_then (slot_store ops REQUEST_LENGTH (int request_length) sh) (\<lambda>_ sh.
     and_then (slot_store ops REQUEST 1 sh) (\<lambda>_ sh.
     and_then (on_mem (sh_notify ops REQUEST) sh) (\<lambda>_ sh.
       case on_mem (sh_now ops) sh of (now, sh) \<Rightarrow>
         ask_loop (sh_turns ops) ops (now + sh_timeout sh) sh))))"

text \<open>\<open>answer_bytes\<close> copies into a buffer of the given length and panics if the region is shorter.\<close>

definition answer_bytes :: "'b shared_ops \<Rightarrow> nat \<Rightarrow> 'b shared \<Rightarrow> (bytes, 'e) res \<times> 'b shared" where
  "answer_bytes ops len sh =
     (if len \<le> length (sh_region ops (sh_mem sh))
      then (Ok (take len (sh_region ops (sh_mem sh))), sh) else (Panic, sh))"

definition text_of :: "rstring \<Rightarrow> message" where
  "text_of bs = map (\<lambda>b. char_of (unat b)) bs"

definition answer_text :: "'b shared_ops \<Rightarrow> 'b shared \<Rightarrow> (message, 'e) res \<times> 'b shared" where
  "answer_text ops sh =
     (case slot_load ops ANSWER_LENGTH sh of (r, sh) \<Rightarrow>
        and_then (answer_bytes ops (case r of Ok len \<Rightarrow> nat (max len 0) | _ \<Rightarrow> 0) sh)
          (\<lambda>bs sh. (Ok (text_of (from_utf8_lossy bs)), sh)))"

definition fail_text :: "'b shared_ops \<Rightarrow> 'b shared \<Rightarrow> ('a, message) res \<times> 'b shared" where
  "fail_text ops sh = and_then (answer_text ops sh) (\<lambda>t sh. (Err t, sh))"

primrec wait_until_open_loop ::
  "nat \<Rightarrow> 'b shared_ops \<Rightarrow> nat \<Rightarrow> 'b shared \<Rightarrow> (unit, message) res \<times> 'b shared" where
  "wait_until_open_loop 0 ops deadline sh = (Hang, sh)"
| "wait_until_open_loop (Suc n) ops deadline sh =
     and_then (slot_load ops STATE sh) (\<lambda>state sh.
       if state = STATE_OPEN then (Ok (), sh)
       else if state \<noteq> 0 then fail_text ops sh
       else
         (case on_mem (sh_now ops) sh of (now, sh) \<Rightarrow>
            if deadline - now = 0 then (Err ''the connection was not established in time'', sh)
            else wait_until_open_loop n ops deadline
                   (sh\<lparr>sh_mem := sh_wait ops STATE 0 (deadline - now) (sh_mem sh)\<rparr>)))"

definition wait_until_open :: "'b shared_ops \<Rightarrow> 'b shared \<Rightarrow> (unit, message) res \<times> 'b shared" where
  "wait_until_open ops sh =
     (case on_mem (sh_now ops) sh of (now, sh) \<Rightarrow>
        wait_until_open_loop (sh_turns ops) ops (now + sh_timeout sh) sh)"

subsection \<open>Local databases\<close>

record local_opened =
  lo_page_size :: nat
  lo_page_count :: nat
  lo_epoch :: nat

datatype refusal =
    Busy
  | Missing
  | Quota_full message
  | Failed message
  | NoAnswer message

definition bridge_request :: "'b shared_ops \<Rightarrow> bytes \<Rightarrow> 'b shared \<Rightarrow> (nat, refusal) res \<times> 'b shared" where
  "bridge_request ops bs sh =
     (if length bs \<le> CAPACITY then (Ok (length bs), put_request ops bs sh)
      else (Err (Failed ''request exceeds the bridge buffer''), sh))"

definition refuse :: "'b shared_ops \<Rightarrow> int \<Rightarrow> 'b shared \<Rightarrow> ('a, refusal) res \<times> 'b shared" where
  "refuse ops kind sh =
     (if kind = KIND_BUSY then (Err Busy, sh)
      else if kind = KIND_NOTHING then (Err Missing, sh)
      else if kind = KIND_FULL then and_then (answer_text ops sh) (\<lambda>t sh. (Err (Quota_full t), sh))
      else if kind = KIND_ERROR then and_then (answer_text ops sh) (\<lambda>t sh. (Err (Failed t), sh))
      else (Err (Failed ''unexpected answer''), sh))"

definition local_ask ::
  "'b shared_ops \<Rightarrow> int \<Rightarrow> nat \<Rightarrow> 'b shared \<Rightarrow> (int \<times> nat, refusal) res \<times> 'b shared" where
  "local_ask ops op len sh = apfst (map_err NoAnswer) (ask ops op len sh)"

definition bridge_open ::
  "'b shared_ops \<Rightarrow> rstring \<Rightarrow> nat \<Rightarrow> bool \<Rightarrow> bool \<Rightarrow> 'b shared \<Rightarrow> (local_opened, refusal) res \<times> 'b shared"
  where
  "bridge_open ops name page_size create takeover sh =
     (let flags = (if create then LOCAL_CREATE else 0) + (if takeover then LOCAL_TAKEOVER else 0) in
      and_then (bridge_request ops (to_le_bytes 4 flags @ to_le_bytes 4 page_size @ name) sh) (\<lambda>len sh.
      and_then (local_ask ops OP_LOCAL_OPEN len sh) (\<lambda>(kind, len) sh.
        if kind \<noteq> KIND_FRAME then refuse ops kind sh
        else and_then (answer_bytes ops len sh) (\<lambda>bs sh.
          if length bs \<noteq> 20 then (Err (Failed ''head of unexpected length''), sh)
          else (Ok \<lparr>lo_page_size = from_le_bytes (sub_slice bs 0 4),
                     lo_page_count = from_le_bytes (sub_slice bs 4 8),
                     lo_epoch = from_le_bytes (sub_slice bs 12 8)\<rparr>, sh)))))"

definition max_read :: "nat \<Rightarrow> nat" where
  "max_read page_size = max ((CAPACITY - 4) div max page_size 1) 1"

definition bridge_read ::
  "'b shared_ops \<Rightarrow> nat \<Rightarrow> nat \<Rightarrow> 'b shared \<Rightarrow> (bytes list, refusal) res \<times> 'b shared" where
  "bridge_read ops first count sh =
     and_then (bridge_request ops (to_le_bytes 8 first @ to_le_bytes 8 count) sh) (\<lambda>len sh.
     and_then (local_ask ops OP_LOCAL_READ len sh) (\<lambda>(kind, len) sh.
       if kind \<noteq> KIND_FRAME then refuse ops kind sh
       else and_then (answer_bytes ops len sh) (\<lambda>all sh.
         let size = (if 4 \<le> length all then from_le_bytes (sub_slice all 0 4) else 0);
             body = drop 4 all
         in if size = 0 \<or> length body \<noteq> size * count
            then (Err (Failed ''read returned a wrong number of bytes''), sh)
            else (Ok (chunks size body), sh))))"

text \<open>
  The inner loop of \<open>commit\<close> and of the copy's \<open>write\<close>: append blocks to a piece until the next
  one would not fit; the first block is always taken.
\<close>

fun fill_piece ::
  "bytes \<Rightarrow> nat \<Rightarrow> (nat \<times> bytes) list \<Rightarrow> bytes \<times> nat \<times> (nat \<times> bytes) list" where
  "fill_piece piece count [] = (piece, count, [])"
| "fill_piece piece count ((index, d) # rest) =
     (if length piece + 12 + length d > CAPACITY \<and> count > 0 then (piece, count, (index, d) # rest)
      else fill_piece (piece @ to_le_bytes 8 index @ to_le_bytes 4 (length d) @ d) (count + 1) rest)"

lemma fill_piece_rest: "fill_piece piece count blocks = (piece', count', rest) \<Longrightarrow> length rest \<le> length blocks"
  by (induction piece count blocks rule: fill_piece.induct) (auto split: if_splits)

lemma fill_piece_takes:
  "fill_piece piece 0 blocks = (piece', count', rest) \<Longrightarrow> rest \<noteq> [] \<Longrightarrow> length rest < length blocks"
  by (cases "(piece, 0 :: nat, blocks)" rule: fill_piece.cases) (auto dest: fill_piece_rest)

definition commit_piece ::
  "nat \<Rightarrow> nat \<Rightarrow> bool \<Rightarrow> (nat \<times> bytes) list \<Rightarrow> bytes \<times> (nat \<times> bytes) list" where
  "commit_piece epoch page_count first blocks =
     (case fill_piece (to_le_bytes 4 0 @ to_le_bytes 8 epoch @ to_le_bytes 8 page_count @ to_le_bytes 4 0)
             0 blocks of
        (piece, count, rest) \<Rightarrow>
          let flags = (if first then PIECE_FIRST else 0) + (if rest = [] then PIECE_LAST else 0)
          in (overwrite (overwrite piece 0 (to_le_bytes 4 flags)) 20 (to_le_bytes 4 count), rest))"

lemma commit_piece_takes:
  "commit_piece epoch page_count first blocks = (piece, rest) \<Longrightarrow> rest \<noteq> [] \<Longrightarrow> length rest < length blocks"
  by (auto simp: commit_piece_def Let_def split: prod.splits dest: fill_piece_takes)

function bridge_commit_loop ::
  "'b shared_ops \<Rightarrow> nat \<Rightarrow> nat \<Rightarrow> bool \<Rightarrow> (nat \<times> bytes) list \<Rightarrow> 'b shared \<Rightarrow> (unit, refusal) res \<times> 'b shared"
  where
  "bridge_commit_loop ops epoch page_count first blocks sh =
     (case commit_piece epoch page_count first blocks of (piece, rest) \<Rightarrow>
        and_then (bridge_request ops piece sh) (\<lambda>len sh.
        and_then (local_ask ops OP_LOCAL_COMMIT len sh) (\<lambda>(kind, _) sh.
          if kind \<noteq> KIND_DONE then refuse ops kind sh
          else if rest = [] then (Ok (), sh)
          else bridge_commit_loop ops epoch page_count False rest sh)))"
  by pat_completeness auto
termination
  by (relation "measure (\<lambda>(ops, epoch, page_count, first, blocks, sh). length blocks)")
    (auto dest: commit_piece_takes [OF sym])

declare bridge_commit_loop.simps [simp del]

definition bridge_commit ::
  "'b shared_ops \<Rightarrow> nat \<Rightarrow> nat \<Rightarrow> (nat \<times> bytes) list \<Rightarrow> 'b shared \<Rightarrow> (unit, refusal) res \<times> 'b shared" where
  "bridge_commit ops epoch page_count blocks sh = bridge_commit_loop ops epoch page_count True blocks sh"

definition bridge_close :: "'b shared_ops \<Rightarrow> 'b shared \<Rightarrow> (unit, 'e) res \<times> 'b shared" where
  "bridge_close ops sh =
     (case ask ops OP_LOCAL_CLOSE 0 sh of
        (Panic, sh) \<Rightarrow> (Panic, sh) | (Hang, sh) \<Rightarrow> (Hang, sh) | (_, sh) \<Rightarrow> (Ok (), sh))"

definition bridge_delete ::
  "'b shared_ops \<Rightarrow> rstring \<Rightarrow> bool \<Rightarrow> 'b shared \<Rightarrow> (unit, refusal) res \<times> 'b shared" where
  "bridge_delete ops name takeover sh =
     and_then (bridge_request ops (to_le_bytes 4 (if takeover then LOCAL_TAKEOVER else 0) @ name) sh) (\<lambda>len sh.
     and_then (local_ask ops OP_LOCAL_DELETE len sh) (\<lambda>(kind, _) sh.
       if kind \<noteq> KIND_DONE then refuse ops kind sh else (Ok (), sh)))"

subsection \<open>The transport\<close>

definition answer_done :: "'b shared_ops \<Rightarrow> int \<times> nat \<Rightarrow> 'b shared \<Rightarrow> (unit, message) res \<times> 'b shared" where
  "answer_done ops a sh = (if fst a = KIND_DONE then (Ok (), sh) else fail_text ops sh)"

definition transport_send :: "'b shared_ops \<Rightarrow> bytes \<Rightarrow> 'b shared \<Rightarrow> (unit, message) res \<times> 'b shared" where
  "transport_send ops frame sh =
     (if length frame > CAPACITY then (Err ''frame exceeds the bridge buffer'', sh)
      else and_then (ask ops OP_SEND (length frame) (put_request ops frame sh)) (answer_done ops))"

definition transport_receive :: "'b shared_ops \<Rightarrow> 'b shared \<Rightarrow> (bytes, message) res \<times> 'b shared" where
  "transport_receive ops sh =
     and_then (ask ops OP_RECEIVE 0 sh) (\<lambda>(kind, len) sh.
       if kind \<noteq> KIND_FRAME then fail_text ops sh else answer_bytes ops len sh)"

definition transport_reopen :: "'b shared_ops \<Rightarrow> 'b shared \<Rightarrow> (unit, message) res \<times> 'b shared" where
  "transport_reopen ops sh = and_then (ask ops OP_REOPEN 0 sh) (\<lambda>_ sh. wait_until_open ops sh)"

definition transport_logged_in :: "'b shared_ops \<Rightarrow> nat \<Rightarrow> 'b shared \<Rightarrow> 'b shared" where
  "transport_logged_in ops ping_interval sh =
     snd (slot_store ops PING_MS (int (min ping_interval 2147483647)) sh)"

definition transport_reachable :: "'b shared_ops \<Rightarrow> 'b shared \<Rightarrow> (bool, message) res \<times> 'b shared" where
  "transport_reachable ops sh =
     (if sh_probing sh then
        (case slot_load ops REACHABLE sh of (r, sh) \<Rightarrow>
           if r \<noteq> Ok 1 then (Ok False, sh) else (Ok True, sh\<lparr>sh_probing := False\<rparr>))
      else
        (case ask ops OP_PROBE 0 sh of
           (Ok _, sh) \<Rightarrow> (Ok False, sh\<lparr>sh_probing := True\<rparr>)
         | (Err _, sh) \<Rightarrow> (Ok False, sh)
         | (Panic, sh) \<Rightarrow> (Panic, sh)
         | (Hang, sh) \<Rightarrow> (Hang, sh)))"

subsection \<open>The local copy\<close>

text \<open>The lengths of the two strings are stored in 16 bits; longer ones are cut to their low bits.\<close>

definition head_bytes :: "head \<Rightarrow> bytes" where
  "head_bytes h =
     to_le_bytes 4 (hd_page_size h) @ to_le_bytes 8 (hd_page_count h) @ to_le_bytes 8 (hd_version h) @
     to_le_bytes 2 (length (hd_subject h)) @ to_le_bytes 2 (length (hd_db_id h)) @
     hd_subject h @ hd_db_id h"

definition head_from :: "bytes \<Rightarrow> head option" where
  "head_from bs =
     (if length bs < 24 then None
      else
        let subject_len = from_le_bytes (sub_slice bs 20 2); db_id_len = from_le_bytes (sub_slice bs 22 2) in
        Option.bind (get_slice bs 24 subject_len) (\<lambda>s. Option.bind (from_utf8 s) (\<lambda>subject.
        Option.bind (get_slice bs (24 + subject_len) db_id_len) (\<lambda>d. Option.bind (from_utf8 d) (\<lambda>db_id.
          Some \<lparr>hd_subject = subject, hd_db_id = db_id,
                hd_page_size = from_le_bytes (sub_slice bs 0 4),
                hd_page_count = from_le_bytes (sub_slice bs 4 8),
                hd_version = from_le_bytes (sub_slice bs 12 8)\<rparr>)))))"

definition copy_head_op :: "'b shared_ops \<Rightarrow> 'b shared \<Rightarrow> (head option, message) res \<times> 'b shared" where
  "copy_head_op ops sh =
     and_then (ask ops OP_COPY_HEAD 0 sh) (\<lambda>(kind, len) sh.
       if kind = KIND_NOTHING then (Ok None, sh)
       else if kind = KIND_FRAME
       then and_then (answer_bytes ops len sh) (\<lambda>bs sh. (Ok (head_from bs), sh))
       else fail_text ops sh)"

definition blocks_from :: "bytes \<Rightarrow> bytes list" where
  "blocks_from all =
     (if length all < 4 then []
      else
        let size = from_le_bytes (sub_slice all 0 4); body = drop 4 all in
        if size = 0 \<or> length body mod size \<noteq> 0 then [] else chunks size body)"

definition copy_read_op ::
  "'b shared_ops \<Rightarrow> nat \<Rightarrow> nat \<Rightarrow> 'b shared \<Rightarrow> (bytes list, message) res \<times> 'b shared" where
  "copy_read_op ops first count sh =
     and_then (ask ops OP_COPY_READ 16 (put_request ops (to_le_bytes 8 first @ to_le_bytes 8 count) sh))
       (\<lambda>(kind, len) sh.
         if kind = KIND_NOTHING then (Ok [], sh)
         else if kind = KIND_FRAME
         then and_then (answer_bytes ops len sh) (\<lambda>all sh. (Ok (blocks_from all), sh))
         else fail_text ops sh)"

definition copy_chunk :: "bytes \<Rightarrow> (nat \<times> bytes) list \<Rightarrow> bytes \<times> (nat \<times> bytes) list" where
  "copy_chunk hb blocks =
     (case fill_piece (to_le_bytes 4 0 @ to_le_bytes 4 (length hb) @ hb @ to_le_bytes 4 0) 0 blocks of
        (chunk, count, rest) \<Rightarrow>
          (overwrite (overwrite chunk 0 (to_le_bytes 4 (if rest = [] then 1 else 0)))
             (8 + length hb) (to_le_bytes 4 count), rest))"

lemma copy_chunk_takes:
  "copy_chunk hb blocks = (piece, rest) \<Longrightarrow> rest \<noteq> [] \<Longrightarrow> length rest < length blocks"
  by (auto simp: copy_chunk_def split: prod.splits dest: fill_piece_takes)

function copy_write_loop ::
  "'b shared_ops \<Rightarrow> bytes \<Rightarrow> (nat \<times> bytes) list \<Rightarrow> 'b shared \<Rightarrow> (unit, message) res \<times> 'b shared" where
  "copy_write_loop ops hb blocks sh =
     (case copy_chunk hb blocks of (chunk, rest) \<Rightarrow>
        if length chunk > CAPACITY then (Err ''piece exceeds the bridge buffer'', sh)
        else and_then (ask ops OP_COPY_WRITE (length chunk) (put_request ops chunk sh)) (\<lambda>a sh.
          and_then (answer_done ops a sh) (\<lambda>_ sh.
            if rest = [] then (Ok (), sh) else copy_write_loop ops hb rest sh)))"
  by pat_completeness auto
termination
  by (relation "measure (\<lambda>(ops, hb, blocks, sh). length blocks)") (auto dest: copy_chunk_takes [OF sym])

declare copy_write_loop.simps [simp del]

definition copy_write_op ::
  "'b shared_ops \<Rightarrow> head \<Rightarrow> (nat \<times> bytes) list \<Rightarrow> 'b shared \<Rightarrow> (unit, message) res \<times> 'b shared" where
  "copy_write_op ops h blocks sh = copy_write_loop ops (head_bytes h) blocks sh"

definition copy_forget_op ::
  "'b shared_ops \<Rightarrow> head \<Rightarrow> nat list \<Rightarrow> 'b shared \<Rightarrow> (unit, message) res \<times> 'b shared" where
  "copy_forget_op ops h blocks sh =
     (let request = to_le_bytes 4 (length (head_bytes h)) @ head_bytes h @ to_le_bytes 4 (length blocks) @
        concat (map (to_le_bytes 8) blocks)
      in if length request > CAPACITY then (Err ''list of blocks exceeds the bridge buffer'', sh)
         else and_then (ask ops OP_COPY_FORGET (length request) (put_request ops request sh)) (answer_done ops))"

definition copy_clear_op :: "'b shared_ops \<Rightarrow> 'b shared \<Rightarrow> (unit, message) res \<times> 'b shared" where
  "copy_clear_op ops sh = and_then (ask ops OP_COPY_CLEAR 0 sh) (answer_done ops)"

definition copy_flush_op :: "'b shared_ops \<Rightarrow> 'b shared \<Rightarrow> (unit, message) res \<times> 'b shared" where
  "copy_flush_op ops sh = and_then (ask ops OP_COPY_FLUSH 0 sh) (answer_done ops)"

definition copy_select_op :: "'b shared_ops \<Rightarrow> rstring \<Rightarrow> 'b shared \<Rightarrow> (unit, message) res \<times> 'b shared" where
  "copy_select_op ops db_id sh =
     (if length db_id > CAPACITY then (Err ''database name exceeds the bridge buffer'', sh)
      else and_then (ask ops OP_COPY_SELECT (length db_id) (put_request ops db_id sh)) (answer_done ops))"

subsection \<open>What the bridge relies on\<close>

text \<open>
  The worker keeps an invariant \<open>I\<close> of the shared memory under which no access to it panics and the
  answer length it stores fits the answer region.
\<close>

definition worker_sound :: "'b shared_ops \<Rightarrow> ('b \<Rightarrow> bool) \<Rightarrow> bool" where
  "worker_sound ops I \<longleftrightarrow>
     (\<forall>m. I m \<longrightarrow>
       (\<forall>slot v. slot \<noteq> ANSWER_LENGTH \<longrightarrow>
          fst (sh_store ops slot v m) \<noteq> Panic \<and> I (snd (sh_store ops slot v m))) \<and>
       (\<forall>slot. fst (sh_load ops slot m) \<noteq> Panic \<and> I (snd (sh_load ops slot m))) \<and>
       (\<forall>v. fst (sh_load ops ANSWER_LENGTH m) = Ok v \<longrightarrow>
          nat v \<le> length (sh_region ops (snd (sh_load ops ANSWER_LENGTH m)))) \<and>
       (\<forall>slot. fst (sh_notify ops slot m) \<noteq> Panic \<and> I (snd (sh_notify ops slot m))) \<and>
       (\<forall>slot v t. I (sh_wait ops slot v t m)) \<and> I (snd (sh_now ops m)) \<and> (\<forall>bs. I (sh_put ops bs m)))"

abbreviation mem_safe :: "('b \<Rightarrow> bool) \<Rightarrow> ('a \<Rightarrow> 'b shared \<Rightarrow> bool) \<Rightarrow> ('a, 'e) res \<times> 'b shared \<Rightarrow> bool" where
  "mem_safe I Q m \<equiv> safe (\<lambda>sh. I (sh_mem sh)) Q m"

abbreviation region_length :: "'b shared_ops \<Rightarrow> 'b shared \<Rightarrow> nat" where
  "region_length ops sh \<equiv> length (sh_region ops (sh_mem sh))"

lemma worker_soundD:
  assumes "worker_sound ops I" and "I (sh_mem sh)"
  shows "slot \<noteq> ANSWER_LENGTH \<Longrightarrow> mem_safe I (\<lambda>_ _. True) (slot_store ops slot v sh)"
    and "mem_safe I (\<lambda>_ _. True) (slot_load ops slot sh)"
    and "mem_safe I (\<lambda>v sh. nat v \<le> region_length ops sh) (slot_load ops ANSWER_LENGTH sh)"
    and "mem_safe I (\<lambda>_ _. True) (on_mem (sh_notify ops slot) sh)"
    and "I (sh_mem (snd (on_mem (sh_now ops) sh)))"
    and "I (sh_wait ops slot v t (sh_mem sh))"
    and "I (sh_mem (put_request ops bs sh))"
proof -
  note D = assms(1) [unfolded worker_sound_def, rule_format, OF assms(2)]
  show "slot \<noteq> ANSWER_LENGTH \<Longrightarrow> mem_safe I (\<lambda>_ _. True) (slot_store ops slot v sh)"
    "mem_safe I (\<lambda>_ _. True) (on_mem (sh_notify ops slot) sh)"
    "mem_safe I (\<lambda>_ _. True) (slot_load ops slot sh)"
    using D by (simp_all add: slot_store_def slot_load_def on_mem_def safe_def split_beta)
  show "mem_safe I (\<lambda>v sh. nat v \<le> region_length ops sh) (slot_load ops ANSWER_LENGTH sh)"
    using D by (simp add: slot_load_def on_mem_def safe_def split_beta)
  show "I (sh_mem (snd (on_mem (sh_now ops) sh)))" "I (sh_wait ops slot v t (sh_mem sh))"
    "I (sh_mem (put_request ops bs sh))"
    using D by (simp_all add: on_mem_def put_request_def split_beta)
qed

lemma ask_loop_safe:
  assumes "worker_sound ops I"
  shows "I (sh_mem sh) \<Longrightarrow>
    mem_safe I (\<lambda>a sh. snd a \<le> region_length ops sh) (ask_loop n ops deadline sh)"
proof (induction n arbitrary: sh)
  case (Suc n)
  note D = worker_soundD [OF assms]
  show ?case
    unfolding ask_loop.simps
  proof (rule safe_and_then [OF D(2) [OF Suc.prems]])
    fix current and sh1 :: "'a shared"
    assume I1: "I (sh_mem sh1)"
    let ?sh2 = "snd (on_mem (sh_now ops) sh1)"
    have "mem_safe I (\<lambda>a sh. snd a \<le> region_length ops sh)
      (ask_loop n ops deadline (?sh2\<lparr>sh_mem := sh_wait ops ANSWER v t (sh_mem ?sh2)\<rparr>))" for v t
      by (rule Suc.IH) (simp add: D(6) [OF D(5) [OF I1]])
    moreover have "mem_safe I (\<lambda>a sh. snd a \<le> region_length ops sh)
      (and_then (slot_load ops KIND (sh1\<lparr>sh_seen := current\<rparr>)) (\<lambda>kind sh.
       and_then (slot_load ops ANSWER_LENGTH sh) (\<lambda>len sh. (Ok (kind, nat (max len 0)), sh))))"
      by (rule safe_and_then [OF D(2)], simp add: I1, rule safe_and_then [OF D(3)]) (simp_all add: max_def)
    ultimately show "mem_safe I (\<lambda>a sh. snd a \<le> region_length ops sh)
      (if current \<noteq> sh_seen sh1
       then and_then (slot_load ops KIND (sh1\<lparr>sh_seen := current\<rparr>)) (\<lambda>kind sh.
         and_then (slot_load ops ANSWER_LENGTH sh) (\<lambda>len sh. (Ok (kind, nat (max len 0)), sh)))
       else case on_mem (sh_now ops) sh1 of (now, sh) \<Rightarrow>
         if deadline - now = 0 then (Err ''the connection worker did not respond in time'', sh)
         else ask_loop n ops deadline
           (sh\<lparr>sh_mem := sh_wait ops ANSWER current (deadline - now) (sh_mem sh)\<rparr>))"
      using D(5) [OF I1] by (simp add: split_beta)
  qed
qed simp

lemma ask_safe:
  assumes "worker_sound ops I" and "I (sh_mem sh)"
  shows "mem_safe I (\<lambda>a sh. snd a \<le> region_length ops sh) (ask ops op n sh)"
proof -
  have slots: "OP \<noteq> ANSWER_LENGTH" "REQUEST_LENGTH \<noteq> ANSWER_LENGTH" "REQUEST \<noteq> ANSWER_LENGTH"
    by (simp_all add: OP_def REQUEST_LENGTH_def REQUEST_def ANSWER_LENGTH_def)
  show ?thesis
    unfolding ask_def split_beta
    by (intro safe_and_then [OF worker_soundD(1) [OF assms(1)]] safe_and_then [OF worker_soundD(4) [OF assms(1)]]
        ask_loop_safe worker_soundD(5) [OF assms(1)] slots assms)
qed

lemma answer_bytes_safe:
  "I (sh_mem sh) \<Longrightarrow> n \<le> region_length ops sh \<Longrightarrow>
     mem_safe I (\<lambda>bs sh'. length bs = n \<and> bs = take n (sh_region ops (sh_mem sh'))) (answer_bytes ops n sh)"
  by (simp add: answer_bytes_def)

lemma answer_text_safe:
  assumes "worker_sound ops I" and "I (sh_mem sh)"
  shows "mem_safe I (\<lambda>_ _. True) (answer_text ops sh)"
proof -
  obtain r sh1 where l: "slot_load ops ANSWER_LENGTH sh = (r, sh1)" by (metis prod.exhaust)
  note D = safeD [OF worker_soundD(3) [OF assms] l]
  have "(case r of Ok len \<Rightarrow> nat (max len 0) | _ \<Rightarrow> 0) \<le> region_length ops sh1"
    using D(3) by (cases r) (simp_all add: max_def)
  then show ?thesis
    unfolding answer_text_def l split_beta
    by (auto intro!: safe_and_then [OF answer_bytes_safe] simp: D(1))
qed

lemma refuse_safe:
  assumes "worker_sound ops I" and "I (sh_mem sh)"
  shows "mem_safe I Q (refuse ops kind sh)"
  unfolding refuse_def using assms(2)
  by (auto intro!: safe_and_then [OF answer_text_safe [OF assms]])

lemma bridge_request_safe:
  "worker_sound ops I \<Longrightarrow> I (sh_mem sh) \<Longrightarrow> mem_safe I (\<lambda>_ _. True) (bridge_request ops bs sh)"
  by (simp add: bridge_request_def worker_soundD(7))

lemma local_ask_safe:
  "worker_sound ops I \<Longrightarrow> I (sh_mem sh) \<Longrightarrow>
     mem_safe I (\<lambda>a sh. snd a \<le> region_length ops sh) (local_ask ops op n sh)"
  by (simp add: local_ask_def ask_safe)

text \<open>A read of the local database that succeeds returns exactly the requested number of blocks.\<close>

lemma bridge_read_safe:
  assumes "worker_sound ops I" and "I (sh_mem sh)"
  shows "mem_safe I (\<lambda>blocks _. length blocks = count \<and> (\<exists>size. \<forall>d \<in> set blocks. length d = size))
    (bridge_read ops first count sh)"
proof -
  have tail: "mem_safe I (\<lambda>blocks _. length blocks = count \<and> (\<exists>size. \<forall>d \<in> set blocks. length d = size))
    (and_then (answer_bytes ops len sh1) (\<lambda>all sh.
      let size = (if 4 \<le> length all then from_le_bytes (sub_slice all 0 4) else 0); body = drop 4 all
      in if size = 0 \<or> length body \<noteq> size * count
         then (Err (Failed ''read returned a wrong number of bytes''), sh) else (Ok (chunks size body), sh)))"
    if "I (sh_mem sh1)" "len \<le> region_length ops sh1" for len sh1
  proof (rule safe_and_then [OF answer_bytes_safe [where I = I, OF that]])
    fix all and sh2 :: "'a shared"
    assume I2: "I (sh_mem sh2)"
    define size where "size = (if 4 \<le> length all then from_le_bytes (sub_slice all 0 4) else 0)"
    have "0 < size \<Longrightarrow> length (drop 4 all) = size * count \<Longrightarrow>
        length (chunks size (drop 4 all)) = count \<and> (\<forall>d \<in> set (chunks size (drop 4 all)). length d = size)"
      by (rule chunks_exact)
    then show "mem_safe I (\<lambda>blocks _. length blocks = count \<and> (\<exists>size. \<forall>d \<in> set blocks. length d = size))
      (let size = (if 4 \<le> length all then from_le_bytes (sub_slice all 0 4) else 0); body = drop 4 all
       in if size = 0 \<or> length body \<noteq> size * count
          then (Err (Failed ''read returned a wrong number of bytes''), sh2) else (Ok (chunks size body), sh2))"
      unfolding size_def [symmetric] Let_def using I2 by (intro safe_if) auto
  qed
  show ?thesis
    unfolding bridge_read_def split_beta
    by (intro safe_and_then [OF bridge_request_safe [OF assms]] safe_and_then [OF local_ask_safe [OF assms(1)]]
        safe_if refuse_safe [OF assms(1)] tail)
qed

text \<open>
  The worker holds a local database whose blocks are \<open>C\<close>.  In a state with \<open>J\<close> there is no answer
  outstanding; then the worker answers \<open>OP_LOCAL_READ\<close> in time or not at all.  If it answers with a
  frame, the frame is the block size and the requested blocks.  Reading changes no block.
\<close>

definition worker_serves ::
  "'b shared_ops \<Rightarrow> ('b shared \<Rightarrow> bool) \<Rightarrow> ('b \<Rightarrow> nat \<Rightarrow> bytes) \<Rightarrow> nat \<Rightarrow> bool" where
  "worker_serves ops J C ps \<longleftrightarrow> 0 < ps \<and> ps < 2 ^ 32 \<and> (\<forall>m i. length (C m i) = ps) \<and>
     (\<forall>sh slot. J sh \<longrightarrow> J (snd (slot_load ops slot sh))) \<and>
     (\<forall>sh slot. C (sh_mem (snd (slot_load ops slot sh))) = C (sh_mem sh)) \<and>
     (\<forall>sh first count r sh'. J sh \<longrightarrow> 0 < count \<longrightarrow> first + count \<le> U64 \<longrightarrow> count \<le> max_read ps \<longrightarrow>
        local_ask ops OP_LOCAL_READ 16 (put_request ops (to_le_bytes 8 first @ to_le_bytes 8 count) sh) =
          (r, sh') \<longrightarrow>
        C (sh_mem sh') = C (sh_mem sh) \<and> r \<noteq> Hang \<and> (is_ok r \<longrightarrow> J sh') \<and>
        (\<forall>len. r = Ok (KIND_FRAME, len) \<longrightarrow> take len (sh_region ops (sh_mem sh')) =
           to_le_bytes 4 ps @ concat (map (C (sh_mem sh)) [first..<first + count])))"

lemma worker_servesD:
  assumes "worker_serves ops J C ps"
  shows "0 < ps" and "ps < 2 ^ 32" and "length (C m i) = ps"
    and "C (sh_mem (snd (slot_load ops slot sh))) = C (sh_mem sh)" and "J sh \<Longrightarrow> J (snd (slot_load ops slot sh))"
    and "local_ask ops OP_LOCAL_READ 16 (put_request ops (to_le_bytes 8 first @ to_le_bytes 8 count) sh) =
          (r, sh') \<Longrightarrow> J sh \<Longrightarrow> 0 < count \<Longrightarrow> first + count \<le> U64 \<Longrightarrow> count \<le> max_read ps \<Longrightarrow>
          C (sh_mem sh') = C (sh_mem sh) \<and> r \<noteq> Hang \<and> (is_ok r \<longrightarrow> J sh')"
    and "local_ask ops OP_LOCAL_READ 16 (put_request ops (to_le_bytes 8 first @ to_le_bytes 8 count) sh) =
          (Ok (KIND_FRAME, len), sh') \<Longrightarrow> J sh \<Longrightarrow> 0 < count \<Longrightarrow> first + count \<le> U64 \<Longrightarrow> count \<le> max_read ps \<Longrightarrow>
          take len (sh_region ops (sh_mem sh')) =
           to_le_bytes 4 ps @ concat (map (C (sh_mem sh)) [first..<first + count])"
  using assms unfolding worker_serves_def by blast+

lemma refuse_keeps:
  assumes "worker_serves ops J C ps" and "J sh" and "refuse ops kind sh = (r, sh')"
  shows "J sh' \<and> C (sh_mem sh') = C (sh_mem sh)" and "\<not> is_ok r" and "r \<noteq> Hang"
    and "r \<noteq> Err (NoAnswer t)"
proof -
  have loaded: "(sh1 = snd (slot_load ops ANSWER_LENGTH sh)) \<and> u \<noteq> Hang \<and> (\<forall>e. u \<noteq> Err e)"
    if "answer_text ops sh = (u, sh1)" for u :: "(message, refusal) res" and sh1
    using that by (auto simp: answer_text_def answer_bytes_def split_beta split: if_splits)
  then show "J sh' \<and> C (sh_mem sh') = C (sh_mem sh)"
    using assms worker_servesD(4,5) [OF assms(1)]
    by (auto simp: refuse_def split: if_splits elim!: and_then_cases)
  show "\<not> is_ok r" "r \<noteq> Hang" "r \<noteq> Err (NoAnswer t)"
    using assms(3) loaded by (auto simp: refuse_def split: if_splits elim!: and_then_cases)
qed

lemma bridge_read_exact:
  assumes "worker_serves ops J C ps" and "J sh"
    and "bridge_read ops first count sh = (r, sh')" and "0 < count" and "first + count \<le> U64" and "count \<le> max_read ps"
  shows "C (sh_mem sh') = C (sh_mem sh) \<and> r \<noteq> Hang \<and> (J sh' \<or> (\<exists>t. r = Err (NoAnswer t)) \<or> r = Panic) \<and>
    (\<forall>blocks. r = Ok blocks \<longrightarrow> J sh' \<and> blocks = map (C (sh_mem sh)) [first..<first + count])"
proof -
  let ?req = "to_le_bytes 8 first @ to_le_bytes 8 count"
  obtain q sh1 where q: "local_ask ops OP_LOCAL_READ 16 (put_request ops ?req sh) = (q, sh1)"
    by (metis prod.exhaust)
  have q1: "C (sh_mem sh1) = C (sh_mem sh)" "q \<noteq> Hang" "is_ok q \<Longrightarrow> J sh1"
    using worker_servesD(6) [OF assms(1) q assms(2,4,5,6)] by blast+
  have step: "bridge_read ops first count sh = and_then (q, sh1) (\<lambda>(kind, len) sh.
       if kind \<noteq> KIND_FRAME then refuse ops kind sh
       else and_then (answer_bytes ops len sh) (\<lambda>all sh.
         let size = (if 4 \<le> length all then from_le_bytes (sub_slice all 0 4) else 0); body = drop 4 all
         in if size = 0 \<or> length body \<noteq> size * count
            then (Err (Failed ''read returned a wrong number of bytes''), sh)
            else (Ok (chunks size body), sh)))"
    using q by (simp add: bridge_read_def bridge_request_def CAPACITY_def)
  have frame: ?thesis if "q = Ok (KIND_FRAME, len)" for len
  proof -
    let ?body = "concat (map (C (sh_mem sh)) [first..<first + count])"
    have all: "take len (sh_region ops (sh_mem sh1)) = to_le_bytes 4 ps @ ?body"
      using worker_servesD(7) [OF assms(1)] q that assms(2,4,5,6) by blast
    have ps: "from_le_bytes (to_le_bytes 4 ps) = ps" "0 < ps"
      using worker_servesD(1,2) [OF assms(1)] by simp_all
    have "chunks ps ?body = map (C (sh_mem sh)) [first..<first + count]"
      using worker_servesD(3) [OF assms(1)] ps(2) by (intro chunks_concat_blocks) auto
    then show ?thesis
      using step assms(3) that q1 ps
      by (auto simp: answer_bytes_def all Let_def sub_slice_def split: if_splits)
  qed
  show ?thesis
  proof (cases q)
    case (Ok a)
    obtain kind len where a: "a = (kind, len)" by (cases a)
    have "J sh1" using q1(3) Ok by simp
    then show ?thesis
      using frame refuse_keeps [OF assms(1), of sh1 kind r sh'] step assms(3) Ok a q1(1)
      by (cases "kind = KIND_FRAME") auto
  next
    case (Err e)
    obtain t where "e = NoAnswer t"
    proof -
      obtain u sh2 where "ask ops OP_LOCAL_READ 16 (put_request ops ?req sh) = (u, sh2)" by (metis prod.exhaust)
      then show thesis
        using q Err that unfolding local_ask_def by (cases u) auto
    qed
    then show ?thesis using step assms(3) Err q1(1) by auto
  qed (use step assms(3) q1 in auto)
qed

end
