(* ===== verification/Local_Database.thy ===== *)
theory Local_Database
  imports Page_Source Bridge
begin

text \<open>
  A database kept only in this browser (\<open>local_database.rs\<close>): the blocks in memory, the epoch of the
  lock and the reason why the database broke.  Missing blocks come from the connection worker over
  the bridge (\<open>Load\<close>), which is a \<open>page_source\<close> for every worker that keeps its answers within the
  answer region, and a \<open>page_source_exact\<close> for a worker that answers a read with the stored blocks.
\<close>

subsection \<open>Loading blocks\<close>

fun refusal_text :: "refusal \<Rightarrow> message" where
  "refusal_text Busy = ''another instance has the database open''"
| "refusal_text Missing = ''the database does not exist''"
| "refusal_text (Quota_full reason) = ''storage quota exhausted: '' @ reason"
| "refusal_text (Failed reason) = reason"
| "refusal_text (NoAnswer reason) = reason"

lemma max_read_pos [simp]: "0 < max_read ps"
  by (simp add: max_read_def)

type_synonym 'b load = "'b shared \<times> broken option"

function load_loop ::
  "'b shared_ops \<Rightarrow> 'b load \<Rightarrow> pages \<Rightarrow> nat \<Rightarrow> nat \<Rightarrow> stats \<Rightarrow> (unit, broken) res \<times> 'b load \<times> pages \<times> stats"
  where
  "load_loop ops (sh, br) p next end st =
     (if next < end then
        let n = min (max_read (pg_page_size p)) (end - next) in
        (case bridge_read ops next n sh of
           (Ok blocks, sh) \<Rightarrow>
             if list_ex (\<lambda>d. length d \<noteq> pg_page_size p) blocks
             then (Err (Refused ''stored block of an unexpected size''), (sh, br), p, st)
             else load_loop ops (sh, br) (keep_all p next blocks) (next + n) end
                    (st\<lparr>local_reads := local_reads st + 1, local_blocks_read := local_blocks_read st + n\<rparr>)
         | (Err Busy, sh) \<Rightarrow> (Err Fenced, (sh, Some Fenced), p, st)
         | (Err (NoAnswer reason), sh) \<Rightarrow> (Err (Uncertain reason), (sh, Some (Uncertain reason)), p, st)
         | (Err other, sh) \<Rightarrow> (Err (Refused (refusal_text other)), (sh, br), p, st)
         | (Panic, sh) \<Rightarrow> (Panic, (sh, br), p, st)
         | (Hang, sh) \<Rightarrow> (Hang, (sh, br), p, st))
      else (Ok (), (sh, br), p, st))"
  by pat_completeness auto
termination
  by (relation "measure (\<lambda>(ops, s, p, next, end, st). end - next)") (auto simp: less_diff_conv)

declare load_loop.simps [simp del]

definition load_fill :: "'b shared_ops \<Rightarrow> 'b load fill" where
  "load_fill ops s p first count st =
     (case snd s of
        Some broken \<Rightarrow> (Err broken, s, p, st)
      | None \<Rightarrow> load_loop ops s p first (first + count) st)"

subsection \<open>The database\<close>

record 'b local_database =
  ldb_bridge :: "'b shared"
  ldb_pages :: pages
  ldb_epoch :: nat
  ldb_broken :: "broken option"

record local_options =
  lopt_page_size :: nat
  lopt_create :: bool
  lopt_takeover :: bool
  lopt_blocks_per_fetch :: "nat option"
  lopt_cap :: "nat option"

definition local_open ::
  "'b shared_ops \<Rightarrow> 'b shared \<Rightarrow> rstring \<Rightarrow> local_options \<Rightarrow> stats \<Rightarrow>
     ('b local_database, refusal) res \<times> 'b shared \<times> stats" where
  "local_open ops sh name opts st =
     (case bridge_open ops name (lopt_page_size opts) (lopt_create opts) (lopt_takeover opts) sh of
        (Ok opened, sh) \<Rightarrow>
          if lo_page_size opened = 0 \<or> lo_page_size opened > MAX_PAGE_SIZE \<or>
             lo_page_count opened > MAX_PAGE_COUNT
          then (Err (Failed ''stored head with a page size or page count out of range''), sh, st)
          else
            let p = pages_new (lo_page_size opened) (lo_page_count opened)
                      (lopt_blocks_per_fetch opts) (lopt_cap opts) in
            (case (if \<not> on_demand p \<and> pg_page_count p > 0
                   then load_fill ops (sh, None) p 0 (pg_page_count p) st
                   else (Ok (), (sh, None), p, st)) of
               (Ok _, (sh, br), p, st) \<Rightarrow>
                 (case make_room p 0 st of (p, st) \<Rightarrow>
                    (Ok \<lparr>ldb_bridge = sh, ldb_pages = p, ldb_epoch = lo_epoch opened, ldb_broken = br\<rparr>,
                     sh, st\<lparr>held_blocks := held p\<rparr>))
             | (Err _, (sh, _), _, st) \<Rightarrow>
                 (case bridge_close ops sh :: (unit, refusal) res \<times> 'b shared of
                    (Panic, sh) \<Rightarrow> (Panic, sh, st)
                  | (Hang, sh) \<Rightarrow> (Hang, sh, st)
                  | (_, sh) \<Rightarrow> (Err (Failed ''loading the database failed''), sh, st))
             | (Panic, (sh, _), _, st) \<Rightarrow> (Panic, sh, st)
             | (Hang, (sh, _), _, st) \<Rightarrow> (Hang, sh, st))
      | (Err e, sh) \<Rightarrow> (Err e, sh, st)
      | (Panic, sh) \<Rightarrow> (Panic, sh, st)
      | (Hang, sh) \<Rightarrow> (Hang, sh, st))"

definition local_file_size :: "'b local_database \<Rightarrow> nat" where
  "local_file_size db = pages_file_size (ldb_pages db)"

definition local_read ::
  "'b shared_ops \<Rightarrow> 'b local_database \<Rightarrow> bytes \<Rightarrow> nat \<Rightarrow> stats \<Rightarrow>
     (bool, broken) res \<times> bytes \<times> 'b local_database \<times> stats" where
  "local_read ops db buf offset st =
     (case pages_read (load_fill ops) (ldb_bridge db, ldb_broken db) (ldb_pages db) buf offset st of
        (r, buf, (sh, br), p, st) \<Rightarrow>
          (r, buf, db\<lparr>ldb_bridge := sh, ldb_broken := br, ldb_pages := p\<rparr>, st))"

definition local_write ::
  "'b shared_ops \<Rightarrow> 'b local_database \<Rightarrow> bytes \<Rightarrow> nat \<Rightarrow> stats \<Rightarrow>
     (unit, broken) res \<times> 'b local_database \<times> stats" where
  "local_write ops db d offset st =
     (case ldb_broken db of
        Some broken \<Rightarrow> (Err broken, db, st)
      | None \<Rightarrow>
          (case pages_write (load_fill ops) (ldb_bridge db, ldb_broken db) (ldb_pages db) d offset st of
             (r, (sh, br), p, st) \<Rightarrow>
               (r, db\<lparr>ldb_bridge := sh, ldb_broken := br, ldb_pages := p\<rparr>, st)))"

definition local_truncate :: "'b local_database \<Rightarrow> nat \<Rightarrow> (unit, broken) res \<times> 'b local_database" where
  "local_truncate db n =
     (case ldb_broken db of
        Some broken \<Rightarrow> (Err broken, db)
      | None \<Rightarrow>
          (case pages_truncate (ldb_pages db) n of
             Ok p \<Rightarrow> (Ok (), db\<lparr>ldb_pages := p\<rparr>)
           | Err e \<Rightarrow> (Err e, db) | Panic \<Rightarrow> (Panic, db) | Hang \<Rightarrow> (Hang, db)))"

fun broken_of_refusal :: "refusal \<Rightarrow> broken" where
  "broken_of_refusal Busy = Fenced"
| "broken_of_refusal (Quota_full reason) = Full reason"
| "broken_of_refusal (NoAnswer reason) = Uncertain reason"
| "broken_of_refusal other = Refused (refusal_text other)"

definition sh_moment :: "'b shared_ops \<Rightarrow> 'b shared \<Rightarrow> nat \<times> 'b shared" where
  "sh_moment ops sh = on_mem (sh_now ops) sh"

text \<open>The counters after a commit of \<open>count\<close> blocks of \<open>page_size\<close> bytes that took \<open>elapsed\<close>.\<close>

definition count_commit :: "nat \<Rightarrow> nat \<Rightarrow> nat \<Rightarrow> stats \<Rightarrow> stats" where
  "count_commit count page_size elapsed st =
     st\<lparr>commits := commits st + 1, committed_blocks := committed_blocks st + count,
        committed_bytes := committed_bytes st + count * page_size,
        commit_time := commit_time st + elapsed, max_commit_time := max (max_commit_time st) elapsed\<rparr>"

definition local_commit ::
  "'b shared_ops \<Rightarrow> 'b local_database \<Rightarrow> stats \<Rightarrow> (unit, broken) res \<times> 'b local_database \<times> stats" where
  "local_commit ops db st =
     (case ldb_broken db of
        Some broken \<Rightarrow> (Err broken, db, st)
      | None \<Rightarrow>
          if is_clean (ldb_pages db) then (Ok (), db, st)
          else
            (case sh_moment ops (ldb_bridge db) of (started, sh) \<Rightarrow>
             case dirty_blocks (ldb_pages db) of
               Ok blocks \<Rightarrow>
                 (case bridge_commit ops (ldb_epoch db) (pg_page_count (ldb_pages db)) blocks sh of
                    (Err refusal, sh) \<Rightarrow>
                      let broken = broken_of_refusal refusal in
                      (Err broken, db\<lparr>ldb_bridge := sh, ldb_broken := Some broken\<rparr>, st)
                  | (Ok _, sh) \<Rightarrow>
                      (case sh_moment ops sh of (now, sh) \<Rightarrow>
                         let st = count_commit (length blocks) (pg_page_size (ldb_pages db)) (now - started) st in
                         (case make_room (snd (committed (ldb_pages db))) 0 st of (p, st) \<Rightarrow>
                            (Ok (), db\<lparr>ldb_bridge := sh, ldb_pages := p\<rparr>, st\<lparr>held_blocks := held p\<rparr>)))
                  | (Panic, sh) \<Rightarrow> (Panic, db\<lparr>ldb_bridge := sh\<rparr>, st)
                  | (Hang, sh) \<Rightarrow> (Hang, db\<lparr>ldb_bridge := sh\<rparr>, st))
             | Err e \<Rightarrow> (Err e, db, st)
             | Panic \<Rightarrow> (Panic, db, st)
             | Hang \<Rightarrow> (Hang, db, st)))"

definition local_close :: "'b shared_ops \<Rightarrow> 'b local_database \<Rightarrow> (unit, broken) res \<times> 'b local_database" where
  "local_close ops db =
     (case bridge_close ops (ldb_bridge db) of (r, sh) \<Rightarrow> (r, db\<lparr>ldb_bridge := sh\<rparr>))"

subsection \<open>Loading is a source of blocks\<close>

text \<open>One turn of the loop of \<open>Load::fill\<close>.\<close>

lemma load_loop_cases:
  assumes "load_loop ops (sh, br) p next end st = (r, s', p', st')"
  obtains
    (stop) "end \<le> next" "r = Ok ()" "s' = (sh, br)" "p' = p"
  | (fail) q sh1 where "next < end" "bridge_read ops next (min (max_read (pg_page_size p)) (end - next)) sh = (q, sh1)"
      "fst s' = sh1" "p' = p" "\<not> is_ok r" "r = Panic \<longleftrightarrow> q = Panic"
      "\<And>t. q = Err (NoAnswer t) \<Longrightarrow> snd s' \<noteq> None"
  | (more) n blocks sh1 st1 where "next < end" "n = min (max_read (pg_page_size p)) (end - next)"
      "bridge_read ops next n sh = (Ok blocks, sh1)" "\<forall>d \<in> set blocks. length d = pg_page_size p"
      "load_loop ops (sh1, br) (keep_all p next blocks) (next + n) end st1 = (r, s', p', st')"
proof (cases "next < end")
  case False
  then show thesis
    using assms by (intro stop) (simp_all add: load_loop.simps [of ops sh br p "next" "end" st])
next
  case True
  let ?n = "min (max_read (pg_page_size p)) (end - next)"
  obtain q sh1 where q: "bridge_read ops next ?n sh = (q, sh1)" by (metis prod.exhaust)
  note step = assms [unfolded load_loop.simps [of ops sh br p "next" "end" st] Let_def if_P [OF True] q]
  show thesis
  proof (cases q)
    case (Ok blocks)
    show thesis
    proof (cases "list_ex (\<lambda>d. length d \<noteq> pg_page_size p) blocks")
      case True
      then show thesis
        using step Ok fail [OF \<open>next < end\<close> q] by auto
    next
      case False
      then have "\<forall>d \<in> set blocks. length d = pg_page_size p"
        by (simp add: list_ex_iff)
      then show thesis
        using step Ok False more [OF \<open>next < end\<close> refl, of blocks sh1] q by auto
    qed
  next
    case (Err e)
    then show thesis using step fail [OF True q] by (cases e) auto
  qed (use step fail [OF True q] in auto)
qed

lemma load_loop_loads:
  assumes "worker_sound ops I"
  shows "load_loop ops s p next end st = (r, s', p', st') \<Longrightarrow> I (sh_mem (fst s)) \<Longrightarrow>
    r \<noteq> Panic \<and> I (sh_mem (fst s')) \<and> loads next (end - next) p p'"
proof (induction "end - next" arbitrary: s p "next" st rule: less_induct)
  case less
  obtain sh br where s: "s = (sh, br)" by (cases s)
  from less.prems(1) [unfolded s] show ?case
  proof (cases rule: load_loop_cases)
    case stop
    then show ?thesis using less.prems s by simp
  next
    case (fail q sh1)
    then show ?thesis
      using safeD [OF bridge_read_safe [OF assms] fail(2)] less.prems(2) s by auto
  next
    case (more n blocks sh1 st1)
    have n: "0 < n" "next + n \<le> end"
      using more(1,2) by auto
    have D: "I (sh_mem sh1)" "length blocks = n"
      using safeD [OF bridge_read_safe [OF assms] more(3)] less.prems(2) s by auto
    have rest: "r \<noteq> Panic \<and> I (sh_mem (fst s')) \<and>
        loads (next + n) (end - (next + n)) (keep_all p next blocks) p'"
      using less.hyps [OF _ more(5)] n D(1) by simp
    have "loads next (end - next) p (keep_all p next blocks)"
      using loads_mono [OF loads_keep_all [OF more(4)]] D(2) n by simp
    moreover have "loads next (end - next) (keep_all p next blocks) p'"
      using loads_mono [of "next + n" "end - (next + n)" _ _ "next" "end - next"] rest n by simp
    ultimately show ?thesis
      using rest loads_trans by blast
  qed
qed

text \<open>The invariant of the source: a sound worker and its invariant.\<close>

definition load_good :: "'b shared_ops \<Rightarrow> ('b \<Rightarrow> bool) \<Rightarrow> nat \<Rightarrow> 'b load \<Rightarrow> bool" where
  "load_good ops I ps s \<longleftrightarrow> worker_sound ops I \<and> I (sh_mem (fst s))"

interpretation load: page_source "load_fill ops" "load_good ops I" for ops :: "'b shared_ops" and I
proof
  fix p first count st r p' st' and s s' :: "'b load"
  assume "load_good ops I (pg_page_size p) s" "load_fill ops s p first count st = (r, s', p', st')"
  then show "r \<noteq> Panic \<and> load_good ops I (pg_page_size p) s' \<and> loads first count p p'"
    using load_loop_loads [of ops I s p first "first + count" st r s' p' st']
    by (auto simp: load_good_def load_fill_def split: option.splits)
qed

lemma load_loop_exact:
  assumes "worker_sound ops I" and "worker_serves ops J C (pg_page_size p)"
  shows "load_loop ops s p next end st = (r, s', p', st') \<Longrightarrow> I (sh_mem (fst s)) \<Longrightarrow> end \<le> U64 \<Longrightarrow>
    J (fst s) \<Longrightarrow> (snd s' = None \<longrightarrow> J (fst s')) \<and> C (sh_mem (fst s')) = C (sh_mem (fst s)) \<and>
    (\<forall>i d. block_at p i = None \<and> block_at p' i = Some d \<longrightarrow> d = C (sh_mem (fst s)) i) \<and>
    (r = Ok () \<and> next < end \<longrightarrow> block_at p' next \<noteq> None)"
  using assms(2)
proof (induction "end - next" arbitrary: s p "next" st rule: less_induct)
  case less
  obtain sh br where s: "s = (sh, br)" by (cases s)
  have I: "I (sh_mem sh)" and J: "J sh" using less.prems(2,4) s by simp_all
  from less.prems(1) [unfolded s] show ?case
  proof (cases rule: load_loop_cases)
    case stop
    then show ?thesis using s J by auto
  next
    case (fail q sh1)
    have "q \<noteq> Panic"
      using safeD [OF bridge_read_safe [OF assms(1) I] fail(2)] by blast
    moreover have "0 < min (max_read (pg_page_size p)) (end - next)" "next + min (max_read (pg_page_size p)) (end - next) \<le> U64"
      "min (max_read (pg_page_size p)) (end - next) \<le> max_read (pg_page_size p)"
      using less.prems(3) fail(1) by auto
    ultimately show ?thesis
      using bridge_read_exact [OF less.prems(5) J fail(2)] fail s by auto
  next
    case (more n blocks sh1 st1)
    have n: "0 < n" "next + n \<le> end" "next + n \<le> U64" "n \<le> max_read (pg_page_size p)"
      using more(1,2) less.prems(3) by auto
    have D: "I (sh_mem sh1)" "length blocks = n"
      using safeD [OF bridge_read_safe [OF assms(1) I] more(3)] by auto
    have E: "C (sh_mem sh1) = C (sh_mem sh)" "J sh1" "blocks = map (C (sh_mem sh)) [next..<next + n]"
      using bridge_read_exact [OF less.prems(5) J more(3) n(1,3,4)] by auto
    have new: "block_at (keep_all p next blocks) i =
        (if block_at p i = None \<and> next \<le> i \<and> i < next + n then Some (C (sh_mem sh) i) else block_at p i)" for i
      using E(3) D(2) by (auto simp: block_at_keep_all)
    have shape: "pg_page_size (keep_all p next blocks) = pg_page_size p"
      using loads_keep_all [OF more(4)] same_shapeD(1) by (auto simp: loads_def)
    have "end - (next + n) < end - next" "I (sh_mem (fst (sh1, br)))" "J (fst (sh1, br))"
      "worker_serves ops J C (pg_page_size (keep_all p next blocks))"
      using n more(1) D(1) E(2) less.prems(5) shape by simp_all
    note rest = less.hyps [OF this(1) more(5) this(2) less.prems(3) this(3,4), simplified fst_conv]
    have old: "block_at p' i = Some d" if "block_at (keep_all p next blocks) i = Some d" for i d
      using load_loop_loads [OF assms(1) more(5)] D(1) that by (auto simp: loads_def block_at_def)
    have "d = C (sh_mem sh) i" if "block_at p i = None" "block_at p' i = Some d" for i d
    proof (cases "block_at (keep_all p next blocks) i")
      case None
      then show ?thesis using rest that(2) E(1) by metis
    next
      case (Some d')
      then show ?thesis using old [OF Some] new [of i] that by (simp split: if_splits)
    qed
    moreover have "block_at p' next \<noteq> None"
      using old [of "next"] new [of "next"] n(1) by (cases "block_at p next") simp_all
    ultimately show ?thesis
      using rest E(1) unfolding s fst_conv by metis
  qed
qed

text \<open>After a read that was not answered in time the database is broken, and nothing more is read.\<close>

definition load_serves ::
  "'b shared_ops \<Rightarrow> ('b shared \<Rightarrow> bool) \<Rightarrow> ('b \<Rightarrow> nat \<Rightarrow> bytes) \<Rightarrow> nat \<Rightarrow> 'b load \<Rightarrow> bool" where
  "load_serves ops J C ps s \<longleftrightarrow> worker_serves ops J C ps \<and> (snd s = None \<longrightarrow> J (fst s))"

interpretation load_exact:
  page_source_exact "load_fill ops" "load_good ops I" "\<lambda>ps _. load_serves ops J C ps" "\<lambda>s. C (sh_mem (fst s))"
  for ops :: "'b shared_ops" and I and J and C
proof
  fix p first count st r p' st' and s s' :: "'b load"
  assume s: "load_good ops I (pg_page_size p) s" "load_serves ops J C (pg_page_size p) s"
    "pages_wf p" "0 < count" "first + count \<le> pg_page_count p"
    "load_fill ops s p first count st = (r, s', p', st')"
    "\<forall>i. first \<le> i \<and> i < first + count \<longrightarrow> fmlookup (pg_blocks p) i = None" "pg_page_count p \<le> U64"
  then show "load_serves ops J C (pg_page_size p) s' \<and> C (sh_mem (fst s')) = C (sh_mem (fst s)) \<and>
      (\<forall>i b. fmlookup (pg_blocks p) i = None \<and> fmlookup (pg_blocks p') i = Some b \<longrightarrow>
         blk_data b = C (sh_mem (fst s)) i) \<and>
      (r = Ok () \<longrightarrow> fmlookup (pg_blocks p') first = None \<longrightarrow>
         C (sh_mem (fst s)) first = zeros (pg_page_size p))"
    using load_loop_exact [of ops I J C p s first "first + count" st r s' p' st']
    by (auto simp: load_serves_def load_good_def load_fill_def block_at_def split: option.splits)
next
  fix ps i and s :: "'b load"
  assume "load_serves ops J C ps s"
  then show "length (C (sh_mem (fst s)) i) = ps"
    using worker_servesD(3) by (auto simp: load_serves_def)
qed

end
