(* ===== verification/Worker.thy ===== *)
theory Worker
  imports Local_Database
begin

text \<open>
  The connection worker's side of the bridge for databases kept in the browser
  (\<open>connection-worker.js\<close>, the \<open>OP_LOCAL\<close> requests): the shared memory, the requests it decodes and
  the IndexedDB databases it keeps.  \<open>worker_ops\<close> is the shared memory as the SQLite worker sees it:
  the worker runs when the SQLite worker waits.

  IndexedDB transactions are atomic; whether the next one fails, and how, is read from a list of
  faults in the state, so every sequence of failures is covered.  Web Locks that other instances
  hold are a set of names.
\<close>

subsection \<open>Stored databases\<close>

record store_head =
  st_page_size :: nat
  st_page_count :: nat
  st_epoch :: nat

record local_store =
  ls_head :: "store_head option"
  ls_blocks :: "(nat, bytes) fmap"

definition empty_store :: local_store where
  "empty_store = \<lparr>ls_head = None, ls_blocks = fmempty\<rparr>"

text \<open>Why a job fails, with the text of the error: the storage quota, or anything else.\<close>

datatype fault = Quota_fault bytes | Other_fault bytes

definition ascii :: "string \<Rightarrow> bytes" where
  "ascii = map of_char"

record open_local =
  ol_name :: rstring
  ol_page_size :: nat
  ol_epoch :: nat
  ol_lost :: bool
  ol_closed :: bool

record worker_mem =
  wm_slots :: "int list"
  wm_request :: bytes
  wm_answer :: bytes
  wm_clock :: nat
  wm_stores :: "(rstring, local_store) fmap"
  wm_locks :: "rstring fset"
  wm_local :: "open_local option"
  wm_pending :: "(nat \<times> bytes) list"
  wm_faults :: "fault option list"

text \<open>\<open>control\<close> is an \<open>Int32Array\<close>: values wrap at 32 bits.\<close>

definition int32 :: "int \<Rightarrow> int" where
  "int32 v = (v + 2147483648) mod 4294967296 - 2147483648"

definition slot_get :: "nat \<Rightarrow> worker_mem \<Rightarrow> int" where
  "slot_get slot m = (if slot < length (wm_slots m) then wm_slots m ! slot else 0)"

definition slot_set :: "nat \<Rightarrow> int \<Rightarrow> worker_mem \<Rightarrow> worker_mem" where
  "slot_set slot v m = m\<lparr>wm_slots := (wm_slots m)[slot := int32 v]\<rparr>"

definition region_of :: "worker_mem \<Rightarrow> bytes" where
  "region_of m = wm_answer m @ zeros (CAPACITY - length (wm_answer m))"

definition put_answer :: "int \<Rightarrow> bytes \<Rightarrow> worker_mem \<Rightarrow> worker_mem" where
  "put_answer kind bs m =
     (let len = min (length bs) CAPACITY;
          m = (if len > 0 then m\<lparr>wm_answer := take len bs @ drop len (wm_answer m)\<rparr> else m);
          m = slot_set ANSWER_LENGTH (int len) m;
          m = slot_set KIND kind m
      in slot_set ANSWER (slot_get ANSWER m + 1) m)"

subsection \<open>Transactions\<close>

text \<open>The fault of the next call of the browser's storage or of its locks.\<close>

definition next_fault :: "worker_mem \<Rightarrow> fault option \<times> worker_mem" where
  "next_fault m = (case wm_faults m of [] \<Rightarrow> (None, m) | f # fs \<Rightarrow> (f, m\<lparr>wm_faults := fs\<rparr>))"

definition store_of :: "rstring \<Rightarrow> worker_mem \<Rightarrow> local_store" where
  "store_of name m = (case fmlookup (wm_stores m) name of Some s \<Rightarrow> s | None \<Rightarrow> empty_store)"

fun fault_kind :: "fault \<Rightarrow> int" where
  "fault_kind (Quota_fault _) = KIND_FULL"
| "fault_kind (Other_fault _) = KIND_ERROR"

fun fault_text :: "fault \<Rightarrow> bytes" where
  "fault_text (Quota_fault msg) = msg"
| "fault_text (Other_fault msg) = msg"

text \<open>\<open>answerLocal\<close>: a failed job is answered with its error.\<close>

definition answer_fault :: "fault \<Rightarrow> worker_mem \<Rightarrow> worker_mem" where
  "answer_fault f m = put_answer (fault_kind f) (ascii ''local database: '' @ fault_text f) m"

text \<open>
  \<open>acquire\<close>: whether the lock was taken.  \<open>wm_locks\<close> are the locks other instances hold; stealing one
  takes it from them.
\<close>

definition acquire :: "rstring \<Rightarrow> bool \<Rightarrow> worker_mem \<Rightarrow> (bool, fault) res \<times> worker_mem" where
  "acquire name steal m =
     (case next_fault m of
        (Some f, m) \<Rightarrow> (Err f, m)
      | (None, m) \<Rightarrow>
          if steal then (Ok True, m\<lparr>wm_locks := wm_locks m |-| {|name|}\<rparr>)
          else (Ok (name |\<notin>| wm_locks m), m))"

text \<open>\<open>localOpen\<close>: take the lock, then increment the epoch in one transaction.\<close>

definition opened_bytes :: "store_head \<Rightarrow> bytes" where
  "opened_bytes h = to_le_bytes 4 (st_page_size h) @ to_le_bytes 8 (st_page_count h) @ to_le_bytes 8 (st_epoch h)"

definition next_head :: "nat \<Rightarrow> bool \<Rightarrow> store_head option \<Rightarrow> store_head option" where
  "next_head page_size create found =
     (case found of
        None \<Rightarrow> if create then Some \<lparr>st_page_size = page_size, st_page_count = 0, st_epoch = 1\<rparr> else None
      | Some h \<Rightarrow> Some (h\<lparr>st_epoch := st_epoch h + 1\<rparr>))"

definition worker_open :: "rstring \<Rightarrow> nat \<Rightarrow> bool \<Rightarrow> bool \<Rightarrow> worker_mem \<Rightarrow> worker_mem" where
  "worker_open name page_size create takeover m =
     (if wm_local m \<noteq> None then answer_fault (Other_fault (ascii ''Error: already open'')) m
      else
        (case acquire name takeover m of
           (Err f, m) \<Rightarrow> answer_fault f m
         | (Ok False, m) \<Rightarrow> put_answer KIND_BUSY [] m
         | (Ok True, m) \<Rightarrow>
             (case next_fault m of
                (Some f, m) \<Rightarrow> answer_fault f m
              | (None, m) \<Rightarrow>
                  let s = store_of name m in
                  (case next_head page_size create (ls_head s) of
                     None \<Rightarrow>
                       (case next_fault m of
                          (Some f, m) \<Rightarrow> answer_fault f m
                        | (None, m) \<Rightarrow>
                            put_answer KIND_NOTHING [] (m\<lparr>wm_stores := fmdrop name (wm_stores m)\<rparr>))
                   | Some h \<Rightarrow>
                       put_answer KIND_FRAME (opened_bytes h)
                         (m\<lparr>wm_stores := fmupd name (s\<lparr>ls_head := Some h\<rparr>) (wm_stores m),
                            wm_local := Some \<lparr>ol_name = name, ol_page_size = st_page_size h,
                              ol_epoch = st_epoch h, ol_lost = False, ol_closed = False\<rparr>\<rparr>)))
         | (_, m) \<Rightarrow> m))"

text \<open>\<open>localDatabase\<close>: the open database, unless this instance lost it.\<close>

definition has_database :: "open_local \<Rightarrow> bool" where
  "has_database l \<longleftrightarrow> \<not> ol_lost l \<and> \<not> ol_closed l"

text \<open>The answer of \<open>localRead\<close>: a block that was never written stays zero.\<close>

definition stored_block :: "nat \<Rightarrow> local_store \<Rightarrow> nat \<Rightarrow> bytes" where
  "stored_block ps s i = (case fmlookup (ls_blocks s) i of Some d \<Rightarrow> d | None \<Rightarrow> zeros ps)"

definition worker_read :: "nat \<Rightarrow> nat \<Rightarrow> worker_mem \<Rightarrow> worker_mem" where
  "worker_read first count m =
     (case wm_local m of
        None \<Rightarrow> answer_fault (Other_fault (ascii ''Error: no local database is open'')) m
      | Some l \<Rightarrow>
          if \<not> has_database l then put_answer KIND_BUSY [] m
          else
            (case next_fault m of
               (Some f, m) \<Rightarrow> answer_fault f m
             | (None, m) \<Rightarrow>
                 let n = ol_page_size l;
                     blocks = map (stored_block n (store_of (ol_name l) m)) [first..<first + count]
                 in if list_ex (\<lambda>d. length d \<noteq> n) blocks then answer_fault (Other_fault (ascii ''Error: block has another size'')) m
                    else put_answer KIND_FRAME (to_le_bytes 4 n @ concat blocks) m))"

text \<open>\<open>localCommit\<close>: check the epoch, write the blocks and the page count, in one transaction.\<close>

definition commit_store :: "nat \<Rightarrow> nat \<Rightarrow> (nat \<times> bytes) list \<Rightarrow> local_store \<Rightarrow> local_store option" where
  "commit_store epoch page_count blocks s =
     (case ls_head s of
        Some h \<Rightarrow>
          if st_epoch h = epoch
          then Some \<lparr>ls_head = Some (h\<lparr>st_page_count := page_count\<rparr>),
                     ls_blocks = fmfilter (\<lambda>i. i < page_count)
                       (fold (\<lambda>(i, d). fmupd i d) blocks (ls_blocks s))\<rparr>
          else None
      | None \<Rightarrow> None)"

definition worker_commit :: "nat \<Rightarrow> nat \<Rightarrow> (nat \<times> bytes) list \<Rightarrow> worker_mem \<Rightarrow> worker_mem" where
  "worker_commit epoch page_count blocks m =
     (case wm_local m of
        None \<Rightarrow> answer_fault (Other_fault (ascii ''Error: no local database is open'')) m
      | Some l \<Rightarrow>
          if \<not> has_database l then put_answer KIND_BUSY [] m
          else
            (case next_fault m of
               (Some f, m) \<Rightarrow> answer_fault f m
             | (None, m) \<Rightarrow>
                 (case commit_store epoch page_count blocks (store_of (ol_name l) m) of
                    None \<Rightarrow> put_answer KIND_BUSY [] m
                  | Some s \<Rightarrow>
                      put_answer KIND_DONE [] (m\<lparr>wm_stores := fmupd (ol_name l) s (wm_stores m)\<rparr>))))"

definition worker_close :: "worker_mem \<Rightarrow> worker_mem" where
  "worker_close m = put_answer KIND_DONE [] (m\<lparr>wm_local := None\<rparr>)"

definition worker_delete :: "rstring \<Rightarrow> bool \<Rightarrow> worker_mem \<Rightarrow> worker_mem" where
  "worker_delete name takeover m =
     (if (case wm_local m of Some l \<Rightarrow> ol_name l = name | None \<Rightarrow> False) then answer_fault (Other_fault (ascii ''Error: is open'')) m
      else
        (case acquire name takeover m of
           (Err f, m) \<Rightarrow> answer_fault f m
         | (Ok False, m) \<Rightarrow> put_answer KIND_BUSY [] m
         | (Ok True, m) \<Rightarrow>
             (case next_fault m of
                (Some f, m) \<Rightarrow> answer_fault f m
              | (None, m) \<Rightarrow> put_answer KIND_DONE [] (m\<lparr>wm_stores := fmdrop name (wm_stores m)\<rparr>))
         | (_, m) \<Rightarrow> m))"

subsection \<open>Requests\<close>

text \<open>The number of \<open>k\<close> bytes at a position; reading past the end throws, and no answer is sent.\<close>

definition get_uint :: "nat \<Rightarrow> bytes \<Rightarrow> nat \<Rightarrow> nat option" where
  "get_uint k bs at = map_option from_le_bytes (get_slice bs at k)"

text \<open>
  The blocks of a piece.  \<open>chunk.slice\<close> clips at the end, so a block may come out shorter than its
  length says.
\<close>

primrec parse_blocks :: "nat \<Rightarrow> bytes \<Rightarrow> nat \<Rightarrow> (nat \<times> bytes) list option" where
  "parse_blocks 0 chunk at = Some []"
| "parse_blocks (Suc n) chunk at =
     Option.bind (get_uint 8 chunk at) (\<lambda>index.
     Option.bind (get_uint 4 chunk (at + 8)) (\<lambda>len.
     map_option ((#) (index, sub_slice chunk (at + 12) len)) (parse_blocks n chunk (at + 12 + len))))"

definition decode_name :: "bytes \<Rightarrow> rstring" where
  "decode_name bs =
     (let s = from_utf8_lossy bs in if take 3 s = [0xEF, 0xBB, 0xBF] then drop 3 s else s)"

definition worker_piece :: "bytes \<Rightarrow> worker_mem \<Rightarrow> worker_mem" where
  "worker_piece chunk m =
     (case (get_uint 4 chunk 0, get_uint 8 chunk 4, get_uint 8 chunk 12, get_uint 4 chunk 20) of
        (Some flags, Some epoch, Some page_count, Some count) \<Rightarrow>
          let m = (if flags mod 2 = 1 then m\<lparr>wm_pending := []\<rparr> else m) in
          (case parse_blocks count chunk 24 of
             None \<Rightarrow> m
           | Some blocks \<Rightarrow>
               let pending = wm_pending m @ blocks in
               if flags div 2 mod 2 = 0 then put_answer KIND_DONE [] (m\<lparr>wm_pending := pending\<rparr>)
               else worker_commit epoch page_count pending (m\<lparr>wm_pending := []\<rparr>))
      | _ \<Rightarrow> m)"

text \<open>\<open>work\<close> for the requests of local databases; the other requests are not served here.\<close>

definition worker_work :: "worker_mem \<Rightarrow> worker_mem" where
  "worker_work m =
     (let op = slot_get OP m; chunk = take (nat (slot_get REQUEST_LENGTH m)) (wm_request m) in
      if op = OP_LOCAL_OPEN then
        (case (get_uint 4 chunk 0, get_uint 4 chunk 4) of
           (Some flags, Some page_size) \<Rightarrow>
             worker_open (decode_name (drop 8 chunk)) page_size (flags mod 2 = 1) (flags div 2 mod 2 = 1) m
         | _ \<Rightarrow> m)
      else if op = OP_LOCAL_READ then
        (case (get_uint 8 (wm_request m) 0, get_uint 8 (wm_request m) 8) of
           (Some first, Some count) \<Rightarrow> worker_read first count m
         | _ \<Rightarrow> m)
      else if op = OP_LOCAL_COMMIT then worker_piece chunk m
      else if op = OP_LOCAL_CLOSE then worker_close m
      else if op = OP_LOCAL_DELETE then
        (case get_uint 4 chunk 0 of
           Some flags \<Rightarrow> worker_delete (decode_name (drop 4 chunk)) (flags div 2 mod 2 = 1) m
         | None \<Rightarrow> m)
      else m)"

definition worker_take :: "worker_mem \<Rightarrow> worker_mem" where
  "worker_take m = (if slot_get REQUEST m = 1 then worker_work (slot_set REQUEST 0 m) else m)"

text \<open>The shared memory with this worker behind it.\<close>

definition worker_ops :: "nat \<Rightarrow> worker_mem shared_ops" where
  "worker_ops turns =
     \<lparr>sh_store = (\<lambda>slot v m. (Ok (), slot_set slot v m)),
      sh_load = (\<lambda>slot m. (Ok (slot_get slot m), m)),
      sh_notify = (\<lambda>slot m. (Ok (), m)),
      sh_wait = (\<lambda>slot v t m. worker_take (m\<lparr>wm_clock := wm_clock m + 1\<rparr>)),
      sh_now = (\<lambda>m. (wm_clock m, m)),
      sh_put = (\<lambda>bs m. m\<lparr>wm_request := bs @ drop (length bs) (wm_request m)\<rparr>),
      sh_region = region_of,
      sh_turns = turns\<rparr>"

subsection \<open>The worker keeps its answers within the answer region\<close>

definition worker_inv :: "worker_mem \<Rightarrow> bool" where
  "worker_inv m \<longleftrightarrow> length (wm_slots m) = 9 \<and> length (wm_answer m) \<le> CAPACITY \<and>
     slot_get ANSWER_LENGTH m \<le> int CAPACITY"

lemma int32_id [simp]: "-2147483648 \<le> v \<Longrightarrow> v < 2147483648 \<Longrightarrow> int32 v = v"
  by (simp add: int32_def)

lemma slot_get_set:
  "slot_get i (slot_set j v m) = (if i = j \<and> j < length (wm_slots m) then int32 v else slot_get i m)"
  by (simp add: slot_get_def slot_set_def)

lemma slot_set_frame [simp]:
  "wm_request (slot_set i v m) = wm_request m" "wm_answer (slot_set i v m) = wm_answer m"
  "wm_clock (slot_set i v m) = wm_clock m" "wm_stores (slot_set i v m) = wm_stores m"
  "wm_locks (slot_set i v m) = wm_locks m" "wm_local (slot_set i v m) = wm_local m"
  "wm_pending (slot_set i v m) = wm_pending m" "wm_faults (slot_set i v m) = wm_faults m"
  "length (wm_slots (slot_set i v m)) = length (wm_slots m)"
  by (simp_all add: slot_set_def)

lemma slot_get_frame [simp]:
  "slot_get i (m\<lparr>wm_request := a\<rparr>) = slot_get i m" "slot_get i (m\<lparr>wm_answer := b\<rparr>) = slot_get i m"
  "slot_get i (m\<lparr>wm_clock := c\<rparr>) = slot_get i m" "slot_get i (m\<lparr>wm_stores := d\<rparr>) = slot_get i m"
  "slot_get i (m\<lparr>wm_locks := e\<rparr>) = slot_get i m" "slot_get i (m\<lparr>wm_local := f\<rparr>) = slot_get i m"
  "slot_get i (m\<lparr>wm_pending := g\<rparr>) = slot_get i m" "slot_get i (m\<lparr>wm_faults := h\<rparr>) = slot_get i m"
  by (simp_all add: slot_get_def)

lemmas slot_defs = ANSWER_def KIND_def ANSWER_LENGTH_def REQUEST_def OP_def REQUEST_LENGTH_def

lemma put_answer_frame [simp]:
  "wm_request (put_answer k bs m) = wm_request m" "wm_clock (put_answer k bs m) = wm_clock m"
  "wm_stores (put_answer k bs m) = wm_stores m" "wm_locks (put_answer k bs m) = wm_locks m"
  "wm_local (put_answer k bs m) = wm_local m" "wm_pending (put_answer k bs m) = wm_pending m"
  "wm_faults (put_answer k bs m) = wm_faults m"
  "length (wm_slots (put_answer k bs m)) = length (wm_slots m)"
  by (simp_all add: put_answer_def Let_def)

lemma put_answer_slots:
  assumes "length (wm_slots m) = 9" and "-2147483648 \<le> k" and "k < 2147483648"
  shows "slot_get ANSWER_LENGTH (put_answer k bs m) = int (min (length bs) CAPACITY)"
    and "slot_get KIND (put_answer k bs m) = k"
    and "slot_get ANSWER (put_answer k bs m) = int32 (slot_get ANSWER m + 1)"
  using assms
  by (simp_all add: put_answer_def Let_def slot_get_set slot_defs CAPACITY_def)

lemma put_answer_region:
  assumes "length bs \<le> CAPACITY" and "length (wm_answer m) \<le> CAPACITY"
  shows "take (length bs) (region_of (put_answer k bs m)) = bs"
  using assms by (cases "bs = []") (simp_all add: region_of_def put_answer_def Let_def)

lemma worker_inv_put_answer [simp]:
  assumes "worker_inv m"
  shows "worker_inv (put_answer k bs m)"
proof -
  have "length (wm_answer (put_answer k bs m)) \<le> CAPACITY"
    using assms by (auto simp: put_answer_def Let_def worker_inv_def min_def)
  moreover have "slot_get ANSWER_LENGTH (put_answer k bs m) = int (min (length bs) CAPACITY)"
    using assms by (simp add: put_answer_def Let_def slot_get_set slot_defs CAPACITY_def worker_inv_def)
  ultimately show ?thesis
    using assms by (simp add: worker_inv_def)
qed

lemma worker_inv_frame [simp]:
  "worker_inv (m\<lparr>wm_request := a\<rparr>) = worker_inv m" "worker_inv (m\<lparr>wm_clock := c\<rparr>) = worker_inv m"
  "worker_inv (m\<lparr>wm_stores := d\<rparr>) = worker_inv m" "worker_inv (m\<lparr>wm_locks := e\<rparr>) = worker_inv m"
  "worker_inv (m\<lparr>wm_local := f\<rparr>) = worker_inv m" "worker_inv (m\<lparr>wm_pending := g\<rparr>) = worker_inv m"
  "worker_inv (m\<lparr>wm_faults := h\<rparr>) = worker_inv m"
  by (simp_all add: worker_inv_def)

lemma next_fault_inv: "next_fault m = (f, m') \<Longrightarrow> worker_inv m' = worker_inv m"
  by (auto simp: next_fault_def split: list.splits)

lemma acquire_inv: "acquire name steal m = (r, m') \<Longrightarrow> worker_inv m' = worker_inv m"
  by (auto simp: acquire_def split: option.splits prod.splits if_splits dest: next_fault_inv)

lemma worker_inv_slot_set: "worker_inv m \<Longrightarrow> slot \<noteq> ANSWER_LENGTH \<Longrightarrow> worker_inv (slot_set slot v m)"
  by (simp add: worker_inv_def slot_get_set)

lemma worker_inv_ops:
  assumes "worker_inv m"
  shows "worker_inv (worker_open name ps create takeover m)" and "worker_inv (worker_read first count m)"
    and "worker_inv (worker_commit epoch pc blocks m)" and "worker_inv (worker_close m)"
    and "worker_inv (worker_delete name takeover m)"
  using assms
  by (auto simp: worker_open_def worker_read_def worker_commit_def worker_close_def worker_delete_def
      answer_fault_def Let_def split: option.splits prod.splits res.splits bool.splits
      dest!: next_fault_inv acquire_inv)

lemma worker_inv_piece: "worker_inv m \<Longrightarrow> worker_inv (worker_piece chunk m)"
  by (auto simp: worker_piece_def Let_def worker_inv_ops split: option.splits)

lemma worker_inv_take: "worker_inv m \<Longrightarrow> worker_inv (worker_take m)"
  by (auto simp: worker_take_def worker_work_def Let_def worker_inv_ops worker_inv_piece
      worker_inv_slot_set slot_defs split: option.splits)

lemma worker_ops_sound: "worker_sound (worker_ops turns) worker_inv"
  by (auto simp: worker_sound_def worker_ops_def worker_inv_slot_set worker_inv_take region_of_def)
    (auto simp: worker_inv_def)

subsection \<open>The worker serves the blocks it stores\<close>

text \<open>Block \<open>i\<close> of the open database; a stored block of another size is never sent.\<close>

definition worker_block :: "nat \<Rightarrow> worker_mem \<Rightarrow> nat \<Rightarrow> bytes" where
  "worker_block ps m i =
     (case wm_local m of
        Some l \<Rightarrow>
          let d = stored_block ps (store_of (ol_name l) m) i in if length d = ps then d else zeros ps
      | None \<Rightarrow> zeros ps)"

definition worker_idle :: "nat \<Rightarrow> worker_mem shared \<Rightarrow> bool" where
  "worker_idle ps sh \<longleftrightarrow> worker_inv (sh_mem sh) \<and> slot_get ANSWER (sh_mem sh) = sh_seen sh \<and>
     0 < sh_timeout sh \<and> (\<forall>l. wm_local (sh_mem sh) = Some l \<longrightarrow> ol_page_size l = ps)"

lemma int32_succ: "int32 (x + 1) \<noteq> x"
proof
  define y where "y = x + 2147483648"
  assume "int32 (x + 1) = x"
  then have y: "(y + 1) mod 4294967296 = y"
    by (simp add: int32_def y_def algebra_simps)
  then have "0 \<le> y" "y < 4294967296"
    using pos_mod_sign [of 4294967296 "y + 1"] pos_mod_bound [of 4294967296 "y + 1"] by linarith+
  then show False
    using y by (cases "y + 1 = 4294967296") simp_all
qed

lemma worker_ops_simps [simp]:
  "slot_store (worker_ops t) slot v sh = (Ok (), sh\<lparr>sh_mem := slot_set slot v (sh_mem sh)\<rparr>)"
  "slot_load (worker_ops t) slot sh = (Ok (slot_get slot (sh_mem sh)), sh)"
  "on_mem (sh_notify (worker_ops t) slot) sh = (Ok (), sh)"
  "on_mem (sh_now (worker_ops t)) sh = (wm_clock (sh_mem sh), sh)"
  "sh_wait (worker_ops t) slot v n m = worker_take (m\<lparr>wm_clock := wm_clock m + 1\<rparr>)"
  "sh_region (worker_ops t) = region_of" "sh_turns (worker_ops t) = t"
  by (simp_all add: worker_ops_def slot_store_def slot_load_def on_mem_def)

lemma slots_distinct [simp]:
  "ANSWER \<noteq> OP" "ANSWER \<noteq> REQUEST" "ANSWER \<noteq> REQUEST_LENGTH" "REQUEST \<noteq> OP" "REQUEST \<noteq> REQUEST_LENGTH"
  "REQUEST_LENGTH \<noteq> OP" "OP \<noteq> REQUEST" "OP \<noteq> REQUEST_LENGTH" "REQUEST_LENGTH \<noteq> REQUEST"
  "REQUEST < 9" "REQUEST_LENGTH < 9" "OP < 9"
  by (simp_all add: slot_defs)

text \<open>The state of the shared memory when the worker has handled a request.\<close>

definition worker_served :: "int \<Rightarrow> nat \<Rightarrow> worker_mem \<Rightarrow> worker_mem" where
  "worker_served op n m =
     worker_take ((slot_set REQUEST 1 (slot_set REQUEST_LENGTH (int n) (slot_set OP op m)))
       \<lparr>wm_clock := wm_clock m + 1\<rparr>)"

lemma nat_max_eq: "nat (max v 0) = nat v"
  by simp

lemma worker_ask:
  assumes "length (wm_slots (sh_mem sh)) = 9" and "slot_get ANSWER (sh_mem sh) = sh_seen sh"
    and "0 < sh_timeout sh" and "slot_get ANSWER (worker_served op n (sh_mem sh)) \<noteq> sh_seen sh"
  shows "ask (worker_ops (Suc (Suc t))) op n sh =
    (let m = worker_served op n (sh_mem sh) in
     (Ok (slot_get KIND m, nat (slot_get ANSWER_LENGTH m)),
      sh\<lparr>sh_mem := m, sh_seen := slot_get ANSWER m\<rparr>))"
  using assms by (simp add: ask_def slot_get_set worker_served_def Let_def nat_max_eq)

lemma request_roundtrip:
  assumes "first < 256 ^ 8" and "count < 256 ^ 8"
  shows "get_uint 8 (to_le_bytes 8 first @ to_le_bytes 8 count @ rest) 0 = Some first"
    and "get_uint 8 (to_le_bytes 8 first @ to_le_bytes 8 count @ rest) 8 = Some count"
  using assms by (simp_all add: get_uint_def get_slice_def sub_slice_def)

lemma worker_served_read:
  assumes "length (wm_slots m) = 9" and "first < 256 ^ 8" and "count < 256 ^ 8"
    and "wm_request m = to_le_bytes 8 first @ to_le_bytes 8 count @ rest"
  obtains m' where "worker_served OP_LOCAL_READ 16 m = worker_read first count m'"
    and "wm_local m' = wm_local m" and "wm_stores m' = wm_stores m" and "worker_inv m' = worker_inv m"
    and "slot_get ANSWER m' = slot_get ANSWER m"
proof
  let ?m = "slot_set REQUEST 0 ((slot_set REQUEST 1 (slot_set REQUEST_LENGTH 16 (slot_set OP OP_LOCAL_READ m)))
       \<lparr>wm_clock := wm_clock m + 1\<rparr>)"
  have op: "int32 OP_LOCAL_READ = OP_LOCAL_READ" "OP_LOCAL_READ \<noteq> OP_LOCAL_OPEN"
    by (simp_all add: OP_LOCAL_READ_def OP_LOCAL_OPEN_def)
  show "worker_served OP_LOCAL_READ 16 m = worker_read first count ?m"
    using assms request_roundtrip [OF assms(2,3), of rest]
    by (simp add: worker_served_def worker_take_def worker_work_def slot_get_set op)
  show "worker_inv ?m = worker_inv m"
    by (simp add: worker_inv_def slot_get_set slot_defs)
  show "slot_get ANSWER ?m = slot_get ANSWER m"
    by (simp add: slot_get_set)
qed simp_all

lemma next_fault_frame:
  assumes "next_fault m = (f, m')"
  shows "wm_local m' = wm_local m" "wm_stores m' = wm_stores m" "slot_get i m' = slot_get i m"
    "wm_slots m' = wm_slots m" "wm_answer m' = wm_answer m"
  using assms by (auto simp: next_fault_def split: list.splits)

lemmas kind_defs = KIND_FRAME_def KIND_ERROR_def KIND_DONE_def KIND_NOTHING_def KIND_BUSY_def KIND_FULL_def

lemma fault_kind_range: "fault_kind f \<noteq> KIND_FRAME" "-2147483648 \<le> fault_kind f" "fault_kind f < 2147483648"
  by (cases f; simp add: kind_defs)+

text \<open>A read is always answered, changes nothing stored, and a frame holds the blocks.\<close>

lemma worker_read_spec:
  assumes "worker_inv m" and "\<forall>l. wm_local m = Some l \<longrightarrow> ol_page_size l = ps"
    and "4 + ps * count \<le> CAPACITY"
  shows "wm_local (worker_read first count m) = wm_local m"
    and "wm_stores (worker_read first count m) = wm_stores m"
    and "slot_get ANSWER (worker_read first count m) = int32 (slot_get ANSWER m + 1)"
    and "slot_get KIND (worker_read first count m) = KIND_FRAME \<Longrightarrow>
      take (nat (slot_get ANSWER_LENGTH (worker_read first count m))) (region_of (worker_read first count m)) =
        to_le_bytes 4 ps @ concat (map (worker_block ps m) [first..<first + count])"
proof -
  have len: "length (wm_slots m) = 9" "length (wm_answer m) \<le> CAPACITY"
    using assms(1) by (simp_all add: worker_inv_def)
  obtain f m1 where f: "next_fault m = (f, m1)" by (metis prod.exhaust)
  note F = next_fault_frame [OF f]
  have k: "-2147483648 \<le> KIND_BUSY" "KIND_BUSY < 2147483648" "-2147483648 \<le> KIND_FRAME" "KIND_FRAME < 2147483648"
    "KIND_BUSY \<noteq> KIND_FRAME"
    by (simp_all add: kind_defs)
  show "wm_local (worker_read first count m) = wm_local m" "wm_stores (worker_read first count m) = wm_stores m"
    "slot_get ANSWER (worker_read first count m) = int32 (slot_get ANSWER m + 1)"
    using F len k fault_kind_range
    by (auto simp: worker_read_def f answer_fault_def Let_def put_answer_slots
        simp del: fault_kind.simps split: option.split)
  assume kind: "slot_get KIND (worker_read first count m) = KIND_FRAME"
  obtain l where l: "wm_local m = Some l" "has_database l" "f = None"
    and sizes: "\<forall>d \<in> set (map (stored_block (ol_page_size l) (store_of (ol_name l) m1)) [first..<first + count]).
      length d = ol_page_size l"
    using kind F len k fault_kind_range
    by (auto simp: worker_read_def f answer_fault_def Let_def put_answer_slots list_ex_iff
        simp del: fault_kind.simps split: option.splits if_splits)
  let ?blocks = "map (stored_block ps (store_of (ol_name l) m1)) [first..<first + count]"
  have ps: "ol_page_size l = ps" using assms(2) l(1) by simp
  have store: "store_of (ol_name l) m1 = store_of (ol_name l) m"
    using F(2) by (simp add: store_of_def)
  have blocks: "?blocks = map (worker_block ps m) [first..<first + count]"
    using sizes ps l(1) by (auto simp: worker_block_def store Let_def)
  have "length (concat ?blocks) = count * ps"
    using length_concat_blocks [of ?blocks ps] sizes ps by simp
  then have fits: "length (to_le_bytes 4 ps @ concat ?blocks) \<le> CAPACITY"
    using assms(3) by (simp add: mult.commute)
  have frame_length: "nat (slot_get ANSWER_LENGTH (put_answer KIND_FRAME (to_le_bytes 4 ps @ concat ?blocks) m1)) =
      length (to_le_bytes 4 ps @ concat ?blocks)"
    using put_answer_slots(1) [of m1 KIND_FRAME "to_le_bytes 4 ps @ concat ?blocks"] fits F len k
    by (simp only: min_absorb1 nat_int)
  have "worker_read first count m = put_answer KIND_FRAME (to_le_bytes 4 ps @ concat ?blocks) m1"
    using l ps sizes f by (auto simp: worker_read_def Let_def list_ex_iff)
  then show "take (nat (slot_get ANSWER_LENGTH (worker_read first count m))) (region_of (worker_read first count m)) =
      to_le_bytes 4 ps @ concat (map (worker_block ps m) [first..<first + count])"
    using put_answer_region [OF fits, of m1 KIND_FRAME] frame_length F len
    unfolding blocks by simp
qed

lemma max_read_fits: "0 < ps \<Longrightarrow> ps \<le> MAX_PAGE_SIZE \<Longrightarrow> 4 + ps * max_read ps \<le> CAPACITY"
proof -
  assume ps: "0 < ps" "ps \<le> MAX_PAGE_SIZE"
  then have "1 \<le> (CAPACITY - 4) div ps"
    using div_greater_zero_iff [of "CAPACITY - 4" ps] by (simp add: CAPACITY_def MAX_PAGE_SIZE_def)
  then have "max_read ps = (CAPACITY - 4) div ps"
    using ps by (simp add: max_read_def)
  moreover have "ps * ((CAPACITY - 4) div ps) \<le> CAPACITY - 4"
    by simp
  ultimately show ?thesis
    by (simp add: CAPACITY_def)
qed

lemma max_read_bound: "max_read ps < 256 ^ 8"
proof -
  have "(CAPACITY - 4) div max ps 1 \<le> CAPACITY - 4" "1 \<le> CAPACITY"
    by (rule div_le_dividend, simp add: CAPACITY_def)
  then have "max_read ps \<le> CAPACITY"
    unfolding max_read_def by linarith
  then show ?thesis by (simp add: CAPACITY_def)
qed

lemma worker_local_ask:
  "local_ask ops op n sh = (r, sh') \<longleftrightarrow> (\<exists>q. ask ops op n sh = (q, sh') \<and> r = map_err NoAnswer q)"
  by (cases "ask ops op n sh") (auto simp: local_ask_def)

theorem worker_ops_serves:
  assumes "0 < ps" and "ps \<le> MAX_PAGE_SIZE"
  shows "worker_serves (worker_ops (Suc (Suc t))) (worker_idle ps) (worker_block ps) ps"
proof -
  have "C (sh_mem sh') = C (sh_mem sh) \<and> r \<noteq> Hang \<and> (is_ok r \<longrightarrow> worker_idle ps sh') \<and>
      (\<forall>len. r = Ok (KIND_FRAME, len) \<longrightarrow> take len (region_of (sh_mem sh')) =
         to_le_bytes 4 ps @ concat (map (C (sh_mem sh)) [first..<first + count]))"
    if idle: "worker_idle ps sh" and pos: "0 < count" and u64: "first + count \<le> U64" and count: "count \<le> max_read ps"
      and a: "local_ask (worker_ops (Suc (Suc t))) OP_LOCAL_READ 16
        (put_request (worker_ops (Suc (Suc t))) (to_le_bytes 8 first @ to_le_bytes 8 count) sh) = (r, sh')"
      and C: "C = worker_block ps"
    for sh first count r sh' C
  proof -
    let ?req = "to_le_bytes 8 first @ to_le_bytes 8 count"
    let ?sh = "put_request (worker_ops (Suc (Suc t))) ?req sh"
    have inv: "worker_inv (sh_mem ?sh)" "slot_get ANSWER (sh_mem ?sh) = sh_seen ?sh" "0 < sh_timeout ?sh"
      "\<forall>l. wm_local (sh_mem ?sh) = Some l \<longrightarrow> ol_page_size l = ps"
      using idle by (simp_all add: worker_idle_def put_request_def worker_ops_def)
    have bounds: "first < 256 ^ 8" "count < 256 ^ 8"
      using u64 pos count max_read_bound [of ps] by (simp_all add: U64_def)
    have "wm_request (sh_mem ?sh) = to_le_bytes 8 first @ to_le_bytes 8 count @ drop 16 (wm_request (sh_mem sh))"
      by (simp add: put_request_def worker_ops_def)
    then obtain m' where m': "worker_served OP_LOCAL_READ 16 (sh_mem ?sh) = worker_read first count m'"
      "wm_local m' = wm_local (sh_mem ?sh)" "wm_stores m' = wm_stores (sh_mem ?sh)"
      "worker_inv m'" "slot_get ANSWER m' = sh_seen ?sh"
      using worker_served_read [OF _ bounds] inv(1,2) by (metis worker_inv_def)
    have fits: "4 + ps * count \<le> CAPACITY"
      using max_read_fits [OF assms] count mult_le_mono2 [OF count, of ps] by linarith
    note R = worker_read_spec [OF m'(4) _ fits, of first]
    have local: "\<forall>l. wm_local m' = Some l \<longrightarrow> ol_page_size l = ps"
      using inv(4) m'(2) by simp
    have same: "worker_block ps (worker_read first count m') = worker_block ps (sh_mem sh)"
      "worker_block ps m' = worker_block ps (sh_mem sh)"
      using R(1,2) [OF local] m'(2,3)
      by (auto simp: worker_block_def store_of_def fun_eq_iff put_request_def worker_ops_def split: option.split)
    have "slot_get ANSWER (worker_served OP_LOCAL_READ 16 (sh_mem ?sh)) \<noteq> sh_seen ?sh"
      using R(3) [OF local] m'(1,5) int32_succ by simp
    then have ask: "ask (worker_ops (Suc (Suc t))) OP_LOCAL_READ 16 ?sh =
        (Ok (slot_get KIND (worker_read first count m'), nat (slot_get ANSWER_LENGTH (worker_read first count m'))),
         ?sh\<lparr>sh_mem := worker_read first count m', sh_seen := slot_get ANSWER (worker_read first count m')\<rparr>)"
      using worker_ask [of ?sh OP_LOCAL_READ 16 t] inv m'(1) by (simp add: Let_def worker_inv_def)
    show ?thesis
      using a ask R(1) [OF local] R(4) [OF local] same C inv m'(4) local
      by (auto simp: worker_local_ask worker_idle_def worker_inv_ops)
  qed
  then show ?thesis
    using assms by (auto simp: worker_serves_def worker_block_def MAX_PAGE_SIZE_def Let_def split: option.split)
qed

end
