(* ===== verification/Local_Durability.thy ===== *)
theory Local_Durability
  imports Worker
begin

text \<open>
  A commit of a local database from end to end: the SQLite worker encodes the modified blocks in
  pieces that fit the bridge, the connection worker decodes and collects them and writes them in one
  transaction.  The theorems say that a commit that succeeds stores exactly the file in memory, and
  that one that fails leaves the stored database as it was.
\<close>

subsection \<open>Pieces\<close>

definition encode_block :: "nat \<times> bytes \<Rightarrow> bytes" where
  "encode_block b = to_le_bytes 8 (fst b) @ to_le_bytes 4 (length (snd b)) @ snd b"

definition encodable :: "nat \<times> bytes \<Rightarrow> bool" where
  "encodable b \<longleftrightarrow> fst b < 256 ^ 8 \<and> length (snd b) < 256 ^ 4"

lemma encode_block_pair: "encode_block (i, d) = to_le_bytes 8 i @ to_le_bytes 4 (length d) @ d"
  by (simp add: encode_block_def)

lemma fill_piece_split:
  assumes "fill_piece piece count blocks = (piece', count', rest)"
  obtains taken where "blocks = taken @ rest" and "count' = count + length taken"
    and "piece' = piece @ concat (map encode_block taken)"
proof -
  have "\<exists>taken. blocks = taken @ rest \<and> count' = count + length taken \<and>
      piece' = piece @ concat (map encode_block taken)"
    using assms
  proof (induction piece count blocks rule: fill_piece.induct)
    case (2 piece count index d more)
    show ?case
    proof (cases "length piece + 12 + length d > CAPACITY \<and> count > 0")
      case True
      then show ?thesis using "2.prems" by (intro exI [of _ "[]"]) simp
    next
      case False
      then obtain taken where "more = taken @ rest" "count' = count + 1 + length taken"
        "piece' = (piece @ encode_block (index, d)) @ concat (map encode_block taken)"
        using "2.IH" "2.prems" by (auto simp: encode_block_pair)
      then show ?thesis by (intro exI [of _ "(index, d) # taken"]) simp
    qed
  qed simp
  then show thesis using that by blast
qed

lemma get_uint_at:
  assumes "length xs = at" and "n < 256 ^ k"
  shows "get_uint k (xs @ to_le_bytes k n @ ys) at = Some n"
  using assms by (simp add: get_uint_def get_slice_def sub_slice_def)

lemma parse_encode_blocks:
  assumes "\<forall>b \<in> set blocks. encodable b"
  shows "parse_blocks (length blocks) (xs @ concat (map encode_block blocks) @ ys) (length xs) = Some blocks"
  using assms
proof (induction blocks arbitrary: xs)
  case (Cons b blocks)
  obtain i d where b: "b = (i, d)" by (cases b)
  let ?tail = "concat (map encode_block blocks) @ ys"
  have enc: "i < 256 ^ 8" "length d < 256 ^ 4"
    using Cons.prems b by (simp_all add: encodable_def)
  have "get_uint 8 (xs @ to_le_bytes 8 i @ to_le_bytes 4 (length d) @ d @ ?tail) (length xs) = Some i"
    using get_uint_at [OF refl enc(1)] by simp
  moreover have "get_uint 4 ((xs @ to_le_bytes 8 i) @ to_le_bytes 4 (length d) @ (d @ ?tail)) (length xs + 8) =
      Some (length d)"
    by (rule get_uint_at [OF _ enc(2)]) simp
  moreover have "sub_slice (xs @ to_le_bytes 8 i @ to_le_bytes 4 (length d) @ d @ ?tail) (length xs + 12) (length d) = d"
    by (simp add: sub_slice_def)
  moreover have "parse_blocks (length blocks) ((xs @ encode_block b) @ ?tail) (length (xs @ encode_block b)) = Some blocks"
    using Cons.IH [of "xs @ encode_block b"] Cons.prems by simp
  ultimately show ?case
    by (simp add: b encode_block_pair add.commute add.left_commute)
qed simp

text \<open>The layout of a piece.\<close>

definition piece_bytes :: "nat \<Rightarrow> nat \<Rightarrow> nat \<Rightarrow> (nat \<times> bytes) list \<Rightarrow> bytes" where
  "piece_bytes flags epoch page_count blocks =
     to_le_bytes 4 flags @ to_le_bytes 8 epoch @ to_le_bytes 8 page_count @
     to_le_bytes 4 (length blocks) @ concat (map encode_block blocks)"

definition piece_flags :: "bool \<Rightarrow> bool \<Rightarrow> nat" where
  "piece_flags fst_piece lst_piece =
     (if fst_piece then PIECE_FIRST else 0) + (if lst_piece then PIECE_LAST else 0)"

lemma overwrite_middle:
  "length xs = at \<Longrightarrow> length ys = length zs \<Longrightarrow> overwrite (xs @ ys @ rest) at zs = xs @ zs @ rest"
  by (simp add: overwrite_def)

lemma commit_piece_layout:
  assumes "commit_piece epoch page_count first blocks = (piece, rest)"
  obtains taken where "blocks = taken @ rest"
    and "piece = piece_bytes (piece_flags first (rest = [])) epoch page_count taken"
proof -
  let ?head = "to_le_bytes 4 0 @ to_le_bytes 8 epoch @ to_le_bytes 8 page_count @ to_le_bytes 4 0"
  obtain p c r where f: "fill_piece ?head 0 blocks = (p, c, r)" by (metis prod.exhaust)
  obtain taken where t: "blocks = taken @ r" "c = 0 + length taken" "p = ?head @ concat (map encode_block taken)"
    using fill_piece_split [OF f] .
  have r: "r = rest"
    using assms f by (simp add: commit_piece_def Let_def)
  let ?flags = "to_le_bytes 4 (piece_flags first (rest = []))"
  have "overwrite p 0 ?flags = ([] @ ?flags @ to_le_bytes 8 epoch @ to_le_bytes 8 page_count @ to_le_bytes 4 0 @
      concat (map encode_block taken))"
    unfolding t(3) by (subst append_Nil [symmetric], subst append.assoc, subst overwrite_middle) simp_all
  moreover have "overwrite ((?flags @ to_le_bytes 8 epoch @ to_le_bytes 8 page_count) @ to_le_bytes 4 0 @
      concat (map encode_block taken)) 20 (to_le_bytes 4 c) =
    (?flags @ to_le_bytes 8 epoch @ to_le_bytes 8 page_count) @ to_le_bytes 4 c @ concat (map encode_block taken)"
    by (rule overwrite_middle) simp_all
  ultimately have "piece = piece_bytes (piece_flags first (rest = [])) epoch page_count taken"
    using assms f r t(2) by (simp add: commit_piece_def Let_def piece_flags_def piece_bytes_def)
  then show thesis using that t(1) r by blast
qed

lemma piece_flags_bits:
  "piece_flags a b < 256 ^ 4" "piece_flags a b mod 2 = 1 \<longleftrightarrow> a" "piece_flags a b div 2 mod 2 = 0 \<longleftrightarrow> \<not> b"
  by (simp_all add: piece_flags_def PIECE_FIRST_def PIECE_LAST_def)

text \<open>The worker decodes a piece to what was encoded.\<close>

lemma worker_piece_decodes:
  assumes "epoch < 256 ^ 8" and "page_count < 256 ^ 8" and "length blocks < 256 ^ 4"
    and "\<forall>b \<in> set blocks. encodable b"
  shows "worker_piece (piece_bytes (piece_flags a z) epoch page_count blocks) m =
    (let pending = (if a then [] else wm_pending m) @ blocks in
     if z then worker_commit epoch page_count pending (m\<lparr>wm_pending := []\<rparr>)
     else put_answer KIND_DONE [] (m\<lparr>wm_pending := pending\<rparr>))"
proof -
  let ?f = "piece_flags a z" and ?p = "piece_bytes (piece_flags a z) epoch page_count blocks"
  have "get_uint 4 ?p 0 = Some ?f"
    using get_uint_at [of "[]" 0 ?f 4] piece_flags_bits(1) by (simp add: piece_bytes_def)
  moreover have "get_uint 8 ?p 4 = Some epoch"
    using get_uint_at [of "to_le_bytes 4 ?f" 4 epoch 8] assms(1) by (simp add: piece_bytes_def)
  moreover have "get_uint 8 ?p 12 = Some page_count"
    using get_uint_at [of "to_le_bytes 4 ?f @ to_le_bytes 8 epoch" 12 page_count 8] assms(2)
    by (simp add: piece_bytes_def)
  moreover have "get_uint 4 ?p 20 = Some (length blocks)"
    using get_uint_at [of "to_le_bytes 4 ?f @ to_le_bytes 8 epoch @ to_le_bytes 8 page_count" 20 "length blocks" 4]
      assms(3) by (simp add: piece_bytes_def)
  moreover have "parse_blocks (length blocks) ?p 24 = Some blocks"
    using parse_encode_blocks [OF assms(4), of "to_le_bytes 4 ?f @ to_le_bytes 8 epoch @
        to_le_bytes 8 page_count @ to_le_bytes 4 (length blocks)" "[]"]
    by (simp add: piece_bytes_def)
  ultimately show ?thesis
    using piece_flags_bits(2,3) [of a z] by (simp add: worker_piece_def Let_def)
qed

subsection \<open>The exchange\<close>

definition same_stores :: "worker_mem \<Rightarrow> worker_mem \<Rightarrow> bool" where
  "same_stores m m' \<longleftrightarrow> wm_local m' = wm_local m \<and> wm_stores m' = wm_stores m"

lemma same_stores_refl [simp]: "same_stores m m"
  by (simp add: same_stores_def)

text \<open>A database is open on the worker and no answer is outstanding.\<close>

definition worker_ready :: "open_local \<Rightarrow> worker_mem shared \<Rightarrow> bool" where
  "worker_ready l sh \<longleftrightarrow> worker_idle (ol_page_size l) sh \<and> wm_local (sh_mem sh) = Some l"

lemma worker_served_commit:
  assumes "length (wm_slots m) = 9" and "wm_request m = piece @ rest" and "length piece \<le> CAPACITY"
  obtains m' where "worker_served OP_LOCAL_COMMIT (length piece) m = worker_piece piece m'"
    and "same_stores m m'" and "worker_inv m' = worker_inv m" and "wm_pending m' = wm_pending m"
    and "slot_get ANSWER m' = slot_get ANSWER m"
proof
  let ?m = "slot_set REQUEST 0 ((slot_set REQUEST 1 (slot_set REQUEST_LENGTH (int (length piece))
      (slot_set OP OP_LOCAL_COMMIT m)))\<lparr>wm_clock := wm_clock m + 1\<rparr>)"
  have op: "int32 OP_LOCAL_COMMIT = OP_LOCAL_COMMIT" "OP_LOCAL_COMMIT \<noteq> OP_LOCAL_OPEN" "OP_LOCAL_COMMIT \<noteq> OP_LOCAL_READ"
    by (simp_all add: OP_LOCAL_READ_def OP_LOCAL_OPEN_def OP_LOCAL_COMMIT_def)
  have len: "int32 (int (length piece)) = int (length piece)"
    using assms(3) by (simp add: CAPACITY_def)
  show "worker_served OP_LOCAL_COMMIT (length piece) m = worker_piece piece ?m"
    using assms by (simp add: worker_served_def worker_take_def worker_work_def slot_get_set op len)
  show "worker_inv ?m = worker_inv m"
    by (simp add: worker_inv_def slot_get_set slot_defs)
  show "same_stores m ?m" by (simp add: same_stores_def)
  show "slot_get ANSWER ?m = slot_get ANSWER m" by (simp add: slot_get_set)
qed simp

lemma refuse_worker:
  assumes "worker_inv (sh_mem sh)" and "refuse (worker_ops t) kind sh = (r, sh')"
  shows "sh' = sh \<and> (\<exists>e. r = Err e)"
proof -
  have "length (region_of (sh_mem sh)) = CAPACITY" "nat (slot_get ANSWER_LENGTH (sh_mem sh)) \<le> CAPACITY"
    using assms(1) by (simp_all add: region_of_def worker_inv_def nat_le_iff)
  then have "\<exists>x. answer_text (worker_ops t) sh = (Ok x :: (message, refusal) res, sh)"
    by (simp add: answer_text_def answer_bytes_def nat_max_eq)
  then show ?thesis
    using assms(2) by (auto simp: refuse_def split: if_splits)
qed

lemma worker_commit_spec:
  assumes "worker_inv m" and "wm_local m = Some l"
  shows "worker_inv (worker_commit epoch pc blocks m)" and "wm_local (worker_commit epoch pc blocks m) = Some l"
    and "slot_get ANSWER (worker_commit epoch pc blocks m) = int32 (slot_get ANSWER m + 1)"
    and "slot_get KIND (worker_commit epoch pc blocks m) = KIND_DONE \<Longrightarrow>
      \<exists>s. commit_store epoch pc blocks (store_of (ol_name l) m) = Some s \<and>
        wm_stores (worker_commit epoch pc blocks m) = fmupd (ol_name l) s (wm_stores m)"
    and "slot_get KIND (worker_commit epoch pc blocks m) \<noteq> KIND_DONE \<Longrightarrow>
      wm_stores (worker_commit epoch pc blocks m) = wm_stores m"
proof -
  have len: "length (wm_slots m) = 9"
    using assms(1) by (simp add: worker_inv_def)
  obtain f m1 where f: "next_fault m = (f, m1)" by (metis prod.exhaust)
  note F = next_fault_frame [OF f]
  have store: "store_of n m1 = store_of n m" for n
    using F(2) by (simp add: store_of_def)
  have k: "-2147483648 \<le> KIND_BUSY" "KIND_BUSY < 2147483648" "-2147483648 \<le> KIND_DONE" "KIND_DONE < 2147483648"
    "KIND_BUSY \<noteq> KIND_DONE" "fault_kind g \<noteq> KIND_DONE" for g
    by (simp_all add: kind_defs) (cases g; simp add: kind_defs)
  note D = worker_commit_def f answer_fault_def put_answer_slots store
  show "worker_inv (worker_commit epoch pc blocks m)"
    using assms(1) by (rule worker_inv_ops)
  show "wm_local (worker_commit epoch pc blocks m) = Some l"
    "slot_get ANSWER (worker_commit epoch pc blocks m) = int32 (slot_get ANSWER m + 1)"
    using F len k fault_kind_range assms(2)
    by (auto simp: D simp del: fault_kind.simps split: option.split)
  show "\<exists>s. commit_store epoch pc blocks (store_of (ol_name l) m) = Some s \<and>
        wm_stores (worker_commit epoch pc blocks m) = fmupd (ol_name l) s (wm_stores m)"
    if "slot_get KIND (worker_commit epoch pc blocks m) = KIND_DONE"
    using that F len k fault_kind_range assms(2)
    by (auto simp: D simp del: fault_kind.simps split: option.splits if_splits)
  show "wm_stores (worker_commit epoch pc blocks m) = wm_stores m"
    if "slot_get KIND (worker_commit epoch pc blocks m) \<noteq> KIND_DONE"
    using that F len k fault_kind_range assms(2)
    by (auto simp: D simp del: fault_kind.simps split: option.splits if_splits)
qed

lemma encoded_length:
  "length blocks \<le> length (concat (map encode_block blocks))"
  "b \<in> set blocks \<Longrightarrow> length (snd b) \<le> length (concat (map encode_block blocks))"
  by (induction blocks) (auto simp: encode_block_def)

text \<open>One turn of the loop that sends the pieces of a commit.\<close>

lemma commit_turn:
  assumes ready: "worker_ready l sh" and fits: "length piece \<le> CAPACITY"
    and piece: "piece = piece_bytes (piece_flags a z) epoch pc taken"
    and bounds: "epoch < 256 ^ 8" "pc < 256 ^ 8" "\<forall>b \<in> set taken. fst b < 256 ^ 8"
  obtains kind len sh' where "local_ask (worker_ops (Suc (Suc t))) OP_LOCAL_COMMIT (length piece)
      (put_request (worker_ops (Suc (Suc t))) piece sh) = (Ok (kind, len), sh')"
    and "worker_ready l sh'"
    and "\<not> z \<longrightarrow> kind = KIND_DONE \<and> wm_stores (sh_mem sh') = wm_stores (sh_mem sh) \<and>
      wm_pending (sh_mem sh') = (if a then [] else wm_pending (sh_mem sh)) @ taken"
    and "z \<longrightarrow> kind \<noteq> KIND_DONE \<longrightarrow> wm_stores (sh_mem sh') = wm_stores (sh_mem sh)"
    and "z \<longrightarrow> kind = KIND_DONE \<longrightarrow>
      (\<exists>s. commit_store epoch pc ((if a then [] else wm_pending (sh_mem sh)) @ taken) (store_of (ol_name l) (sh_mem sh)) =
        Some s \<and> wm_stores (sh_mem sh') = fmupd (ol_name l) s (wm_stores (sh_mem sh)))"
proof -
  let ?ops = "worker_ops (Suc (Suc t))" and ?pend = "(if a then [] else wm_pending (sh_mem sh)) @ taken"
  let ?sh = "put_request ?ops piece sh"
  have sh: "worker_inv (sh_mem ?sh)" "slot_get ANSWER (sh_mem ?sh) = sh_seen ?sh" "0 < sh_timeout ?sh"
    "wm_local (sh_mem ?sh) = Some l" "wm_pending (sh_mem ?sh) = wm_pending (sh_mem sh)"
    "wm_stores (sh_mem ?sh) = wm_stores (sh_mem sh)"
    "wm_request (sh_mem ?sh) = piece @ drop (length piece) (wm_request (sh_mem sh))"
    using ready by (simp_all add: worker_ready_def worker_idle_def put_request_def worker_ops_def)
  obtain m where m: "worker_served OP_LOCAL_COMMIT (length piece) (sh_mem ?sh) = worker_piece piece m"
    "same_stores (sh_mem ?sh) m" "worker_inv m" "wm_pending m = wm_pending (sh_mem sh)"
    "slot_get ANSWER m = sh_seen ?sh"
    using worker_served_commit [OF _ sh(7) fits] sh(1,2,5) by (metis worker_inv_def)
  have small: "length (concat (map encode_block taken)) < 256 ^ 4"
    using fits piece by (simp add: piece_bytes_def CAPACITY_def)
  have enc: "\<forall>b \<in> set taken. encodable b" "length taken < 256 ^ 4"
    using encoded_length(1) [of taken] encoded_length(2) [of _ taken] small bounds(3) by (fastforce simp: encodable_def)+
  let ?m' = "worker_piece piece m"
  have dec: "?m' = (if z then worker_commit epoch pc ?pend (m\<lparr>wm_pending := []\<rparr>)
      else put_answer KIND_DONE [] (m\<lparr>wm_pending := ?pend\<rparr>))"
    using worker_piece_decodes [OF bounds(1,2) enc(2,1), of a z m] piece m(4) by (simp add: Let_def)
  have local: "wm_local (m\<lparr>wm_pending := []\<rparr>) = Some l" "wm_local m = Some l" "wm_stores m = wm_stores (sh_mem sh)"
    "store_of (ol_name l) (m\<lparr>wm_pending := []\<rparr>) = store_of (ol_name l) (sh_mem sh)"
    using m(2) sh(4,6) by (simp_all add: same_stores_def store_of_def)
  have kind: "-2147483648 \<le> KIND_DONE" "KIND_DONE < 2147483648" "length (wm_slots m) = 9"
    using m(3) by (simp_all add: kind_defs worker_inv_def)
  note W = worker_commit_spec [of "m\<lparr>wm_pending := []\<rparr>" l epoch pc ?pend, OF _ local(1)]
  have m': "worker_inv ?m'" "wm_local ?m' = Some l" "slot_get ANSWER ?m' = int32 (slot_get ANSWER m + 1)"
    using W(1-3) m(3) local(2) kind unfolding dec by (simp_all add: put_answer_slots)
  have "slot_get ANSWER (worker_served OP_LOCAL_COMMIT (length piece) (sh_mem ?sh)) \<noteq> sh_seen ?sh"
    using m(1,5) m'(3) int32_succ by simp
  then have "ask ?ops OP_LOCAL_COMMIT (length piece) ?sh =
      (Ok (slot_get KIND ?m', nat (slot_get ANSWER_LENGTH ?m')), ?sh\<lparr>sh_mem := ?m', sh_seen := slot_get ANSWER ?m'\<rparr>)"
    using worker_ask [of ?sh OP_LOCAL_COMMIT "length piece" t] sh m(1) by (simp add: Let_def worker_inv_def)
  then have a: "local_ask ?ops OP_LOCAL_COMMIT (length piece) ?sh =
      (Ok (slot_get KIND ?m', nat (slot_get ANSWER_LENGTH ?m')), ?sh\<lparr>sh_mem := ?m', sh_seen := slot_get ANSWER ?m'\<rparr>)"
    by (simp add: worker_local_ask)
  show thesis
  proof (rule that [OF a])
    show "worker_ready l (?sh\<lparr>sh_mem := ?m', sh_seen := slot_get ANSWER ?m'\<rparr>)"
      using m'(1,2) sh(3) by (simp add: worker_ready_def worker_idle_def)
  qed (use W(4,5) dec local m(3) kind in \<open>auto simp: put_answer_slots\<close>)
qed

lemma bridge_commit_worker:
  assumes "bridge_commit_loop (worker_ops (Suc (Suc t))) epoch pc a blocks sh = (r, sh')"
    and "worker_ready l sh" and "epoch < 256 ^ 8" "pc < 256 ^ 8" "\<forall>b \<in> set blocks. fst b < 256 ^ 8"
  shows "worker_ready l sh' \<and>
    (r = Ok () \<and>
      (\<exists>s. commit_store epoch pc ((if a then [] else wm_pending (sh_mem sh)) @ blocks)
         (store_of (ol_name l) (sh_mem sh)) = Some s \<and>
         wm_stores (sh_mem sh') = fmupd (ol_name l) s (wm_stores (sh_mem sh))) \<or>
     (\<exists>e. r = Err e) \<and> wm_stores (sh_mem sh') = wm_stores (sh_mem sh))"
  using assms
proof (induction "length blocks" arbitrary: a blocks sh rule: less_induct)
  case less
  let ?ops = "worker_ops (Suc (Suc t))"
  obtain piece rest where p: "commit_piece epoch pc a blocks = (piece, rest)" by (metis prod.exhaust)
  obtain taken where taken: "blocks = taken @ rest" "piece = piece_bytes (piece_flags a (rest = [])) epoch pc taken"
    using commit_piece_layout [OF p] .
  show ?case
  proof (cases "length piece \<le> CAPACITY")
    case False
    then show ?thesis
      using less.prems(1,2) p by (auto simp: bridge_commit_loop.simps [of ?ops epoch pc a blocks] bridge_request_def)
  next
    case True
    have bt: "\<forall>b \<in> set taken. fst b < 256 ^ 8"
      using less.prems(5) taken(1) by simp
    obtain kind len sh1 where turn: "local_ask ?ops OP_LOCAL_COMMIT (length piece) (put_request ?ops piece sh) =
        (Ok (kind, len), sh1)" "worker_ready l sh1"
      "rest \<noteq> [] \<longrightarrow> kind = KIND_DONE \<and> wm_stores (sh_mem sh1) = wm_stores (sh_mem sh) \<and>
        wm_pending (sh_mem sh1) = (if a then [] else wm_pending (sh_mem sh)) @ taken"
      "rest = [] \<longrightarrow> kind \<noteq> KIND_DONE \<longrightarrow> wm_stores (sh_mem sh1) = wm_stores (sh_mem sh)"
      "rest = [] \<longrightarrow> kind = KIND_DONE \<longrightarrow>
        (\<exists>s. commit_store epoch pc ((if a then [] else wm_pending (sh_mem sh)) @ taken) (store_of (ol_name l) (sh_mem sh)) =
          Some s \<and> wm_stores (sh_mem sh1) = fmupd (ol_name l) s (wm_stores (sh_mem sh)))"
      by (rule commit_turn [where t = t, OF less.prems(2) True taken(2) less.prems(3,4) bt]) blast
    have inv: "worker_inv (sh_mem sh1)"
      using turn(2) by (simp add: worker_ready_def worker_idle_def)
    have step: "bridge_commit_loop ?ops epoch pc a blocks sh =
        (if kind \<noteq> KIND_DONE then refuse ?ops kind sh1
         else if rest = [] then (Ok (), sh1) else bridge_commit_loop ?ops epoch pc False rest sh1)"
      using p turn(1) True by (simp add: bridge_commit_loop.simps [of ?ops epoch pc a blocks] bridge_request_def)
    show ?thesis
    proof (cases "rest = []")
      case True
      show ?thesis
      proof (cases "kind = KIND_DONE")
        case False
        then have "refuse ?ops kind sh1 = (r, sh')"
          using step less.prems(1) by simp
        from refuse_worker [OF inv this] show ?thesis using turn(2,4) True False by blast
      qed (use step less.prems(1) turn(2,5) taken(1) True in auto)
    next
      case False
      have "length rest < length blocks"
        using commit_piece_takes [OF p False] .
      moreover have "bridge_commit_loop ?ops epoch pc False rest sh1 = (r, sh')"
        using step less.prems(1) False turn(3) by simp
      ultimately have "worker_ready l sh' \<and>
        (r = Ok () \<and>
          (\<exists>s. commit_store epoch pc (wm_pending (sh_mem sh1) @ rest) (store_of (ol_name l) (sh_mem sh1)) = Some s \<and>
             wm_stores (sh_mem sh') = fmupd (ol_name l) s (wm_stores (sh_mem sh1))) \<or>
         (\<exists>e. r = Err e) \<and> wm_stores (sh_mem sh') = wm_stores (sh_mem sh1))"
        using less.hyps [of rest False sh1] turn(2) less.prems(3-5) taken(1) by simp
      then show ?thesis
        using turn(3) False taken(1) by (simp add: store_of_def)
    qed
  qed
qed

subsection \<open>What a commit stores\<close>

lemma fold_fmupd_lookup:
  "distinct (map fst xs) \<Longrightarrow> fmlookup (fold (\<lambda>(i, d). fmupd i d) xs m) i =
     (case map_of xs i of Some d \<Rightarrow> Some d | None \<Rightarrow> fmlookup m i)"
proof (induction xs arbitrary: m)
  case (Cons x xs)
  obtain j d where x: "x = (j, d)" by (cases x)
  have "j = i \<Longrightarrow> map_of xs i = None"
    using Cons.prems x by (auto simp: map_of_eq_None_iff)
  then show ?case
    using Cons x by (auto split: option.split)
qed simp

lemma commit_store_blocks:
  assumes "commit_store epoch pc blocks s = Some s'" and "distinct (map fst blocks)"
  shows "i < pc \<Longrightarrow> stored_block ps s' i = (case map_of blocks i of Some d \<Rightarrow> d | None \<Rightarrow> stored_block ps s i)"
    and "\<exists>h. ls_head s = Some h \<and> st_epoch h = epoch \<and> ls_head s' = Some (h\<lparr>st_page_count := pc\<rparr>)"
    and "pc \<le> i \<Longrightarrow> fmlookup (ls_blocks s') i = None"
  using assms
  by (auto simp: commit_store_def stored_block_def fold_fmupd_lookup split: option.splits if_splits)

end
