(* ===== verification/Local_Files.thy ===== *)
theory Local_Files
  imports Local_Durability
begin

text \<open>
  A local database (\<open>local_database.rs\<close>) implements a plain file: its reads, writes and truncations
  refine those of a byte string, a successful commit makes the worker store exactly that byte string,
  and a failed one leaves the stored database as it was.
\<close>

subsection \<open>The database as a file\<close>

text \<open>
  \<open>local_inv\<close>: the worker is sound and serves the blocks \<open>C\<close>, the block store is well-formed, and its
  clean blocks are the worker's.  \<open>local_file\<close> is the file SQLite sees.
\<close>

definition local_inv ::
  "'b shared_ops \<Rightarrow> ('b \<Rightarrow> bool) \<Rightarrow> ('b shared \<Rightarrow> bool) \<Rightarrow> ('b \<Rightarrow> nat \<Rightarrow> bytes) \<Rightarrow> 'b local_database \<Rightarrow> bool" where
  "local_inv ops I J C db \<longleftrightarrow>
     load_good ops I (pg_page_size (ldb_pages db)) (ldb_bridge db, ldb_broken db) \<and>
     load_serves ops J C (pg_page_size (ldb_pages db)) (ldb_bridge db, ldb_broken db) \<and>
     pages_wf (ldb_pages db) \<and> agrees (C (sh_mem (ldb_bridge db))) (ldb_pages db)"

definition local_file :: "('b \<Rightarrow> nat \<Rightarrow> bytes) \<Rightarrow> 'b local_database \<Rightarrow> bytes" where
  "local_file C db = file_of (C (sh_mem (ldb_bridge db))) (ldb_pages db)"

lemma length_local_file [simp]: "length (local_file C db) = local_file_size db"
  by (simp add: local_file_def local_file_size_def)

text \<open>C10: reading a local database gives the bytes of its file, zero-filled past the end, and says
  whether the read lay inside the file.  Whatever the outcome, the file and the invariant stay, and
  the call does not panic.\<close>

theorem local_read_refines:
  assumes "local_inv ops I J C db" and "local_read ops db buf off st = (r, buf', db', st')"
  shows "r \<noteq> Panic \<and> local_inv ops I J C db' \<and> local_file C db' = local_file C db \<and>
    (\<forall>full. r = Ok full \<longrightarrow> buf' = file_read (local_file C db) off (length buf) \<and>
       (full \<longleftrightarrow> buf = [] \<or> off + length buf \<le> local_file_size db))"
proof -
  let ?s = "(ldb_bridge db, ldb_broken db)"
  obtain sh br p where r: "pages_read (load_fill ops) ?s (ldb_pages db) buf off st = (r, buf', (sh, br), p, st')"
    and db': "db' = db\<lparr>ldb_bridge := sh, ldb_broken := br, ldb_pages := p\<rparr>"
    using assms(2) by (auto simp: local_read_def split: prod.splits)
  have good: "load_good ops I (pg_page_size (ldb_pages db)) ?s" and wf: "pages_wf (ldb_pages db)"
    and agrees: "agrees (C (sh_mem (fst ?s))) (ldb_pages db)"
    and serves: "load_serves ops J C (pg_page_size (ldb_pages db)) ?s"
    using assms(1) by (simp_all add: local_inv_def)
  note keeps = load_exact.pages_read_keeps [OF r good wf agrees serves]
  have "buf' = file_read (local_file C db) off (length buf) \<and>
      (full \<longleftrightarrow> buf = [] \<or> off + length buf \<le> local_file_size db)" if "r = Ok full" for full
    using load_exact.pages_read_exact [OF r [unfolded that] good wf agrees serves]
    by (simp add: local_file_def local_file_size_def)
  with keeps show ?thesis
    unfolding db' by (simp add: local_inv_def local_file_def)
qed


text \<open>C19: truncating a local database, or extending one that is held in memory as a whole, changes its
  file to the given size, rounded up to a multiple of the page size: the bytes before it stay, new ones
  are zeros.  It keeps the invariant and cannot fail unless the database is broken.\<close>

theorem local_truncate_refines:
  assumes "local_inv ops I J C db" and "n \<le> U64"
    and "n \<le> local_file_size db \<or> \<not> asks_source (ldb_pages db)"
    and "local_truncate db n = (r, db')"
  shows "local_inv ops I J C db' \<and>
    (case ldb_broken db of
       Some e \<Rightarrow> r = Err e \<and> db' = db
     | None \<Rightarrow> r = Ok () \<and>
         local_file C db' = file_truncate (pg_page_size (ldb_pages db)) (local_file C db) n)"
proof (cases "ldb_broken db")
  case None
  have wf: "pages_wf (ldb_pages db)" and agrees: "agrees (C (sh_mem (ldb_bridge db))) (ldb_pages db)"
    and n: "n \<le> pages_file_size (ldb_pages db) \<or> \<not> asks_source (ldb_pages db)"
    using assms(1,3) by (simp_all add: local_inv_def local_file_size_def)
  obtain q where q: "pages_truncate (ldb_pages db) n = Ok q" "pages_wf q"
      "pg_page_size q = pg_page_size (ldb_pages db)"
      "agrees (C (sh_mem (ldb_bridge db))) q"
    by (rule pages_truncate_ok [OF wf, of n]) (use agrees assms(2) in blast)
  show ?thesis
    using assms(1,4) None q pages_truncate_exact [OF wf agrees n q(1)]
    by (auto simp: local_truncate_def local_inv_def local_file_def)
qed (use assms in \<open>auto simp: local_truncate_def\<close>)

subsection \<open>Commits\<close>

lemma sh_moment_worker:
  assumes "sh_moment (worker_ops t) sh = (now, sh')" and "worker_ready l sh"
  shows "worker_ready l sh'" and "wm_stores (sh_mem sh') = wm_stores (sh_mem sh)"
  using assms
  by (auto simp: sh_moment_def)

text \<open>The blocks the worker serves after a commit are the blocks the database had before it.\<close>

lemma commit_store_view:
  assumes "commit_store epoch (pg_page_count p) blocks s = Some s'" and "distinct (map fst blocks)"
    and "\<And>i. map_of blocks i = (if i |\<in>| pg_dirty p then block_at p i else None)"
    and "pages_wf p" and "agrees (worker_block (pg_page_size p) m) p"
    and "asks_source p \<or> (\<forall>i < pg_page_count p. block_at p i \<noteq> None)"
    and "wm_local m = Some l" and "store_of (ol_name l) m = s"
    and "wm_local m' = Some l" and "store_of (ol_name l) m' = s'" and "i < pg_page_count p"
  shows "worker_block (pg_page_size p) m' i = view (worker_block (pg_page_size p) m) p i"
proof -
  note stored = commit_store_blocks(1) [OF assms(1,2,11), of "pg_page_size p"]
  note eqs = assms(7-10)
  show ?thesis
  proof (cases "i |\<in>| pg_dirty p")
    case True
    then obtain b where b: "fmlookup (pg_blocks p) i = Some b" "length (blk_data b) = pg_page_size p"
      using pages_wfD(2,4) [OF assms(4)] by blast
    then show ?thesis
      using True stored assms(3) [of i] eqs by (simp add: worker_block_def view_def block_at_def)
  next
    case False
    then have "worker_block (pg_page_size p) m' i = worker_block (pg_page_size p) m i"
      using stored assms(3) [of i] eqs by (simp add: worker_block_def)
    moreover have "blk_data b = worker_block (pg_page_size p) m i" if "fmlookup (pg_blocks p) i = Some b" for b
      using assms(5) that False by (auto simp: agrees_def)
    ultimately show ?thesis
      using assms(6,11) by (auto simp: view_def block_at_def split: option.split)
  qed
qed

text \<open>What a commit does on the worker, on every branch.\<close>

lemma local_commit_cases:
  assumes "local_commit (worker_ops (Suc (Suc t))) db st = (r, db', st')"
    and "worker_ready l (ldb_bridge db)" and "pages_wf (ldb_pages db)"
    and "ldb_broken db = None" and "\<not> is_clean (ldb_pages db)"
    and "ldb_epoch db < 256 ^ 8" and "pg_page_count (ldb_pages db) < 256 ^ 8"
    and "\<forall>i. i |\<in>| pg_dirty (ldb_pages db) \<longrightarrow> i < pg_page_count (ldb_pages db)"
  obtains (committed) blocks s st0 st1 where "r = Ok ()" and "dirty_blocks (ldb_pages db) = Ok blocks"
      and "commit_store (ldb_epoch db) (pg_page_count (ldb_pages db)) blocks
        (store_of (ol_name l) (sh_mem (ldb_bridge db))) = Some s"
      and "wm_stores (sh_mem (ldb_bridge db')) = fmupd (ol_name l) s (wm_stores (sh_mem (ldb_bridge db)))"
      and "make_room (snd (Pages.committed (ldb_pages db))) 0 st0 = (ldb_pages db', st1)"
      and "ldb_broken db' = None" and "worker_ready l (ldb_bridge db')"
  | (failed) e where "r = Err e" and "ldb_broken db' = Some e" and "ldb_pages db' = ldb_pages db"
      and "wm_stores (sh_mem (ldb_bridge db')) = wm_stores (sh_mem (ldb_bridge db))"
      and "worker_ready l (ldb_bridge db')" and "st' = st"
proof -
  let ?ops = "worker_ops (Suc (Suc t))" and ?sh = "ldb_bridge db" and ?p = "ldb_pages db"
  obtain blocks where b: "dirty_blocks ?p = Ok blocks" "set (map fst blocks) = fset (pg_dirty ?p)"
    using dirty_blocks_ok [OF assms(3)] .
  have small: "\<forall>x \<in> set blocks. fst x < 256 ^ 8"
    using b(2) assms(7,8) by (metis imageI less_trans list.set_map)
  obtain r1 sh1 where c: "bridge_commit_loop ?ops (ldb_epoch db) (pg_page_count ?p) True blocks ?sh = (r1, sh1)"
    by (metis prod.exhaust)
  note result = bridge_commit_worker [OF c assms(2,6,7) small]
  consider (ok) s where "r1 = Ok ()"
      "commit_store (ldb_epoch db) (pg_page_count ?p) blocks (store_of (ol_name l) (sh_mem ?sh)) = Some s"
      "wm_stores (sh_mem sh1) = fmupd (ol_name l) s (wm_stores (sh_mem ?sh))"
    | (err) e where "r1 = Err e" "wm_stores (sh_mem sh1) = wm_stores (sh_mem ?sh)"
    using result by auto
  then show thesis
  proof cases
    case ok
    let ?st = "count_commit (length blocks) (pg_page_size ?p) (wm_clock (sh_mem sh1) - wm_clock (sh_mem ?sh)) st"
    obtain q st1 where m: "make_room (snd (Pages.committed ?p)) 0 ?st = (q, st1)"
      by (metis prod.exhaust)
    have "r = Ok ()" "db' = db\<lparr>ldb_bridge := sh1, ldb_pages := q\<rparr>"
      using assms(1,4,5) b(1) c ok(1) m
      by (simp_all add: local_commit_def sh_moment_def bridge_commit_def Let_def)
    with m ok(3) result assms(4) show thesis
      by (intro committed [OF _ b(1) ok(2), of ?st st1]) simp_all
  next
    case err
    then show thesis
      using assms(1,4,5) b c result
      by (intro failed) (auto simp: local_commit_def sh_moment_def bridge_commit_def Let_def)
  qed
qed

text \<open>The blocks of the open database as the worker stores them, in order.\<close>

definition stored_file :: "nat \<Rightarrow> worker_mem \<Rightarrow> bytes" where
  "stored_file ps m =
     (case wm_local m of
        None \<Rightarrow> []
      | Some l \<Rightarrow>
          (case ls_head (store_of (ol_name l) m) of
             None \<Rightarrow> []
           | Some h \<Rightarrow> concat (map (worker_block ps m) [0..<st_page_count h])))"

lemma length_worker_block [simp]: "length (worker_block ps m i) = ps"
  by (simp add: worker_block_def Let_def split: option.split)

abbreviation blocks_of :: "worker_mem local_database \<Rightarrow> worker_mem \<Rightarrow> nat \<Rightarrow> bytes" where
  "blocks_of db \<equiv> worker_block (pg_page_size (ldb_pages db))"


subsection \<open>A database for the witnesses\<close>

text \<open>
  A stored database of two blocks of two bytes, the first of them written, and its connection, whose
  second block SQLite has modified.
\<close>

definition sample_mem :: worker_mem where
  "sample_mem =
     \<lparr>wm_slots = replicate 9 0, wm_request = [], wm_answer = [], wm_clock = 0,
      wm_stores = fmupd [97] \<lparr>ls_head = Some \<lparr>st_page_size = 2, st_page_count = 2, st_epoch = 1\<rparr>,
        ls_blocks = fmupd 0 [1, 2] fmempty\<rparr> fmempty,
      wm_locks = {||},
      wm_local = Some \<lparr>ol_name = [97], ol_page_size = 2, ol_epoch = 1, ol_lost = False, ol_closed = False\<rparr>,
      wm_pending = [], wm_faults = []\<rparr>"

definition sample_pages :: pages where
  "sample_pages = (pages_new 2 2 (Some 1) (Some 4))
     \<lparr>pg_blocks := fmupd 1 \<lparr>blk_data = [3, 4], blk_used = 0\<rparr> fmempty, pg_dirty := {|1|}\<rparr>"

definition sample_db :: "worker_mem local_database" where
  "sample_db =
     \<lparr>ldb_bridge = \<lparr>sh_mem = sample_mem, sh_timeout = 10, sh_seen = 0, sh_probing = False\<rparr>,
      ldb_pages = sample_pages, ldb_epoch = 1, ldb_broken = None\<rparr>"

lemma sample_inv [simp]:
  "local_inv (worker_ops 2) worker_inv (worker_idle 2) (worker_block 2) sample_db"
proof -
  have serves: "worker_serves (worker_ops 2) (worker_idle 2) (worker_block 2) 2"
    using worker_ops_serves [of 2 0] by (simp add: numeral_2_eq_2 MAX_PAGE_SIZE_def)
  have inv: "worker_inv sample_mem"
    by (simp add: worker_inv_def sample_mem_def slot_get_def ANSWER_LENGTH_def)
  show ?thesis
    using serves inv worker_ops_sound [of 2]
    by (auto simp: local_inv_def load_good_def load_serves_def sample_db_def sample_pages_def pages_new_def
        pages_wf_def agrees_def worker_idle_def sample_mem_def slot_get_def ANSWER_def U64_def split: if_splits)
qed

lemma sample_ready:
  "worker_ready \<lparr>ol_name = [97], ol_page_size = 2, ol_epoch = 1, ol_lost = False, ol_closed = False\<rparr>
     (ldb_bridge sample_db)"
  by (simp add: worker_ready_def worker_idle_def worker_inv_def sample_db_def sample_mem_def slot_get_def
      ANSWER_def ANSWER_LENGTH_def)

lemma sample_hyps:
  "asks_source (ldb_pages sample_db)" "ldb_broken sample_db = None" "\<not> is_clean (ldb_pages sample_db)"
  "ldb_epoch sample_db < 256 ^ 8" "pg_page_count (ldb_pages sample_db) < 256 ^ 8"
  "pg_page_size (ldb_pages sample_db) = 2" "sh_mem (ldb_bridge sample_db) = sample_mem"
  by (simp_all add: sample_db_def sample_pages_def pages_new_def asks_source_def is_clean_def)

theorem local_read_refines_witness:
  "case local_read (worker_ops 2) sample_db [0, 0, 0] 1 default_stats of (r, buf, db, _) \<Rightarrow>
     r \<noteq> Panic \<and> local_file (worker_block 2) db = local_file (worker_block 2) sample_db"
  using local_read_refines [OF sample_inv, of "[0, 0, 0]" 1 default_stats] by (auto split: prod.split)


theorem local_truncate_refines_witness:
  "case local_truncate sample_db 1 of (r, db) \<Rightarrow>
     r = Ok () \<and> local_file (worker_block 2) db = file_truncate 2 (local_file (worker_block 2) sample_db) 1"
  using local_truncate_refines [OF sample_inv, of 1]
  by (auto simp: sample_db_def sample_pages_def pages_new_def local_file_size_def pages_file_size_def U64_def
      split: prod.split)


end
