(* ===== verification/Protocol.thy ===== *)
theory Protocol
  imports Base
begin

text \<open>
  The messages of the page server protocol, as \<open>sqlite_remote.v1.rs\<close> declares them.  Their encoding is
  prost's and a parameter of the client.  Integer fields are natural numbers below the bound of their
  type; the enumerations \<open>ErrorCode\<close> and \<open>SigAlg\<close> travel as integers, and an unknown one reads as
  \<open>Unspecified\<close>.
\<close>

subsection \<open>Enumerations\<close>

datatype sig_alg = Sig_Unspecified | Sig_Ed25519

fun sig_alg_number :: "sig_alg \<Rightarrow> int" where
  "sig_alg_number Sig_Unspecified = 0"
| "sig_alg_number Sig_Ed25519 = 1"

datatype error_code =
    Unspecified | Unauthenticated | Forbidden | NotFound | LeaseHeld | Fenced_code | VersionConflict
  | BadRequest | TooLarge | QuotaExceeded | RateLimited | Internal | AccessDenied | SlotTaken

fun error_number :: "error_code \<Rightarrow> int" where
  "error_number Unspecified = 0"
| "error_number Unauthenticated = 1"
| "error_number Forbidden = 2"
| "error_number NotFound = 3"
| "error_number LeaseHeld = 4"
| "error_number Fenced_code = 5"
| "error_number VersionConflict = 6"
| "error_number BadRequest = 7"
| "error_number TooLarge = 8"
| "error_number QuotaExceeded = 9"
| "error_number RateLimited = 10"
| "error_number Internal = 11"
| "error_number AccessDenied = 12"
| "error_number SlotTaken = 13"

definition error_codes :: "error_code list" where
  "error_codes = [Unspecified, Unauthenticated, Forbidden, NotFound, LeaseHeld, Fenced_code, VersionConflict,
     BadRequest, TooLarge, QuotaExceeded, RateLimited, Internal, AccessDenied, SlotTaken]"

fun as_str_name :: "error_code \<Rightarrow> string" where
  "as_str_name Unspecified = ''ERROR_CODE_UNSPECIFIED''"
| "as_str_name Unauthenticated = ''ERROR_CODE_UNAUTHENTICATED''"
| "as_str_name Forbidden = ''ERROR_CODE_FORBIDDEN''"
| "as_str_name NotFound = ''ERROR_CODE_NOT_FOUND''"
| "as_str_name LeaseHeld = ''ERROR_CODE_LEASE_HELD''"
| "as_str_name Fenced_code = ''ERROR_CODE_FENCED''"
| "as_str_name VersionConflict = ''ERROR_CODE_VERSION_CONFLICT''"
| "as_str_name BadRequest = ''ERROR_CODE_BAD_REQUEST''"
| "as_str_name TooLarge = ''ERROR_CODE_TOO_LARGE''"
| "as_str_name QuotaExceeded = ''ERROR_CODE_QUOTA_EXCEEDED''"
| "as_str_name RateLimited = ''ERROR_CODE_RATE_LIMITED''"
| "as_str_name Internal = ''ERROR_CODE_INTERNAL''"
| "as_str_name AccessDenied = ''ERROR_CODE_ACCESS_DENIED''"
| "as_str_name SlotTaken = ''ERROR_CODE_SLOT_TAKEN''"

definition from_str_name :: "string \<Rightarrow> error_code option" where
  "from_str_name name = find (\<lambda>c. as_str_name c = name) error_codes"

subsection \<open>Messages of the client\<close>

record hello =
  he_protocol_version :: nat
  he_instance_id :: bytes
  he_sig_alg :: int
  he_public_key :: bytes
  he_access_token :: rstring

record resume_msg =
  re_lease_id :: bytes
  re_lease_epoch :: nat
  re_known_version :: nat
  re_pending_commit_id :: bytes

record open_msg =
  om_db_id :: rstring
  om_page_size :: nat
  om_create_if_missing :: bool
  om_takeover :: bool
  om_resume :: "resume_msg option"

record range_msg =
  ra_first_block :: nat
  ra_count :: nat

record fetch_msg =
  fe_db_id :: rstring
  fe_version :: nat
  fe_first_block :: nat
  fe_count :: nat
  fe_ranges :: "range_msg list"

record block_msg =
  bm_index :: nat
  bm_data :: bytes

record commit_msg =
  cm_db_id :: rstring
  cm_commit_id :: bytes
  cm_lease_epoch :: nat
  cm_base_version :: nat
  cm_page_count :: nat
  cm_blocks :: "block_msg list"
  cm_more :: bool
  cm_part :: nat

record close_db =
  cd_db_id :: rstring
  cd_lease_epoch :: nat

record delete_msg =
  de_db_id :: rstring
  de_takeover :: bool

record changed_msg =
  cg_db_id :: rstring
  cg_from_version :: nat

datatype client_body =
    Hello_body hello
  | Open_body open_msg
  | Fetch_body fetch_msg
  | Commit_body commit_msg
  | Ping_body nat
  | CloseDb_body close_db
  | Proof_body bytes
  | Delete_body delete_msg
  | Changed_body changed_msg
  | ClaimSlot_body
  | DeleteSlot_body
  | SetSlotLabel_body rstring

record client_frame =
  cf_request_id :: nat
  cf_body :: "client_body option"

subsection \<open>Messages of the server\<close>

record challenge =
  ch_nonce :: bytes
  ch_server_id :: rstring
  ch_expires_at_ms :: nat

record hello_ok =
  ho_protocol_version :: nat
  ho_max_frame_bytes :: nat
  ho_ping_interval_ms :: nat
  ho_lease_ttl_ms :: nat
  ho_access_token_ttl_ms :: nat

record opened =
  op_lease_id :: bytes
  op_lease_epoch :: nat
  op_version :: nat
  op_page_size :: nat
  op_page_count :: nat
  op_last_commit_id :: bytes

record pages_msg =
  pm_first_block :: nat
  pm_blocks :: "bytes list"
  pm_last :: bool

record changes_msg =
  cs_from_version :: nat
  cs_to_version :: nat
  cs_blocks :: "nat list"
  cs_complete :: bool

record commit_ack =
  ca_commit_id :: bytes
  ca_version :: nat

record slot_msg =
  sl_label :: rstring
  sl_claimed_at_ms :: nat
  sl_replaced_label :: rstring

record lease_revoked =
  lr_db_id :: rstring
  lr_new_lease_epoch :: nat

record pb_error =
  er_code :: int
  er_detail :: rstring
  er_current_version :: nat
  er_lease_holder_since_ms :: nat

datatype server_body =
    HelloOk_body hello_ok
  | Opened_body opened
  | Pages_body pages_msg
  | CommitAck_body commit_ack
  | Pong_body nat
  | LeaseRevoked_body lease_revoked
  | Error_body pb_error
  | Ok_body
  | Challenge_body challenge
  | Changes_body changes_msg
  | Slot_body slot_msg

record server_frame =
  sf_request_id :: nat
  sf_body :: "server_body option"

text \<open>\<open>Error::code\<close>\<close>

definition error_code_of :: "pb_error \<Rightarrow> error_code" where
  "error_code_of e = (case find (\<lambda>c. error_number c = er_code e) error_codes of Some c \<Rightarrow> c | None \<Rightarrow> Unspecified)"

definition default_error :: pb_error where
  "default_error = \<lparr>er_code = 0, er_detail = [], er_current_version = 0, er_lease_holder_since_ms = 0\<rparr>"

lemma error_code_of_number: "er_code e = error_number c \<Longrightarrow> error_code_of e = c"
  by (cases c) (simp_all add: error_code_of_def error_codes_def)

lemma from_as_str_name: "from_str_name (as_str_name c) = Some c"
  by (cases c) (simp_all add: from_str_name_def error_codes_def)

end
