(* ===== verification/Identity.thy ===== *)
theory Identity
  imports Protocol
begin

text \<open>
  The client's identity (\<open>identity.rs\<close>): the transcript that is signed at login, and the subject derived
  from a public key.  SHA-256 and the base64 encoding are parameters.
\<close>

datatype algorithm = Ed25519

definition TRANSCRIPT_LABEL :: bytes where "TRANSCRIPT_LABEL = map of_char ''sqlite-remote-auth-v1''"
definition SUBJECT_LABEL :: bytes where "SUBJECT_LABEL = map of_char ''sqlite-remote-subject-v1''"

fun wire_algorithm :: "algorithm \<Rightarrow> int" where
  "wire_algorithm Ed25519 = sig_alg_number Sig_Ed25519"

text \<open>A part with its length in front; lengths are cut to 32 bits.\<close>

definition prefixed :: "bytes \<Rightarrow> bytes" where
  "prefixed part = to_be_bytes 4 (length part) @ part"

definition transcript :: "bytes \<Rightarrow> rstring \<Rightarrow> bytes \<Rightarrow> bytes \<Rightarrow> algorithm \<Rightarrow> bytes \<Rightarrow> bytes" where
  "transcript label server_id nonce instance_id alg public_key =
     concat (map prefixed
       [label, server_id, nonce, instance_id, to_be_bytes 4 (nat (wire_algorithm alg)), public_key])"

definition login_transcript :: "rstring \<Rightarrow> bytes \<Rightarrow> bytes \<Rightarrow> algorithm \<Rightarrow> bytes \<Rightarrow> bytes" where
  "login_transcript server_id nonce instance_id alg public_key =
     transcript TRANSCRIPT_LABEL server_id nonce instance_id alg public_key"

definition subject_of :: "(bytes \<Rightarrow> bytes) \<Rightarrow> (bytes \<Rightarrow> rstring) \<Rightarrow> algorithm \<Rightarrow> bytes \<Rightarrow> rstring" where
  "subject_of sha256 base64 alg public_key =
     base64 (sha256 (transcript SUBJECT_LABEL [] [] [] alg public_key))"

text \<open>What the application provides to sign with (\<open>Signer\<close>), and the subject of it.\<close>

record signer =
  sg_algorithm :: algorithm
  sg_public_key :: bytes
  sg_sign :: "bytes \<Rightarrow> bytes"

definition subject :: "(bytes \<Rightarrow> bytes) \<Rightarrow> (bytes \<Rightarrow> rstring) \<Rightarrow> signer \<Rightarrow> rstring" where
  "subject sha256 base64 s = subject_of sha256 base64 (sg_algorithm s) (sg_public_key s)"

subsection \<open>Properties\<close>

definition part_ok :: "bytes \<Rightarrow> bool" where
  "part_ok part \<longleftrightarrow> length part < 2 ^ 32"

lemma prefixed_inj:
  assumes "prefixed x @ xs = prefixed y @ ys" and "part_ok x" and "part_ok y"
  shows "x = y" and "xs = ys"
proof -
  have "to_be_bytes 4 (length x) = to_be_bytes 4 (length y)" and rest: "x @ xs = y @ ys"
    using assms(1) by (simp_all add: prefixed_def append_eq_append_conv)
  then have "length x = length y"
    using assms(2,3) to_be_bytes_inj [of "length x" 4 "length y"] by (simp add: part_ok_def)
  then show "x = y" "xs = ys"
    using rest by simp_all
qed

lemma concat_prefixed_inj:
  "list_all part_ok xs \<Longrightarrow> list_all part_ok ys \<Longrightarrow> length xs = length ys \<Longrightarrow>
     concat (map prefixed xs) = concat (map prefixed ys) \<Longrightarrow> xs = ys"
proof (induction xs arbitrary: ys)
  case (Cons x xs)
  then obtain y ys' where ys: "ys = y # ys'" by (cases ys) auto
  then have "prefixed x @ concat (map prefixed xs) = prefixed y @ concat (map prefixed ys')"
    and ok: "part_ok x" "part_ok y" "list_all part_ok xs" "list_all part_ok ys'" "length xs = length ys'"
    using Cons.prems by simp_all
  from prefixed_inj [OF this(1) ok(1,2)] Cons.IH [OF ok(3-5)] show ?case by (simp add: ys)
qed simp

lemma part_ok_fixed [simp]: "part_ok TRANSCRIPT_LABEL" "part_ok SUBJECT_LABEL" "part_ok []" "part_ok (to_be_bytes 4 n)"
  by (simp_all add: part_ok_def TRANSCRIPT_LABEL_def SUBJECT_LABEL_def)

text \<open>C25: the transcript determines its parts: two logins with the same transcript have the same server, nonce,
  instance and public key, so a signature is valid for one login only.\<close>

theorem login_transcript_inj:
  assumes "login_transcript server_id nonce instance_id alg key = login_transcript server_id' nonce' instance_id' alg' key'"
    and "list_all part_ok [server_id, nonce, instance_id, key]"
    and "list_all part_ok [server_id', nonce', instance_id', key']"
  shows "server_id = server_id' \<and> nonce = nonce' \<and> instance_id = instance_id' \<and> alg = alg' \<and> key = key'"
  using concat_prefixed_inj [OF _ _ _ assms(1) [unfolded login_transcript_def transcript_def]] assms(2,3)
  by (cases alg; cases alg') simp

theorem login_transcript_inj_witness:
  "login_transcript [97, 98] [99] [1] Ed25519 [2] \<noteq> login_transcript [97] [98, 99] [1] Ed25519 [2]"
  using login_transcript_inj [of "[97, 98]" "[99]" "[1]" Ed25519 "[2]" "[97]" "[98, 99]" "[1]" Ed25519 "[2]"]
  by (auto simp: part_ok_def)



end
