(* ===== verification/Client.thy ===== *)
theory Client
  imports Identity
begin

text \<open>
  The client of the page server protocol (\<open>client.rs\<close>).

  What the client uses and the sources do not define is the parameter \<open>client_ops\<close>: the transport, the
  clock, the random numbers, prost's encoding of the frames, the application's signer and token source.
  The world they act on is \<open>cl_world\<close>.  \<open>co_turns\<close> bounds the frames a request waits through.
\<close>

subsection \<open>Parameters and state\<close>

record 'w client_ops =
  co_dial :: "'w \<Rightarrow> (unit, message) res \<times> 'w"
  co_send :: "bytes \<Rightarrow> 'w \<Rightarrow> (unit, message) res \<times> 'w"
  co_receive :: "'w \<Rightarrow> (bytes, message) res \<times> 'w"
  co_reopen :: "'w \<Rightarrow> (unit, message) res \<times> 'w"
  co_reachable :: "'w \<Rightarrow> bool \<times> 'w"
  co_logged_in :: "nat \<Rightarrow> 'w \<Rightarrow> 'w"
  co_now :: "'w \<Rightarrow> nat \<times> 'w"
  co_pause :: "nat \<Rightarrow> 'w \<Rightarrow> 'w"
  co_random :: "'w \<Rightarrow> bytes \<times> 'w"
  co_encode :: "client_frame \<Rightarrow> bytes"
  co_decode :: "bytes \<Rightarrow> server_frame option"
  co_token :: "('w \<Rightarrow> (rstring, message) res \<times> 'w) option"
  co_signer :: signer
  co_instance_id :: bytes
  co_trace_fetches :: bool
  co_turns :: nat

datatype client_error =
    Transport_error message
  | Server_error pb_error
  | Protocol_error message
  | Token_error message

definition PROTOCOL_VERSION :: nat where "PROTOCOL_VERSION = 1"
definition TOKEN_RENEWAL_MARGIN :: nat where "TOKEN_RENEWAL_MARGIN = 30000"

fun is_fenced :: "client_error \<Rightarrow> bool" where
  "is_fenced (Server_error e) \<longleftrightarrow> error_code_of e = Fenced_code \<or> error_code_of e = SlotTaken"
| "is_fenced _ \<longleftrightarrow> False"

fun is_transient :: "client_error \<Rightarrow> bool" where
  "is_transient (Server_error e) \<longleftrightarrow> error_code_of e = Internal \<or> error_code_of e = RateLimited"
| "is_transient _ \<longleftrightarrow> False"

fun is_slot_taken :: "client_error \<Rightarrow> bool" where
  "is_slot_taken (Server_error e) \<longleftrightarrow> error_code_of e = SlotTaken"
| "is_slot_taken _ \<longleftrightarrow> False"

fun is_lease_held :: "client_error \<Rightarrow> bool" where
  "is_lease_held (Server_error e) \<longleftrightarrow> error_code_of e = LeaseHeld"
| "is_lease_held _ \<longleftrightarrow> False"

fun is_not_found :: "client_error \<Rightarrow> bool" where
  "is_not_found (Server_error e) \<longleftrightarrow> error_code_of e = NotFound"
| "is_not_found _ \<longleftrightarrow> False"

fun is_access_denied :: "client_error \<Rightarrow> bool" where
  "is_access_denied (Server_error e) \<longleftrightarrow> error_code_of e = AccessDenied"
| "is_access_denied (Token_error _) \<longleftrightarrow> True"
| "is_access_denied _ \<longleftrightarrow> False"

fun error_text :: "client_error \<Rightarrow> message" where
  "error_text (Transport_error reason) = ''connection: '' @ reason"
| "error_text (Server_error e) = ''server: '' @ as_str_name (error_code_of e)"
| "error_text (Protocol_error reason) = ''protocol: '' @ reason"
| "error_text (Token_error reason) = ''access token: '' @ reason"

record limits =
  li_max_frame_bytes :: nat
  li_ping_interval :: nat

record 'w client =
  cl_socket :: bool
  cl_connected :: bool
  cl_limits :: limits
  cl_next_id :: nat
  cl_last_request :: nat
  cl_revoked :: "(rstring, nat) fmap"
  cl_unreported :: "rstring list"
  cl_logins :: nat
  cl_token_renewal :: "nat option"
  cl_trace :: "(nat \<times> nat) list option"
  cl_world :: 'w

text \<open>A call of a parameter on the client's world.\<close>

definition on_world :: "('w \<Rightarrow> 'a \<times> 'w) \<Rightarrow> 'w client \<Rightarrow> 'a \<times> 'w client" where
  "on_world f cl = (case f (cl_world cl) of (x, w) \<Rightarrow> (x, cl\<lparr>cl_world := w\<rparr>))"

subsection \<open>The connection\<close>

definition is_open :: "'w client \<Rightarrow> bool" where
  "is_open cl \<longleftrightarrow> cl_connected cl \<and> cl_socket cl"

definition is_connected :: "'w client_ops \<Rightarrow> 'w client \<Rightarrow> bool \<times> 'w client" where
  "is_connected ops cl =
     (if \<not> is_open cl then (False, cl)
      else
        (case cl_token_renewal cl of
           None \<Rightarrow> (True, cl)
         | Some due \<Rightarrow> (case on_world (co_now ops) cl of (now, cl) \<Rightarrow> (\<not> due \<le> now, cl))))"

definition idle_for :: "'w client_ops \<Rightarrow> 'w client \<Rightarrow> nat \<times> 'w client" where
  "idle_for ops cl = (case on_world (co_now ops) cl of (now, cl) \<Rightarrow> (now - cl_last_request cl, cl))"

definition was_revoked :: "rstring \<Rightarrow> nat \<Rightarrow> 'w client \<Rightarrow> bool" where
  "was_revoked db_id lease_epoch cl \<longleftrightarrow>
     (case fmlookup (cl_revoked cl) db_id of Some newer \<Rightarrow> lease_epoch < newer | None \<Rightarrow> False)"

definition note_revoked :: "lease_revoked \<Rightarrow> 'w client \<Rightarrow> 'w client" where
  "note_revoked r cl =
     (let db_id = lr_db_id r;
          newer = (case fmlookup (cl_revoked cl) db_id of Some n \<Rightarrow> n | None \<Rightarrow> 0);
          cl = cl\<lparr>cl_revoked := fmupd db_id newer (cl_revoked cl)\<rparr> in
      if newer < lr_new_lease_epoch r
      then cl\<lparr>cl_revoked := fmupd db_id (lr_new_lease_epoch r) (cl_revoked cl),
              cl_unreported :=
                (if db_id \<in> set (cl_unreported cl) then cl_unreported cl else cl_unreported cl @ [db_id])\<rparr>
      else cl)"

definition take_unreported :: "'w client \<Rightarrow> rstring list \<times> 'w client" where
  "take_unreported cl = (cl_unreported cl, cl\<lparr>cl_unreported := []\<rparr>)"

definition fetch_trace :: "'w client \<Rightarrow> (nat \<times> nat) list" where
  "fetch_trace cl = (case cl_trace cl of Some t \<Rightarrow> t | None \<Rightarrow> [])"

definition disconnect :: "'w client \<Rightarrow> 'w client" where
  "disconnect cl = cl\<lparr>cl_connected := False\<rparr>"

definition client_reachable :: "'w client_ops \<Rightarrow> 'w client \<Rightarrow> bool \<times> 'w client" where
  "client_reachable ops cl = (if cl_socket cl then on_world (co_reachable ops) cl else (True, cl))"

definition open_socket :: "'w client_ops \<Rightarrow> 'w client \<Rightarrow> (unit, client_error) res \<times> 'w client" where
  "open_socket ops cl =
     (if cl_socket cl
      then and_then (apfst (map_err Transport_error) (on_world (co_reopen ops) cl)) (\<lambda>_ cl.
             (Ok (), cl\<lparr>cl_connected := True\<rparr>))
      else and_then (apfst (map_err Transport_error) (on_world (co_dial ops) cl)) (\<lambda>_ cl.
             (Ok (), cl\<lparr>cl_socket := True, cl_connected := True\<rparr>)))"

subsection \<open>Frames\<close>

definition client_send :: "'w client_ops \<Rightarrow> client_body \<Rightarrow> 'w client \<Rightarrow> (nat, client_error) res \<times> 'w client" where
  "client_send ops body cl =
     (if \<not> cl_connected cl \<or> \<not> cl_socket cl then (Err (Transport_error ''not connected''), cl)
      else
        let cl = cl\<lparr>cl_next_id := cl_next_id cl + 1\<rparr>;
            frame = \<lparr>cf_request_id = cl_next_id cl, cf_body = Some body\<rparr> in
        (case on_world (co_send ops (co_encode ops frame)) cl of
           (Ok _, cl) \<Rightarrow>
             (case on_world (co_now ops) cl of (now, cl) \<Rightarrow>
                (Ok (cl_next_id cl), cl\<lparr>cl_last_request := now\<rparr>))
         | (Err err, cl) \<Rightarrow> (Err (Transport_error err), cl\<lparr>cl_connected := False\<rparr>)
         | (Panic, cl) \<Rightarrow> (Panic, cl)
         | (Hang, cl) \<Rightarrow> (Hang, cl)))"

text \<open>Frames with request id 0 are pushed by the server: they are noted and skipped.\<close>

primrec receive_loop :: "nat \<Rightarrow> 'w client_ops \<Rightarrow> 'w client \<Rightarrow> (server_frame, client_error) res \<times> 'w client" where
  "receive_loop 0 ops cl = (Hang, cl)"
| "receive_loop (Suc n) ops cl =
     (if \<not> cl_connected cl \<or> \<not> cl_socket cl then (Err (Transport_error ''not connected''), cl)
      else
        (case on_world (co_receive ops) cl of
           (Err err, cl) \<Rightarrow> (Err (Transport_error err), cl\<lparr>cl_connected := False\<rparr>)
         | (Ok data, cl) \<Rightarrow>
             (case co_decode ops data of
                None \<Rightarrow> (Err (Protocol_error ''malformed frame''), cl)
              | Some frame \<Rightarrow>
                  if sf_request_id frame = 0 then
                    receive_loop n ops
                      (case sf_body frame of Some (LeaseRevoked_body r) \<Rightarrow> note_revoked r cl | _ \<Rightarrow> cl)
                  else (Ok frame, cl))
         | (Panic, cl) \<Rightarrow> (Panic, cl)
         | (Hang, cl) \<Rightarrow> (Hang, cl)))"

definition client_receive :: "'w client_ops \<Rightarrow> 'w client \<Rightarrow> (server_frame, client_error) res \<times> 'w client" where
  "client_receive ops cl = receive_loop (co_turns ops) ops cl"

text \<open>The answer to one request; frames for other requests are skipped.\<close>

definition call_answer :: "server_frame \<Rightarrow> (server_body, client_error) res" where
  "call_answer frame =
     (case sf_body frame of
        Some (Error_body e) \<Rightarrow> Err (Server_error e)
      | Some body \<Rightarrow> Ok body
      | None \<Rightarrow> Err (Protocol_error ''empty response''))"

primrec call_loop :: "nat \<Rightarrow> 'w client_ops \<Rightarrow> nat \<Rightarrow> 'w client \<Rightarrow> (server_body, client_error) res \<times> 'w client" where
  "call_loop 0 ops rid cl = (Hang, cl)"
| "call_loop (Suc n) ops rid cl =
     and_then (client_receive ops cl) (\<lambda>frame cl.
       if sf_request_id frame \<noteq> rid then call_loop n ops rid cl else (call_answer frame, cl))"

definition call :: "'w client_ops \<Rightarrow> client_body \<Rightarrow> 'w client \<Rightarrow> (server_body, client_error) res \<times> 'w client" where
  "call ops body cl = and_then (client_send ops body cl) (\<lambda>rid cl. call_loop (co_turns ops) ops rid cl)"

subsection \<open>Logging in\<close>

definition token_renewal_of :: "nat \<Rightarrow> nat \<Rightarrow> nat option" where
  "token_renewal_of now ttl = (if ttl = 0 then None else Some (now + (ttl - min TOKEN_RENEWAL_MARGIN (ttl div 2))))"

definition say_hello :: "'w client_ops \<Rightarrow> 'w client \<Rightarrow> (unit, client_error) res \<times> 'w client" where
  "say_hello ops cl =
     (let sg = co_signer ops; public_key = sg_public_key sg in
      and_then (case co_token ops of
                  Some source \<Rightarrow> apfst (map_err Token_error) (on_world source cl)
                | None \<Rightarrow> (Ok [], cl)) (\<lambda>token cl.
      and_then (call ops (Hello_body \<lparr>he_protocol_version = PROTOCOL_VERSION, he_instance_id = co_instance_id ops,
                  he_sig_alg = wire_algorithm (sg_algorithm sg), he_public_key = public_key,
                  he_access_token = token\<rparr>) cl) (\<lambda>answer cl.
        case answer of
          Challenge_body ch \<Rightarrow>
            and_then (call ops (Proof_body (sg_sign sg (login_transcript (ch_server_id ch) (ch_nonce ch)
                       (co_instance_id ops) (sg_algorithm sg) public_key))) cl) (\<lambda>answer cl.
              case answer of
                HelloOk_body ok \<Rightarrow>
                  let cl = cl\<lparr>cl_limits := \<lparr>li_max_frame_bytes = ho_max_frame_bytes ok,
                              li_ping_interval = ho_ping_interval_ms ok\<rparr>\<rparr>;
                      ttl = ho_access_token_ttl_ms ok;
                      cl = (if ttl = 0 then cl\<lparr>cl_token_renewal := None\<rparr>
                            else (case on_world (co_now ops) cl of (now, cl) \<Rightarrow>
                                    cl\<lparr>cl_token_renewal := token_renewal_of now ttl\<rparr>));
                      cl = (if cl_socket cl
                            then cl\<lparr>cl_world := co_logged_in ops (ho_ping_interval_ms ok) (cl_world cl)\<rparr> else cl)
                  in (Ok (), cl\<lparr>cl_logins := cl_logins cl + 1\<rparr>)
              | _ \<Rightarrow> (Err (Protocol_error ''expected HelloOk''), cl))
        | _ \<Rightarrow> (Err (Protocol_error ''expected Challenge; refusing a server that does not authenticate clients''), cl))))"

definition log_in :: "'w client_ops \<Rightarrow> 'w client \<Rightarrow> (unit, client_error) res \<times> 'w client" where
  "log_in ops cl =
     (case say_hello ops cl of
        (Err err, cl) \<Rightarrow>
          if is_access_denied err \<and> co_token ops \<noteq> None
          then and_then (open_socket ops cl) (\<lambda>_ cl. say_hello ops cl)
          else (Err err, cl)
      | result \<Rightarrow> result)"

definition reconnect :: "'w client_ops \<Rightarrow> 'w client \<Rightarrow> (unit, client_error) res \<times> 'w client" where
  "reconnect ops cl = and_then (open_socket ops cl) (\<lambda>_ cl. log_in ops cl)"

definition new_client :: "'w client_ops \<Rightarrow> bool \<Rightarrow> 'w \<Rightarrow> 'w client" where
  "new_client ops opened w =
     (case co_now ops w of (now, w) \<Rightarrow>
       \<lparr>cl_socket = opened, cl_connected = opened, cl_limits = \<lparr>li_max_frame_bytes = 0, li_ping_interval = 10000\<rparr>,
        cl_next_id = 0, cl_last_request = now, cl_revoked = fmempty, cl_unreported = [], cl_logins = 0,
        cl_token_renewal = None, cl_trace = (if co_trace_fetches ops then Some [] else None), cl_world = w\<rparr>)"

definition connect :: "'w client_ops \<Rightarrow> 'w \<Rightarrow> (unit, client_error) res \<times> 'w client" where
  "connect ops w = reconnect ops (new_client ops False w)"

definition with_transport :: "'w client_ops \<Rightarrow> 'w \<Rightarrow> (unit, client_error) res \<times> 'w client" where
  "with_transport ops w = log_in ops (new_client ops True w)"

subsection \<open>Requests\<close>

definition client_delete :: "'w client_ops \<Rightarrow> rstring \<Rightarrow> bool \<Rightarrow> 'w client \<Rightarrow> (unit, client_error) res \<times> 'w client" where
  "client_delete ops db_id takeover cl =
     and_then (call ops (Delete_body \<lparr>de_db_id = db_id, de_takeover = takeover\<rparr>) cl) (\<lambda>answer cl.
       case answer of Ok_body \<Rightarrow> (Ok (), cl) | _ \<Rightarrow> (Err (Protocol_error ''expected Ok''), cl))"

definition client_claim_slot :: "'w client_ops \<Rightarrow> 'w client \<Rightarrow> (slot_msg, client_error) res \<times> 'w client" where
  "client_claim_slot ops cl =
     and_then (call ops ClaimSlot_body cl) (\<lambda>answer cl.
       case answer of Slot_body slot \<Rightarrow> (Ok slot, cl) | _ \<Rightarrow> (Err (Protocol_error ''expected Slot''), cl))"

definition client_set_slot_label ::
  "'w client_ops \<Rightarrow> rstring \<Rightarrow> 'w client \<Rightarrow> (slot_msg, client_error) res \<times> 'w client" where
  "client_set_slot_label ops label cl =
     and_then (call ops (SetSlotLabel_body label) cl) (\<lambda>answer cl.
       case answer of Slot_body slot \<Rightarrow> (Ok slot, cl) | _ \<Rightarrow> (Err (Protocol_error ''expected Slot''), cl))"

definition client_delete_slot :: "'w client_ops \<Rightarrow> 'w client \<Rightarrow> (unit, client_error) res \<times> 'w client" where
  "client_delete_slot ops cl =
     and_then (call ops DeleteSlot_body cl) (\<lambda>answer cl.
       case answer of Ok_body \<Rightarrow> (Ok (), cl) | _ \<Rightarrow> (Err (Protocol_error ''expected Ok''), cl))"

definition client_changes :: "'w client_ops \<Rightarrow> rstring \<Rightarrow> nat \<Rightarrow> 'w client \<Rightarrow> (changes_msg, client_error) res \<times> 'w client" where
  "client_changes ops db_id from_version cl =
     and_then (call ops (Changed_body \<lparr>cg_db_id = db_id, cg_from_version = from_version\<rparr>) cl) (\<lambda>answer cl.
       case answer of Changes_body changes \<Rightarrow> (Ok changes, cl) | _ \<Rightarrow> (Err (Protocol_error ''expected Changes''), cl))"

subsection \<open>Fetching\<close>

text \<open>The indexes of the blocks of a frame.  The addition wraps at 64 bits, as it does without overflow checks.\<close>

definition frame_blocks :: "pages_msg \<Rightarrow> (nat \<times> bytes) list" where
  "frame_blocks p =
     map (\<lambda>(offset, data). ((pm_first_block p + offset) mod U64, data)) (enumerate 0 (pm_blocks p))"

primrec fetch_loop ::
  "nat \<Rightarrow> 'w client_ops \<Rightarrow> nat \<Rightarrow> nat \<Rightarrow> nat \<Rightarrow> (nat \<times> bytes) list \<Rightarrow> 'w client \<Rightarrow>
     ((nat \<times> bytes) list, client_error) res \<times> 'w client" where
  "fetch_loop 0 ops rid expected block_size blocks cl = (Hang, cl)"
| "fetch_loop (Suc n) ops rid expected block_size blocks cl =
     and_then (client_receive ops cl) (\<lambda>frame cl.
       if sf_request_id frame \<noteq> rid then fetch_loop n ops rid expected block_size blocks cl
       else
         (case sf_body frame of
            Some (Pages_body p) \<Rightarrow>
              if list_ex (\<lambda>data. length data \<noteq> block_size) (pm_blocks p)
              then (Err (Protocol_error ''block of another size''), cl)
              else
                let blocks = blocks @ frame_blocks p in
                if pm_last p then
                  if length blocks \<noteq> expected then (Err (Protocol_error ''received another number of blocks''), cl)
                  else (Ok blocks, cl)
                else fetch_loop n ops rid expected block_size blocks cl
          | Some (Error_body e) \<Rightarrow> (Err (Server_error e), cl)
          | _ \<Rightarrow> (Err (Protocol_error ''expected Pages''), cl)))"

definition fetch_frames ::
  "'w client_ops \<Rightarrow> fetch_msg \<Rightarrow> nat \<Rightarrow> nat \<Rightarrow> 'w client \<Rightarrow> ((nat \<times> bytes) list, client_error) res \<times> 'w client" where
  "fetch_frames ops fetch expected block_size cl =
     and_then (client_send ops (Fetch_body fetch) cl) (\<lambda>rid cl.
       fetch_loop (co_turns ops) ops rid expected block_size [] cl)"

definition fetch_blocks ::
  "'w client_ops \<Rightarrow> fetch_msg \<Rightarrow> nat \<Rightarrow> 'w client \<Rightarrow> (bytes list, client_error) res \<times> 'w client" where
  "fetch_blocks ops fetch block_size cl =
     (let cl = cl\<lparr>cl_trace := map_option (\<lambda>t. t @ [(fe_first_block fetch, fe_count fetch)]) (cl_trace cl)\<rparr> in
      and_then (fetch_frames ops fetch (fe_count fetch) block_size cl) (\<lambda>blocks cl. (Ok (map snd blocks), cl)))"

definition fetch_ranges ::
  "'w client_ops \<Rightarrow> rstring \<Rightarrow> nat \<Rightarrow> (nat \<times> nat) list \<Rightarrow> nat \<Rightarrow> 'w client \<Rightarrow>
     ((nat \<times> bytes) list, client_error) res \<times> 'w client" where
  "fetch_ranges ops db_id version ranges block_size cl =
     (let cl = cl\<lparr>cl_trace := map_option (\<lambda>t. t @ ranges) (cl_trace cl)\<rparr>;
          expected = sum_list (map snd ranges) mod U64 in
      fetch_frames ops \<lparr>fe_db_id = db_id, fe_version = version, fe_first_block = 0, fe_count = 0,
          fe_ranges = map (\<lambda>(first, count). \<lparr>ra_first_block = first, ra_count = count\<rparr>) ranges\<rparr>
        expected block_size cl)"

subsection \<open>Committing\<close>

primrec send_parts :: "'w client_ops \<Rightarrow> commit_msg list \<Rightarrow> 'w client \<Rightarrow> (nat list, client_error) res \<times> 'w client" where
  "send_parts ops [] cl = (Ok [], cl)"
| "send_parts ops (part # parts) cl =
     and_then (client_send ops (Commit_body part) cl) (\<lambda>rid cl.
     and_then (send_parts ops parts cl) (\<lambda>ids cl. (Ok (rid # ids), cl)))"

text \<open>The first rejection is kept; the answer to the last part ends the wait.\<close>

primrec commit_loop ::
  "nat \<Rightarrow> 'w client_ops \<Rightarrow> nat list \<Rightarrow> pb_error option \<Rightarrow> 'w client \<Rightarrow> (nat, client_error) res \<times> 'w client" where
  "commit_loop 0 ops ids refusal cl = (Hang, cl)"
| "commit_loop (Suc n) ops ids refusal cl =
     and_then (client_receive ops cl) (\<lambda>frame cl.
       if sf_request_id frame \<notin> set ids then commit_loop n ops ids refusal cl
       else
         (case sf_body frame of
            Some (Error_body e) \<Rightarrow>
              let refusal = (case refusal of None \<Rightarrow> Some e | Some _ \<Rightarrow> refusal) in
              if sf_request_id frame = last ids
              then (Err (Server_error (case refusal of Some e \<Rightarrow> e | None \<Rightarrow> default_error)), cl)
              else commit_loop n ops ids refusal cl
          | Some (CommitAck_body ack) \<Rightarrow>
              if sf_request_id frame = last ids
              then (case refusal of Some e \<Rightarrow> (Err (Server_error e), cl) | None \<Rightarrow> (Ok (ca_version ack), cl))
              else (Err (Protocol_error ''unexpected response to a commit''), cl)
          | _ \<Rightarrow> (Err (Protocol_error ''unexpected response to a commit''), cl)))"

definition client_commit :: "'w client_ops \<Rightarrow> commit_msg list \<Rightarrow> 'w client \<Rightarrow> (nat, client_error) res \<times> 'w client" where
  "client_commit ops parts cl =
     and_then (send_parts ops parts cl) (\<lambda>ids cl.
       if ids = [] then (Err (Protocol_error ''commit without parts''), cl)
       else commit_loop (co_turns ops) ops ids None cl)"

end
