(* ===== verification/File_Store.thy ===== *)
theory File_Store
  imports Pages
begin

text \<open>
  The local copy of a database in a file (\<open>local.rs\<close>, module \<open>file\<close>): the header, the bitmap of the
  blocks present, and the operations of \<open>FileStore\<close> as \<open>LocalStore\<close>.

  The operating system's file is part of the state: what is durable, the operations since the last
  \<open>sync_data\<close>, and a list of faults, one entry per system call.  \<open>None\<close> lets the call succeed, \<open>Some k\<close>
  makes it fail; a failing write has then written its first \<open>k\<close> bytes.
\<close>

unbundle bit_operations_syntax

subsection \<open>The file\<close>

datatype file_op = Write_at nat bytes | Set_len nat | Remove

fun apply_op :: "file_op \<Rightarrow> bytes \<Rightarrow> bytes" where
  "apply_op (Write_at off d) f =
     (if d = [] then f else take off f @ zeros (off - length f) @ d @ drop (off + length d) f)"
| "apply_op (Set_len n) f = take n f @ zeros (n - length f)"
| "apply_op Remove f = []"

record file_store =
  fs_open :: bool
  fs_disk :: bytes
  fs_log :: "file_op list"
  fs_faults :: "nat option list"

definition fs_new :: "bytes \<Rightarrow> nat option list \<Rightarrow> file_store" where
  "fs_new disk faults = \<lparr>fs_open = False, fs_disk = disk, fs_log = [], fs_faults = faults\<rparr>"

text \<open>What a read of the file sees.\<close>

definition fs_bytes :: "file_store \<Rightarrow> bytes" where
  "fs_bytes s = fold apply_op (fs_log s) (fs_disk s)"

definition os_call :: "file_store \<Rightarrow> nat option \<times> file_store" where
  "os_call s = (case fs_faults s of [] \<Rightarrow> (None, s) | f # fs \<Rightarrow> (f, s\<lparr>fs_faults := fs\<rparr>))"

text \<open>A call without effect on the file: \<open>open\<close>, \<open>seek\<close>, \<open>metadata\<close>.\<close>

definition os_try :: "file_store \<Rightarrow> (unit, message) res \<times> file_store" where
  "os_try s = (case os_call s of (None, s) \<Rightarrow> (Ok (), s) | (Some _, s) \<Rightarrow> (Err ''I/O error'', s))"

definition os_write :: "nat \<Rightarrow> bytes \<Rightarrow> file_store \<Rightarrow> (unit, message) res \<times> file_store" where
  "os_write off d s =
     (case os_call s of
        (None, s) \<Rightarrow> (Ok (), s\<lparr>fs_log := fs_log s @ [Write_at off d]\<rparr>)
      | (Some k, s) \<Rightarrow> (Err ''I/O error'', s\<lparr>fs_log := fs_log s @ [Write_at off (take k d)]\<rparr>))"

definition os_set_len :: "nat \<Rightarrow> file_store \<Rightarrow> (unit, message) res \<times> file_store" where
  "os_set_len n s = and_then (os_try s) (\<lambda>_ s. (Ok (), s\<lparr>fs_log := fs_log s @ [Set_len n]\<rparr>))"

definition os_sync :: "file_store \<Rightarrow> (unit, message) res \<times> file_store" where
  "os_sync s = and_then (os_try s) (\<lambda>_ s. (Ok (), s\<lparr>fs_disk := fs_bytes s, fs_log := []\<rparr>))"

text \<open>\<open>read_exact\<close>; reading past the end fails.\<close>

definition os_read_exact :: "nat \<Rightarrow> nat \<Rightarrow> file_store \<Rightarrow> (bytes, message) res \<times> file_store" where
  "os_read_exact off n s =
     and_then (os_try s) (\<lambda>_ s.
       case get_slice (fs_bytes s) off n of
         Some d \<Rightarrow> (Ok d, s)
       | None \<Rightarrow> (Err ''failed to fill whole buffer'', s))"

definition fs_open_file :: "file_store \<Rightarrow> (unit, message) res \<times> file_store" where
  "fs_open_file s =
     (if fs_open s then (Ok (), s) else and_then (os_try s) (\<lambda>_ s. (Ok (), s\<lparr>fs_open := True\<rparr>)))"

subsection \<open>The header\<close>

definition MAGIC :: bytes where "MAGIC = map of_char ''rvfslcl2''"
definition HEADER_BYTES :: nat where "HEADER_BYTES = 4096"
definition CLEAN :: byte where "CLEAN = 0"
definition WRITING :: byte where "WRITING = 1"

text \<open>A subject and a name that do not fit behind the fixed fields make the slice assignments panic.\<close>

definition encode :: "head \<Rightarrow> byte \<Rightarrow> (bytes, message) res" where
  "encode h state =
     (let subject = hd_subject h; db_id = hd_db_id h; used = 36 + length subject + length db_id in
      if HEADER_BYTES < used then Panic
      else Ok (MAGIC @ [state, 0, 0, 0] @ to_le_bytes 4 (hd_page_size h) @ to_le_bytes 8 (hd_page_count h) @
        to_le_bytes 8 (hd_version h) @ to_le_bytes 2 (length subject) @ to_le_bytes 2 (length db_id) @
        subject @ db_id @ zeros (HEADER_BYTES - used)))"

definition decode :: "bytes \<Rightarrow> (head \<times> byte) option" where
  "decode bs =
     (if sub_slice bs 0 8 \<noteq> MAGIC then None
      else
        let state = bs ! 8;
            page_size = from_le_bytes (sub_slice bs 12 4);
            page_count = from_le_bytes (sub_slice bs 16 8) in
        if page_size = 0 \<or> MAX_PAGE_SIZE < page_size \<or> MAX_PAGE_COUNT < page_count then None
        else
          let version = from_le_bytes (sub_slice bs 24 8);
              subject_len = from_le_bytes (sub_slice bs 32 2);
              db_id_len = from_le_bytes (sub_slice bs 34 2) in
          Option.bind (get_slice bs 36 subject_len) (\<lambda>s. Option.bind (from_utf8 s) (\<lambda>subject.
          Option.bind (get_slice bs (36 + subject_len) db_id_len) (\<lambda>d. Option.bind (from_utf8 d) (\<lambda>db_id.
            Some (\<lparr>hd_subject = subject, hd_db_id = db_id, hd_page_size = page_size,
                   hd_page_count = page_count, hd_version = version\<rparr>, state))))))"

definition read_header :: "file_store \<Rightarrow> ((head \<times> byte) option, message) res \<times> file_store" where
  "read_header s =
     and_then (fs_open_file s) (\<lambda>_ s.
     and_then (os_try s) (\<lambda>_ s.
       if length (fs_bytes s) < HEADER_BYTES then (Ok None, s)
       else and_then (os_try s) (\<lambda>_ s.
            and_then (os_read_exact 0 HEADER_BYTES s) (\<lambda>bs s. (Ok (decode bs), s)))))"

definition write_header :: "head \<Rightarrow> byte \<Rightarrow> file_store \<Rightarrow> (unit, message) res \<times> file_store" where
  "write_header h state s =
     and_then (encode h state, s) (\<lambda>bs s.
     and_then (fs_open_file s) (\<lambda>_ s.
     and_then (os_try s) (\<lambda>_ s.
     and_then (os_write 0 bs s) (\<lambda>_ s. os_sync s))))"

subsection \<open>The bitmap of the blocks present\<close>

definition present_empty :: "nat \<Rightarrow> bytes" where
  "present_empty page_count = zeros (div_ceil page_count 8)"

definition present_has :: "bytes \<Rightarrow> nat \<Rightarrow> bool" where
  "present_has bits index =
     (let byte = index div 8 in byte < length bits \<and> bits ! byte AND push_bit (index mod 8) 1 \<noteq> 0)"

definition present_set :: "bytes \<Rightarrow> nat \<Rightarrow> bytes" where
  "present_set bits index =
     (let byte = index div 8 in
      if byte < length bits then bits[byte := bits ! byte OR push_bit (index mod 8) 1] else bits)"

definition present_clear :: "bytes \<Rightarrow> nat \<Rightarrow> bytes" where
  "present_clear bits index =
     (let byte = index div 8 in
      if byte < length bits then bits[byte := bits ! byte AND NOT (push_bit (index mod 8) 1)] else bits)"

definition next_multiple_of :: "nat \<Rightarrow> nat \<Rightarrow> nat" where
  "next_multiple_of n k = div_ceil n k * k"

definition present_resized :: "bytes \<Rightarrow> nat \<Rightarrow> bytes" where
  "present_resized bits page_count =
     (let nxt = present_empty page_count; n = min (length nxt) (length bits) in
      fold (\<lambda>index bs. present_clear bs index) [page_count..<next_multiple_of page_count 8]
        (overwrite nxt 0 (take n bits)))"

definition bits_at :: "head \<Rightarrow> nat" where
  "bits_at h = HEADER_BYTES + hd_page_count h * hd_page_size h"

definition read_present :: "head \<Rightarrow> file_store \<Rightarrow> (bytes, message) res \<times> file_store" where
  "read_present h s =
     (let n = div_ceil (hd_page_count h) 8; at = bits_at h in
      and_then (fs_open_file s) (\<lambda>_ s.
      and_then (os_try s) (\<lambda>_ s.
        if length (fs_bytes s) < at + n then (Ok (present_empty (hd_page_count h)), s)
        else and_then (os_try s) (\<lambda>_ s. os_read_exact at n s))))"

subsection \<open>The operations\<close>

definition fs_head :: "file_store \<Rightarrow> (head option, message) res \<times> file_store" where
  "fs_head s =
     and_then (read_header s) (\<lambda>found s.
       (Ok (case found of Some (h, state) \<Rightarrow> if state = CLEAN then Some h else None | None \<Rightarrow> None), s))"

text \<open>The loop of \<open>read\<close>, from file position \<open>at\<close> on.\<close>

primrec read_blocks :: "nat \<Rightarrow> nat \<Rightarrow> nat \<Rightarrow> file_store \<Rightarrow> (bytes list, message) res \<times> file_store" where
  "read_blocks 0 page_size at s = (Ok [], s)"
| "read_blocks (Suc n) page_size at s =
     and_then (os_read_exact at page_size s) (\<lambda>b s.
     and_then (read_blocks n page_size (at + page_size) s) (\<lambda>bs s. (Ok (b # bs), s)))"

definition fs_read :: "nat \<Rightarrow> nat \<Rightarrow> file_store \<Rightarrow> (bytes list, message) res \<times> file_store" where
  "fs_read first count s =
     and_then (read_header s) (\<lambda>found s.
       case found of
         Some (h, state) \<Rightarrow>
           if state = CLEAN then
             and_then (read_present h s) (\<lambda>present s.
               let run = length (takeWhile (present_has present) [first..<min (first + count) (hd_page_count h)]) in
               if run = 0 then (Ok [], s)
               else and_then (fs_open_file s) (\<lambda>_ s.
                    and_then (os_try s) (\<lambda>_ s.
                      read_blocks run (hd_page_size h) (HEADER_BYTES + first * hd_page_size h) s)))
           else (Ok [], s)
       | None \<Rightarrow> (Ok [], s))"

primrec write_blocks ::
  "head \<Rightarrow> (nat \<times> bytes) list \<Rightarrow> bytes \<Rightarrow> file_store \<Rightarrow> (bytes, message) res \<times> file_store" where
  "write_blocks h [] present s = (Ok present, s)"
| "write_blocks h (b # bs) present s =
     (if hd_page_count h \<le> fst b then write_blocks h bs present s
      else
        and_then (os_try s) (\<lambda>_ s.
        and_then (os_write (HEADER_BYTES + fst b * hd_page_size h) (snd b) s) (\<lambda>_ s.
          write_blocks h bs (present_set present (fst b)) s)))"

text \<open>The end of \<open>write\<close> and \<open>forget\<close>: the bitmap, the length, and the header as clean.\<close>

definition write_present :: "head \<Rightarrow> bytes \<Rightarrow> file_store \<Rightarrow> (unit, message) res \<times> file_store" where
  "write_present h present s =
     (let at = bits_at h in
      and_then (os_try s) (\<lambda>_ s.
      and_then (os_write at present s) (\<lambda>_ s.
      and_then (os_set_len (at + length present) s) (\<lambda>_ s.
      and_then (os_sync s) (\<lambda>_ s. write_header h CLEAN s)))))"

definition fs_write :: "head \<Rightarrow> (nat \<times> bytes) list \<Rightarrow> file_store \<Rightarrow> (unit, message) res \<times> file_store" where
  "fs_write h blocks s =
     and_then (read_header s) (\<lambda>found s.
       let before = map_option fst found in
       and_then (case before of
                   Some b \<Rightarrow> and_then (read_present b s) (\<lambda>p s. (Ok (present_resized p (hd_page_count h)), s))
                 | None \<Rightarrow> (Ok (present_empty (hd_page_count h)), s)) (\<lambda>present s.
       let stale = (case before of Some b \<Rightarrow> b | None \<Rightarrow> h\<lparr>hd_version := 0\<rparr>) in
       and_then (write_header stale WRITING s) (\<lambda>_ s.
       and_then (fs_open_file s) (\<lambda>_ s.
       and_then (write_blocks h blocks present s) (\<lambda>present s. write_present h present s)))))"

definition fs_forget :: "head \<Rightarrow> nat list \<Rightarrow> file_store \<Rightarrow> (unit, message) res \<times> file_store" where
  "fs_forget h blocks s =
     and_then (read_header s) (\<lambda>found s.
       case map_option fst found of
         None \<Rightarrow> (Err ''no local copy to catch up'', s)
       | Some before \<Rightarrow>
           and_then (read_present before s) (\<lambda>p s.
             let present = fold (\<lambda>index bs. present_clear bs index) blocks (present_resized p (hd_page_count h)) in
             and_then (write_header before WRITING s) (\<lambda>_ s.
             and_then (fs_open_file s) (\<lambda>_ s. write_present h present s))))"

text \<open>A file that does not exist is cleared already.\<close>

definition fs_clear :: "file_store \<Rightarrow> (unit, message) res \<times> file_store" where
  "fs_clear s =
     and_then (os_try (s\<lparr>fs_open := False\<rparr>)) (\<lambda>_ s. (Ok (), s\<lparr>fs_log := fs_log s @ [Remove]\<rparr>))"

end
