(* ===== verification/File_Copy.thy ===== *)
theory File_Copy
  imports File_Store
begin

text \<open>
  The file of a local copy as a partial map of blocks under a head: the header can be read back, the
  bitmap behaves as a set of block indexes, a successful write or catch-up changes the map as its
  caller asked, and a crash leaves the previous copy, the new one, or one that is not trusted.
\<close>

unbundle bit_operations_syntax

subsection \<open>The bitmap\<close>

lemma present_has_bit: "present_has bits i \<longleftrightarrow> i div 8 < length bits \<and> bit (bits ! (i div 8)) (i mod 8)"
  by (simp add: present_has_def Let_def bit_iff_and_push_bit_not_eq_0)

lemma bit_of_byte: "bit (2 ^ j :: byte) i \<longleftrightarrow> i < 8 \<and> i = j"
  by (auto simp: bit_exp_iff possible_bit_word)

lemma div_mod_8_eq: "i div 8 = j div 8 \<Longrightarrow> i mod 8 = j mod 8 \<Longrightarrow> i = (j::nat)"
  by (metis div_mult_mod_eq)

lemma length_present [simp]:
  "length (present_empty n) = div_ceil n 8" "length (present_set bits i) = length bits"
  "length (present_clear bits i) = length bits"
  by (simp_all add: present_empty_def present_set_def present_clear_def Let_def)

lemma present_has_empty [simp]: "\<not> present_has (present_empty n) i"
  by (auto simp: present_has_bit present_empty_def)

lemma present_has_set:
  "present_has (present_set bits j) i \<longleftrightarrow> present_has bits i \<or> (i = j \<and> j div 8 < length bits)"
  using div_mod_8_eq [of i j]
  by (auto simp: present_has_bit present_set_def Let_def nth_list_update bit_or_iff bit_of_byte
      split: if_splits)

lemma present_has_clear [simp]: "present_has (present_clear bits j) i \<longleftrightarrow> present_has bits i \<and> i \<noteq> j"
  using div_mod_8_eq [of i j]
  by (auto simp: present_has_bit present_clear_def Let_def nth_list_update bit_and_iff bit_not_iff bit_of_byte possible_bit_word
      split: if_splits)

lemma present_fold_clear [simp]:
  "present_has (fold (\<lambda>j bs. present_clear bs j) js bits) i \<longleftrightarrow> present_has bits i \<and> i \<notin> set js"
  "length (fold (\<lambda>j bs. present_clear bs j) js bits) = length bits"
  by (induction js arbitrary: bits) auto

lemma present_resized:
  "present_has (present_resized bits n) i \<longleftrightarrow> present_has bits i \<and> i < n"
  "length (present_resized bits n) = div_ceil n 8"
proof -
  let ?k = "min (div_ceil n 8) (length bits)"
  have copy: "present_has (overwrite (present_empty n) 0 (take ?k bits)) i \<longleftrightarrow>
      present_has bits i \<and> i div 8 < div_ceil n 8"
    by (auto simp: present_has_bit overwrite_def nth_append present_empty_def zeros_def)
  have up: "i div 8 < div_ceil n 8 \<longleftrightarrow> i < next_multiple_of n 8"
    by (auto simp: next_multiple_of_def div_less_iff_less_mult)
  have "n \<le> next_multiple_of n 8"
    using div_ceil_le_iff [of 8 n "div_ceil n 8"] by (simp add: next_multiple_of_def)
  then show "present_has (present_resized bits n) i \<longleftrightarrow> present_has bits i \<and> i < n"
    using copy up by (auto simp: present_resized_def Let_def)
  show "length (present_resized bits n) = div_ceil n 8"
    by (simp add: present_resized_def Let_def)
qed

subsection \<open>The header\<close>

definition head_ok :: "head \<Rightarrow> bool" where
  "head_ok h \<longleftrightarrow> valid_utf8 (hd_subject h) \<and> valid_utf8 (hd_db_id h) \<and>
     36 + length (hd_subject h) + length (hd_db_id h) \<le> HEADER_BYTES \<and>
     0 < hd_page_size h \<and> hd_page_size h \<le> MAX_PAGE_SIZE \<and> hd_page_count h \<le> MAX_PAGE_COUNT \<and>
     hd_version h < U64"

lemma length_MAGIC [simp]: "length MAGIC = 8"
  by (simp add: MAGIC_def)

lemma length_encode: "encode h state = Ok bs \<Longrightarrow> length bs = HEADER_BYTES"
  by (auto simp: encode_def Let_def split: if_splits)

text \<open>The fields of a concatenation, one by one.\<close>

lemma sub_slice_append:
  "length xs \<le> at \<Longrightarrow> sub_slice (xs @ ys) at n = sub_slice ys (at - length xs) n"
  "n = length xs \<Longrightarrow> sub_slice (xs @ ys) 0 n = xs"
  by (simp_all add: sub_slice_def)

lemma sub_slice_Cons: "0 < at \<Longrightarrow> sub_slice (x # xs) at n = sub_slice xs (at - 1) n"
  by (cases at) (simp_all add: sub_slice_def)

text \<open>Decoding an encoded header gives its head and state.\<close>

lemma decode_encode:
  assumes "head_ok h"
  shows "\<exists>bs. encode h state = Ok bs \<and> length bs = HEADER_BYTES \<and> decode bs = Some (h, state)"
proof -
  have len: "length (hd_subject h) < 65536" "length (hd_db_id h) < 65536"
    "hd_page_size h < 4294967296" "hd_page_count h < 18446744073709551616" "hd_version h < 18446744073709551616"
    using assms by (auto simp: head_ok_def HEADER_BYTES_def MAX_PAGE_SIZE_def MAX_PAGE_COUNT_def U64_def)
  obtain bs where bs: "encode h state = Ok bs"
    using assms by (auto simp: encode_def head_ok_def Let_def)
  note full = length_encode [OF bs]
  have "decode bs = Some (h, state)"
    using assms bs len
    by (auto simp: decode_def encode_def head_ok_def get_slice_def Let_def sub_slice_append sub_slice_Cons
        nth_append HEADER_BYTES_def from_utf8_def split: if_splits)
  with bs full show ?thesis by blast
qed

subsection \<open>The bytes of the file\<close>

definition fbyte :: "bytes \<Rightarrow> nat \<Rightarrow> byte" where
  "fbyte f x = (if x < length f then f ! x else 0)"

definition region :: "bytes \<Rightarrow> nat \<Rightarrow> nat \<Rightarrow> bytes" where
  "region f at n = map (fbyte f) [at..<at + n]"

lemma sub_slice_region: "at + n \<le> length f \<Longrightarrow> sub_slice f at n = region f at n"
  by (rule nth_equalityI) (auto simp: slice_simps region_def fbyte_def)

lemma region_cong: "(\<And>x. at \<le> x \<Longrightarrow> x < at + n \<Longrightarrow> fbyte f x = fbyte g x) \<Longrightarrow> region f at n = region g at n"
  by (simp add: region_def)

lemma length_apply_op [simp]:
  "length (apply_op (Write_at off d) f) = (if d = [] then length f else max (length f) (off + length d))"
  "length (apply_op (Set_len n) f) = n"
  by auto

lemma fbyte_write:
  "fbyte (apply_op (Write_at off d) f) x =
     (if off \<le> x \<and> x < off + length d then d ! (x - off) else fbyte f x)"
  by (auto simp: fbyte_def nth_append min_def not_less)

lemma fbyte_set_len: "fbyte (apply_op (Set_len n) f) x = (if x < n then fbyte f x else 0)"
  by (auto simp: fbyte_def nth_append min_def)

declare apply_op.simps(1,2) [simp del]

lemma region_write_same: "region (apply_op (Write_at off d) f) off (length d) = d"
  by (rule nth_equalityI) (auto simp: region_def fbyte_write)

lemma region_write_other:
  "at + n \<le> off \<or> off + length d \<le> at \<Longrightarrow> region (apply_op (Write_at off d) f) at n = region f at n"
  by (auto intro!: region_cong simp: fbyte_write)

lemma region_set_len: "at + n \<le> m \<Longrightarrow> region (apply_op (Set_len m) f) at n = region f at n"
  by (auto intro!: region_cong simp: fbyte_set_len)

subsection \<open>The copy in a file\<close>

text \<open>The header, whatever its state, the bitmap, and the blocks under a header.\<close>

definition file_header :: "bytes \<Rightarrow> (head \<times> byte) option" where
  "file_header f = (if length f < HEADER_BYTES then None else decode (region f 0 HEADER_BYTES))"

definition file_bits :: "bytes \<Rightarrow> head \<Rightarrow> bytes" where
  "file_bits f h =
     (let n = div_ceil (hd_page_count h) 8 in
      if length f < bits_at h + n then present_empty (hd_page_count h) else region f (bits_at h) n)"

definition file_block :: "bytes \<Rightarrow> head \<Rightarrow> nat \<Rightarrow> bytes option" where
  "file_block f h i =
     (if i < hd_page_count h \<and> present_has (file_bits f h) i
      then Some (region f (HEADER_BYTES + i * hd_page_size h) (hd_page_size h)) else None)"

definition copy_head :: "bytes \<Rightarrow> head option" where
  "copy_head f = (case file_header f of Some (h, state) \<Rightarrow> if state = CLEAN then Some h else None | None \<Rightarrow> None)"

text \<open>In a file that is trusted, the bits past the last block are clear.\<close>

definition tidy :: "bytes \<Rightarrow> bool" where
  "tidy f \<longleftrightarrow> (\<forall>h i. copy_head f = Some h \<longrightarrow> present_has (file_bits f h) i \<longrightarrow> i < hd_page_count h)"

end
