(* ===== verification/File_Crash.thy ===== *)
theory File_Crash
  imports File_Copy
begin

text \<open>
  Writing the file of a local copy, with every call that can fail and a crash at any point.

  A crash keeps any of the operations since the last \<open>sync_data\<close>.  A write behind the header may also
  be torn: any bytes may be left in its range.  The header is written in one call at the start of the
  file; that write is kept or lost as a whole, and a failing one has written nothing
  (\<open>header_atomic\<close>).
\<close>

inductive survives :: "file_op list \<Rightarrow> bytes \<Rightarrow> bytes \<Rightarrow> bool" where
  all_done: "survives [] f f"
| lost: "survives ops f g \<Longrightarrow> survives (op # ops) f g"
| kept: "survives ops (apply_op op f) g \<Longrightarrow> survives (op # ops) f g"
| torn: "HEADER_BYTES \<le> off \<Longrightarrow> survives ops (apply_op (Write_at off d') f) g \<Longrightarrow>
    survives (Write_at off d # ops) f g"

inductive_cases survives_NilE [elim!]: "survives [] f g"
inductive_cases survives_ConsE: "survives (op # ops) f g"

definition header_atomic :: "file_store \<Rightarrow> bool" where
  "header_atomic s \<longleftrightarrow> set (fs_faults s) \<subseteq> {None, Some 0}"

lemma survives_snoc:
  assumes "survives (ops @ [op]) f g"
  obtains g' where "survives ops f g'"
    and "g = g' \<or> g = apply_op op g' \<or> (\<exists>off d d'. op = Write_at off d \<and> HEADER_BYTES \<le> off \<and>
      g = apply_op (Write_at off d') g')"
  using assms
proof (induction ops arbitrary: f thesis)
  case Nil
  from Nil(2) show ?case
    by (auto elim!: survives_ConsE intro!: Nil(1) survives.all_done)
next
  case (Cons a ops)
  from Cons.prems(2) have "survives (a # (ops @ [op])) f g" by simp
  then show ?case
  proof cases
    case lost
    then show ?thesis using Cons.IH [of f] Cons.prems(1) survives.lost by metis
  next
    case kept
    then show ?thesis using Cons.IH [of "apply_op a f"] Cons.prems(1) survives.kept by metis
  next
    case (torn off d' d)
    then show ?thesis using Cons.IH [of "apply_op (Write_at off d') f"] Cons.prems(1) survives.torn by metis
  qed
qed

lemma survives_all: "survives ops f (fold apply_op ops f)"
  by (induction ops arbitrary: f) (auto intro: survives.intros)

text \<open>Operations behind the header leave it alone.\<close>

fun behind_header :: "file_op \<Rightarrow> bool" where
  "behind_header (Write_at off d) \<longleftrightarrow> HEADER_BYTES \<le> off"
| "behind_header (Set_len n) \<longleftrightarrow> HEADER_BYTES \<le> n"
| "behind_header Remove \<longleftrightarrow> False"

lemma behind_header_apply:
  "behind_header op \<Longrightarrow> HEADER_BYTES \<le> length f \<Longrightarrow>
     HEADER_BYTES \<le> length (apply_op op f) \<and> region (apply_op op f) 0 HEADER_BYTES = region f 0 HEADER_BYTES"
  by (cases op) (auto simp: region_write_other region_set_len)

lemma behind_header_survives:
  assumes "survives ops f g" and "\<forall>op \<in> set ops. behind_header op" and "HEADER_BYTES \<le> length f"
  shows "HEADER_BYTES \<le> length g \<and> region g 0 HEADER_BYTES = region f 0 HEADER_BYTES"
  using assms
proof (induction rule: survives.induct)
  case (kept ops op f g)
  then show ?case using behind_header_apply [of op f] by simp
next
  case (torn off ops d' f g d)
  then show ?case using behind_header_apply [of "Write_at off d'" f] by simp
qed simp_all

lemma file_header_cong:
  "HEADER_BYTES \<le> length g \<and> region g 0 HEADER_BYTES = region f 0 HEADER_BYTES \<Longrightarrow> HEADER_BYTES \<le> length f \<Longrightarrow>
     file_header g = file_header f"
  by (simp add: file_header_def)

text \<open>A header in the writing state, or none, is not trusted.\<close>

definition untrusted :: "bytes \<Rightarrow> bool" where
  "untrusted f \<longleftrightarrow> copy_head f = None"

lemma header_written:
  assumes "encode h state = Ok bs"
  shows "HEADER_BYTES \<le> length (apply_op (Write_at 0 bs) f)"
    and "region (apply_op (Write_at 0 bs) f) 0 HEADER_BYTES = bs"
    and "head_ok h \<Longrightarrow> file_header (apply_op (Write_at 0 bs) f) = Some (h, state)"
proof -
  have len: "length bs = HEADER_BYTES" "bs \<noteq> []"
    using length_encode [OF assms] by (auto simp: HEADER_BYTES_def)
  show 1: "HEADER_BYTES \<le> length (apply_op (Write_at 0 bs) f)"
    using len by simp
  show 2: "region (apply_op (Write_at 0 bs) f) 0 HEADER_BYTES = bs"
    using region_write_same [of 0 bs f] len by simp
  show "file_header (apply_op (Write_at 0 bs) f) = Some (h, state)" if "head_ok h"
    using 1 2 decode_encode [OF that, of state] assms by (auto simp: file_header_def)
qed

subsection \<open>Calls\<close>

text \<open>
  \<open>within R\<close>: what is durable and the operations since satisfy \<open>R\<close>.  The rules below say which \<open>R\<close> a
  call keeps, also if it fails.
\<close>

definition media :: "file_store \<Rightarrow> bytes \<times> file_op list" where
  "media s = (fs_disk s, fs_log s)"

definition within :: "(bytes \<times> file_op list \<Rightarrow> bool) \<Rightarrow> file_store \<Rightarrow> bool" where
  "within R s \<longleftrightarrow> header_atomic s \<and> R (media s)"

lemma os_call_within:
  assumes "os_call s = (f, s')" and "header_atomic s"
  shows "media s' = media s" and "header_atomic s'" and "f = None \<or> f = Some 0"
  using assms by (auto simp: os_call_def media_def header_atomic_def split: list.splits)

lemma os_try_safe: "within R s \<Longrightarrow> safe (within R) (\<lambda>_ s'. media s' = media s) (os_try s)"
  by (auto simp: os_try_def within_def dest: os_call_within split: prod.split option.split)

lemma open_safe: "within R s \<Longrightarrow> safe (within R) (\<lambda>_ s'. media s' = media s) (fs_open_file s)"
  unfolding fs_open_file_def
  by (auto intro!: safe_and_then os_try_safe simp: within_def media_def header_atomic_def)

lemma os_read_exact_safe:
  "within R s \<Longrightarrow> safe (within R) (\<lambda>d s'. media s' = media s \<and> at + n \<le> length (fs_bytes s) \<and> d = region (fs_bytes s) at n)
     (os_read_exact at n s)"
  unfolding os_read_exact_def
  by (rule safe_and_then [OF os_try_safe])
    (auto simp: get_slice_def sub_slice_region fs_bytes_def media_def split: option.split)

lemma os_write_safe:
  assumes "within R s" and "R (fs_disk s, fs_log s @ [Write_at off d])" and "R (fs_disk s, fs_log s @ [Write_at off []])"
  shows "safe (within R) (\<lambda>_ s'. media s' = (fs_disk s, fs_log s @ [Write_at off d])) (os_write off d s)"
proof -
  obtain f s1 where c: "os_call s = (f, s1)" by (cases "os_call s")
  note w = os_call_within [OF c]
  show ?thesis
    using assms c w by (auto simp: os_write_def within_def media_def header_atomic_def split: option.split)
qed

lemma os_set_len_safe:
  assumes "within R s" and "R (fs_disk s, fs_log s @ [Set_len n])"
  shows "safe (within R) (\<lambda>_ s'. media s' = (fs_disk s, fs_log s @ [Set_len n])) (os_set_len n s)"
  unfolding os_set_len_def using assms
  by (intro safe_and_then [OF os_try_safe [OF assms(1)]]) (auto simp: within_def media_def header_atomic_def)

lemma os_sync_safe:
  assumes "within R s" and "R (fs_bytes s, [])"
  shows "safe (within R) (\<lambda>_ s'. media s' = (fs_bytes s, [])) (os_sync s)"
  unfolding os_sync_def using assms
  by (intro safe_and_then [OF os_try_safe [OF assms(1)]])
    (auto simp: within_def media_def header_atomic_def fs_bytes_def)

lemma fs_bytes_media: "media s = (d, l) \<Longrightarrow> fs_bytes s = fold apply_op l d"
  by (simp add: media_def fs_bytes_def)

lemma fs_bytes_of: "fs_bytes s = fold apply_op (snd (media s)) (fst (media s))"
  by (simp add: media_def fs_bytes_def)

lemma media_bytes: "media s' = media s \<Longrightarrow> fs_bytes s' = fs_bytes s"
  by (simp add: media_def fs_bytes_def)

lemma read_header_safe:
  assumes "within R s"
  shows "safe (within R) (\<lambda>v s'. media s' = media s \<and> v = file_header (fs_bytes s)) (read_header s)"
  unfolding read_header_def
proof (intro safe_and_then [OF open_safe [OF assms]] safe_and_then [OF os_try_safe])
  fix x s1 y s2 assume 1: "within R s1" "media s1 = media s" and 2: "within R s2" "media s2 = media s1"
  note same = media_bytes [OF 1(2)] media_bytes [OF 2(2)]
  show "safe (within R) (\<lambda>v s'. media s' = media s \<and> v = file_header (fs_bytes s))
      (if length (fs_bytes s2) < HEADER_BYTES then (Ok None, s2)
       else and_then (os_try s2) (\<lambda>_ s. and_then (os_read_exact 0 HEADER_BYTES s) (\<lambda>bs s. (Ok (decode bs), s))))"
    using 1 2 same
    by (auto intro!: safe_if safe_and_then [OF os_try_safe] safe_and_then [OF os_read_exact_safe]
        simp: file_header_def fs_bytes_of)
qed simp

lemma read_present_safe:
  assumes "within R s"
  shows "safe (within R) (\<lambda>v s'. media s' = media s \<and> v = file_bits (fs_bytes s) h) (read_present h s)"
  unfolding read_present_def Let_def
proof (intro safe_and_then [OF open_safe [OF assms]] safe_and_then [OF os_try_safe])
  fix x s1 y s2 assume 1: "within R s1" "media s1 = media s" and 2: "within R s2" "media s2 = media s1"
  note same = media_bytes [OF 1(2)] media_bytes [OF 2(2)]
  show "safe (within R) (\<lambda>v s'. media s' = media s \<and> v = file_bits (fs_bytes s) h)
      (if length (fs_bytes s2) < bits_at h + div_ceil (hd_page_count h) 8
       then (Ok (present_empty (hd_page_count h)), s2)
       else and_then (os_try s2) (\<lambda>_. os_read_exact (bits_at h) (div_ceil (hd_page_count h) 8)))"
    using 1 2 same
    by (auto intro!: safe_if safe_and_then [OF os_try_safe] safe_mono [OF os_read_exact_safe]
        simp: file_bits_def Let_def fs_bytes_of)
qed simp

lemma write_header_safe:
  assumes "encode h state = Ok bs" and "within R s" and "R (fs_disk s, fs_log s @ [Write_at 0 bs])"
    and "R (fs_disk s, fs_log s @ [Write_at 0 []])" and "R (apply_op (Write_at 0 bs) (fs_bytes s), [])"
  shows "safe (within R) (\<lambda>_ s'. media s' = (apply_op (Write_at 0 bs) (fs_bytes s), [])) (write_header h state s)"
  unfolding write_header_def assms(1) and_then.simps
proof (intro safe_and_then [OF open_safe [OF assms(2)]] safe_and_then [OF os_try_safe])
  fix x s1 y s2 assume 1: "within R s1" "media s1 = media s" and 2: "within R s2" "media s2 = media s1"
  then have eq: "fs_disk s2 = fs_disk s" "fs_log s2 = fs_log s"
    by (simp_all add: media_def)
  show "safe (within R) (\<lambda>_ s'. media s' = (apply_op (Write_at 0 bs) (fs_bytes s), []))
      (and_then (os_write 0 bs s2) (\<lambda>_. os_sync))"
  proof (rule safe_and_then [OF os_write_safe [OF 2(1)]])
    fix z s3 assume 3: "within R s3" "media s3 = (fs_disk s2, fs_log s2 @ [Write_at 0 bs])"
    then have "fs_bytes s3 = apply_op (Write_at 0 bs) (fs_bytes s)"
      using eq by (simp add: fs_bytes_of media_def)
    then show "safe (within R) (\<lambda>_ s'. media s' = (apply_op (Write_at 0 bs) (fs_bytes s), [])) (os_sync s3)"
      using os_sync_safe [OF 3(1)] assms(5) by simp
  qed (use eq assms(3,4) in simp_all)
qed simp

subsection \<open>Writing a copy\<close>

text \<open>The operations behind the header that \<open>write\<close> does, and the bitmap it writes.\<close>

definition block_ops :: "head \<Rightarrow> (nat \<times> bytes) list \<Rightarrow> file_op list" where
  "block_ops h blocks =
     map (\<lambda>b. Write_at (HEADER_BYTES + fst b * hd_page_size h) (snd b)) (filter (\<lambda>b. fst b < hd_page_count h) blocks)"

definition present_with :: "head \<Rightarrow> (nat \<times> bytes) list \<Rightarrow> bytes \<Rightarrow> bytes" where
  "present_with h blocks present = fold (\<lambda>b p. present_set p (fst b)) (filter (\<lambda>b. fst b < hd_page_count h) blocks) present"

lemma write_blocks_safe:
  assumes "within R s" and "\<And>ops. \<forall>op \<in> set ops. behind_header op \<Longrightarrow> R (fs_disk s, fs_log s @ ops)"
  shows "safe (within R) (\<lambda>p s'. p = present_with h blocks present \<and> media s' = (fs_disk s, fs_log s @ block_ops h blocks))
    (write_blocks h blocks present s)"
  using assms
proof (induction blocks arbitrary: present s)
  case Nil
  then show ?case by (simp add: present_with_def block_ops_def media_def)
next
  case (Cons b bs)
  let ?op = "Write_at (HEADER_BYTES + fst b * hd_page_size h) (snd b)"
  show ?case
  proof (cases "hd_page_count h \<le> fst b")
    case True
    then show ?thesis using Cons by (simp add: present_with_def block_ops_def)
  next
    case False
    have "safe (within R) (\<lambda>p s'. p = present_with h (b # bs) present \<and> media s' = (fs_disk s, fs_log s @ block_ops h (b # bs)))
        (and_then (os_try s) (\<lambda>_ s1.
         and_then (os_write (HEADER_BYTES + fst b * hd_page_size h) (snd b) s1) (\<lambda>_ s2.
           write_blocks h bs (present_set present (fst b)) s2)))"
    proof (rule safe_and_then [OF os_try_safe [OF Cons.prems(1)]])
      fix x s1 assume 1: "within R s1" "media s1 = media s"
      then have eq: "fs_disk s1 = fs_disk s" "fs_log s1 = fs_log s" by (simp_all add: media_def)
      show "safe (within R) (\<lambda>p s'. p = present_with h (b # bs) present \<and> media s' = (fs_disk s, fs_log s @ block_ops h (b # bs)))
        (and_then (os_write (HEADER_BYTES + fst b * hd_page_size h) (snd b) s1) (\<lambda>_ s2.
           write_blocks h bs (present_set present (fst b)) s2))"
      proof (rule safe_and_then [OF os_write_safe [OF 1(1)]])
        fix y s2 assume 2: "within R s2" "media s2 = (fs_disk s1, fs_log s1 @ [?op])"
        then have eq2: "fs_disk s2 = fs_disk s" "fs_log s2 = fs_log s @ [?op]"
          using eq by (simp_all add: media_def)
        have "R (fs_disk s2, fs_log s2 @ ops)" if "\<forall>op \<in> set ops. behind_header op" for ops
          using Cons.prems(2) [of "?op # ops"] that eq2 by simp
        from Cons.IH [OF 2(1) this, of "present_set present (fst b)"]
        show "safe (within R) (\<lambda>p s'. p = present_with h (b # bs) present \<and> media s' = (fs_disk s, fs_log s @ block_ops h (b # bs)))
            (write_blocks h bs (present_set present (fst b)) s2)"
          using False eq2 by (simp add: present_with_def block_ops_def)
      qed (use Cons.prems(2) [of "[?op]"] Cons.prems(2) [of "[Write_at (HEADER_BYTES + fst b * hd_page_size h) []]"] eq in simp_all)
    qed
    then show ?thesis using False by simp
  qed
qed

end
