(* ===== verification/File_Durability.thy ===== *)
theory File_Durability
  imports File_Crash
begin

text \<open>
  The operations of \<open>FileStore\<close> that change the copy, from end to end: what a successful \<open>write\<close>, \<open>forget\<close>
  or \<open>read\<close> does, and what a failure or a crash leaves behind.
\<close>

lemma decode_head_ok:
  assumes "decode bs = Some (h, state)" and "length bs = HEADER_BYTES"
  shows "head_ok h"
proof -
  have u64: "from_le_bytes (sub_slice bs 24 8) < U64"
    using from_le_bytes_less [of "sub_slice bs 24 8"] assms(2) by (simp add: HEADER_BYTES_def U64_def)
  show ?thesis
    using assms u64
    by (auto simp: decode_def head_ok_def get_slice_def Let_def Option.bind_eq_Some_conv split: if_splits)
qed

lemma file_header_head_ok: "file_header f = Some (h, state) \<Longrightarrow> head_ok h"
  by (auto simp: file_header_def region_def intro: decode_head_ok split: if_splits)

text \<open>The file after \<open>write_present\<close>, without the final header.\<close>

definition with_present :: "head \<Rightarrow> bytes \<Rightarrow> bytes \<Rightarrow> bytes" where
  "with_present h present f =
     apply_op (Set_len (bits_at h + length present)) (apply_op (Write_at (bits_at h) present) f)"

definition header_of :: "head \<Rightarrow> byte \<Rightarrow> bytes" where
  "header_of h state = (case encode h state of Ok bs \<Rightarrow> bs | _ \<Rightarrow> [])"

lemma encode_header_of: "head_ok h \<Longrightarrow> encode h state = Ok (header_of h state)"
  using decode_encode [of h state] by (auto simp: header_of_def)

lemma bits_behind: "HEADER_BYTES \<le> bits_at h"
  by (simp add: bits_at_def)

lemma write_present_safe:
  assumes "within R s" and "head_ok h"
    and "\<And>ops. \<forall>op \<in> set ops. behind_header op \<Longrightarrow> R (fs_disk s, fs_log s @ ops)"
    and "R (with_present h present (fs_bytes s), [])"
    and "R (with_present h present (fs_bytes s), [Write_at 0 (header_of h CLEAN)])"
    and "R (with_present h present (fs_bytes s), [Write_at 0 []])"
    and "R (apply_op (Write_at 0 (header_of h CLEAN)) (with_present h present (fs_bytes s)), [])"
  shows "safe (within R) (\<lambda>_ s'. media s' = (apply_op (Write_at 0 (header_of h CLEAN)) (with_present h present (fs_bytes s)), []))
    (write_present h present s)"
  unfolding write_present_def Let_def
proof (rule safe_and_then [OF os_try_safe [OF assms(1)]])
  let ?w = "Write_at (bits_at h) present" and ?l = "Set_len (bits_at h + length present)"
  let ?Q = "\<lambda>s'. media s' = (apply_op (Write_at 0 (header_of h CLEAN)) (with_present h present (fs_bytes s)), [])"
  fix x s1 assume 1: "within R s1" "media s1 = media s"
  then have e1: "fs_disk s1 = fs_disk s" "fs_log s1 = fs_log s" by (simp_all add: media_def)
  have body: "R (fs_disk s, fs_log s @ [?w])" "R (fs_disk s, fs_log s @ [Write_at (bits_at h) []])"
    "R (fs_disk s, fs_log s @ [?w, ?l])"
    using bits_behind [of h] by (auto intro!: assms(3))
  show "safe (within R) (\<lambda>_ s'. ?Q s') (and_then (os_write (bits_at h) present s1) (\<lambda>_ s.
      and_then (os_set_len (bits_at h + length present) s) (\<lambda>_ s. and_then (os_sync s) (\<lambda>_. write_header h CLEAN))))"
  proof (rule safe_and_then [OF os_write_safe [OF 1(1)]])
    fix y s2 assume 2: "within R s2" "media s2 = (fs_disk s1, fs_log s1 @ [?w])"
    then have e2: "fs_disk s2 = fs_disk s" "fs_log s2 = fs_log s @ [?w]" using e1 by (simp_all add: media_def)
    show "safe (within R) (\<lambda>_ s'. ?Q s') (and_then (os_set_len (bits_at h + length present) s2) (\<lambda>_ s.
        and_then (os_sync s) (\<lambda>_. write_header h CLEAN)))"
    proof (rule safe_and_then [OF os_set_len_safe [OF 2(1)]])
      fix z s3 assume 3: "within R s3" "media s3 = (fs_disk s2, fs_log s2 @ [?l])"
      then have b3: "fs_bytes s3 = with_present h present (fs_bytes s)"
        using e2 by (simp add: fs_bytes_def media_def with_present_def)
      show "safe (within R) (\<lambda>_ s'. ?Q s') (and_then (os_sync s3) (\<lambda>_. write_header h CLEAN))"
      proof (rule safe_and_then [OF os_sync_safe [OF 3(1)]])
        fix u s4 assume 4: "within R s4" "media s4 = (fs_bytes s3, [])"
        then have e4: "fs_disk s4 = fs_bytes s3" "fs_log s4 = []" "fs_bytes s4 = fs_bytes s3"
          by (simp_all add: media_def fs_bytes_def)
        show "safe (within R) (\<lambda>_ s'. ?Q s') (write_header h CLEAN s4)"
          using write_header_safe [OF encode_header_of [OF assms(2)] 4(1)] assms(5-7) e4 b3 by simp
      qed (use b3 assms(4) in simp)
    qed (use e2 body(3) in simp)
  qed (use e1 body(1,2) in simp_all)
qed

subsection \<open>Crashes\<close>

text \<open>Every file a crash may leave is untrusted or satisfies \<open>P\<close>.\<close>

definition crash_leaves :: "(bytes \<Rightarrow> bool) \<Rightarrow> bytes \<times> file_op list \<Rightarrow> bool" where
  "crash_leaves P m \<longleftrightarrow> (\<forall>g. survives (snd m) (fst m) g \<longrightarrow> untrusted g \<or> P g)"

lemma crash_leaves_mono: "crash_leaves P m \<Longrightarrow> (\<And>g. P g \<Longrightarrow> Q g) \<Longrightarrow> crash_leaves Q m"
  by (auto simp: crash_leaves_def)

lemma crash_leaves_synced [simp]: "crash_leaves P (f, []) \<longleftrightarrow> untrusted f \<or> P f"
  by (auto simp: crash_leaves_def intro: survives.intros)

lemma survives_header_write:
  assumes "survives (ops @ [Write_at 0 d]) f g"
  obtains g' where "survives ops f g'" and "g = g' \<or> g = apply_op (Write_at 0 d) g'"
  by (rule survives_snoc [OF assms]) (use that in \<open>auto simp: HEADER_BYTES_def\<close>)

text \<open>Marking the header as writing keeps what a crash may leave.\<close>

lemma untrusted_header: "file_header f = Some (h, WRITING) \<Longrightarrow> untrusted f"
  by (simp add: untrusted_def copy_head_def WRITING_def CLEAN_def)

lemma crash_leaves_marking:
  assumes "crash_leaves P (d, l)" and "head_ok h"
  shows "crash_leaves P (d, l @ [Write_at 0 (header_of h WRITING)])" and "crash_leaves P (d, l @ [Write_at 0 []])"
proof -
  have marked: "untrusted (apply_op (Write_at 0 (header_of h WRITING)) g)" for g
    using header_written(3) [OF encode_header_of [OF assms(2)] assms(2)] untrusted_header by blast
  show "crash_leaves P (d, l @ [Write_at 0 (header_of h WRITING)])"
    using assms(1) marked unfolding crash_leaves_def by (auto elim!: survives_header_write)
  show "crash_leaves P (d, l @ [Write_at 0 []])"
    using assms(1) unfolding crash_leaves_def by (auto elim!: survives_header_write simp: apply_op.simps)
qed

text \<open>Behind a header in the writing state anything may happen.\<close>

lemma crash_leaves_body:
  assumes "file_header f = Some (h, WRITING)" and "\<forall>op \<in> set ops. behind_header op"
  shows "crash_leaves P (f, ops)"
proof -
  have len: "HEADER_BYTES \<le> length f"
    using assms(1) by (auto simp: file_header_def not_less split: if_splits)
  show ?thesis
    using file_header_cong [OF behind_header_survives [OF _ assms(2) len] len] assms(1) untrusted_header
    unfolding crash_leaves_def by auto
qed

text \<open>
  From a header in the writing state, \<open>write_present\<close> ends in the new file; a crash before that leaves
  an untrusted file.
\<close>

definition finished_file :: "head \<Rightarrow> bytes \<Rightarrow> bytes \<Rightarrow> bytes" where
  "finished_file h present f = apply_op (Write_at 0 (header_of h CLEAN)) (with_present h present f)"

lemma writing_kept:
  assumes "file_header f = Some (h, WRITING)" and "\<forall>op \<in> set ops. behind_header op"
  shows "file_header (fold apply_op ops f) = Some (h, WRITING)"
proof -
  have len: "HEADER_BYTES \<le> length f"
    using assms(1) by (auto simp: file_header_def not_less split: if_splits)
  show ?thesis
    using file_header_cong [OF behind_header_survives [OF survives_all assms(2) len] len] assms(1) by simp
qed

lemma write_present_crash:
  assumes "header_atomic s" and "head_ok h" and "file_header (fs_disk s) = Some (b, WRITING)"
    and "\<forall>op \<in> set (fs_log s). behind_header op" and "P (finished_file h present (fs_bytes s))"
  shows "safe (within (crash_leaves P)) (\<lambda>_ s'. media s' = (finished_file h present (fs_bytes s), []))
    (write_present h present s)"
proof -
  let ?f = "with_present h present (fs_bytes s)"
  have "?f = fold apply_op (fs_log s @ [Write_at (bits_at h) present, Set_len (bits_at h + length present)]) (fs_disk s)"
    by (simp add: with_present_def fs_bytes_def)
  then have f: "file_header ?f = Some (b, WRITING)"
    using writing_kept [OF assms(3), of "fs_log s @ [Write_at (bits_at h) present, Set_len (bits_at h + length present)]"]
      assms(4) bits_behind [of h] by simp
  have last: "crash_leaves P (?f, [Write_at 0 (header_of h CLEAN)])" "crash_leaves P (?f, [Write_at 0 []])"
    using untrusted_header [OF f] assms(5) unfolding crash_leaves_def finished_file_def
    by (auto elim!: survives_header_write [of "[]", simplified] simp: apply_op.simps(1) [of 0 "[]"])
  show ?thesis
    unfolding finished_file_def
  proof (rule write_present_safe [OF _ assms(2)])
    show "within (crash_leaves P) s"
      using crash_leaves_body [OF assms(3,4)] assms(1) by (simp add: within_def media_def)
    show "crash_leaves P (fs_disk s, fs_log s @ ops)" if "\<forall>op \<in> set ops. behind_header op" for ops
      using crash_leaves_body [OF assms(3)] assms(4) that by (simp add: ball_Un)
  qed (use untrusted_header [OF f] last assms(5) in \<open>simp_all add: finished_file_def\<close>)
qed

end
