(* ===== verification/Local_Copy.thy ===== *)
theory Local_Copy
  imports File_Durability
begin

text \<open>
  What \<open>write\<close>, \<open>forget\<close>, \<open>read\<close> and \<open>head\<close> of a \<open>FileStore\<close> mean for the copy as a map of blocks.
\<close>

subsection \<open>The files \<open>write\<close> and \<open>forget\<close> end in\<close>

definition old_bits :: "bytes \<Rightarrow> nat \<Rightarrow> bytes" where
  "old_bits f n =
     (case file_header f of
        Some (b, _) \<Rightarrow> present_resized (file_bits f b) n
      | None \<Rightarrow> present_empty n)"

definition stale_head :: "head \<Rightarrow> bytes \<Rightarrow> head" where
  "stale_head h f = (case file_header f of Some (b, _) \<Rightarrow> b | None \<Rightarrow> h\<lparr>hd_version := 0\<rparr>)"

definition marked_file :: "head \<Rightarrow> bytes \<Rightarrow> bytes" where
  "marked_file b f = apply_op (Write_at 0 (header_of b WRITING)) f"

definition written_file :: "head \<Rightarrow> (nat \<times> bytes) list \<Rightarrow> bytes \<Rightarrow> bytes" where
  "written_file h blocks f =
     finished_file h (present_with h blocks (old_bits f (hd_page_count h)))
       (fold apply_op (block_ops h blocks) (marked_file (stale_head h f) f))"

definition forgotten_file :: "head \<Rightarrow> nat list \<Rightarrow> bytes \<Rightarrow> bytes" where
  "forgotten_file h blocks f =
     finished_file h (fold (\<lambda>i bs. present_clear bs i) blocks (old_bits f (hd_page_count h)))
       (marked_file (stale_head h f) f)"

lemma stale_head_ok: "head_ok h \<Longrightarrow> head_ok (stale_head h f)"
  by (auto simp: stale_head_def head_ok_def U64_def split: option.split dest: file_header_head_ok)

lemma marked_header: "head_ok b \<Longrightarrow> file_header (marked_file b f) = Some (b, WRITING)"
  unfolding marked_file_def by (rule header_written(3) [OF encode_header_of])

lemma block_ops_behind: "\<forall>op \<in> set (block_ops h blocks). behind_header op"
  by (auto simp: block_ops_def)

lemma marking_safe:
  assumes "within (crash_leaves P) s" and "head_ok b"
  shows "safe (within (crash_leaves P)) (\<lambda>_ s'. header_atomic s' \<and> media s' = (marked_file b (fs_bytes s), [])) (write_header b WRITING s)"
proof -
  have c: "crash_leaves P (fs_disk s, fs_log s)" using assms(1) by (simp add: within_def media_def)
  have u: "untrusted (apply_op (Write_at 0 (header_of b WRITING)) (fs_bytes s))"
    using untrusted_header [OF marked_header [OF assms(2)]] by (simp add: marked_file_def)
  have "safe (within (crash_leaves P)) (\<lambda>_ s'. media s' = (marked_file b (fs_bytes s), [])) (write_header b WRITING s)"
    unfolding marked_file_def
    by (rule write_header_safe [OF encode_header_of [OF assms(2)] assms(1) crash_leaves_marking [OF c assms(2)]])
      (simp add: u)
  then show ?thesis
    by (rule safe_mono) (simp add: within_def)
qed

lemma fs_write_safe:
  assumes "header_atomic s" and "head_ok h" and "crash_leaves P (media s)"
    and "P (written_file h blocks (fs_bytes s))"
  shows "safe (within (crash_leaves P)) (\<lambda>_ s'. media s' = (written_file h blocks (fs_bytes s), [])) (fs_write h blocks s)"
  unfolding fs_write_def Let_def
proof (rule safe_and_then [OF read_header_safe])
  let ?f = "fs_bytes s"
  show "within (crash_leaves P) s" using assms by (simp add: within_def)
  fix found s1 assume 1: "within (crash_leaves P) s1" "media s1 = media s \<and> found = file_header ?f"
  have b1: "fs_bytes s1 = ?f" using 1 media_bytes by blast
  show "safe (within (crash_leaves P)) (\<lambda>_ s'. media s' = (written_file h blocks ?f, []))
      (and_then (case map_option fst found of
          None \<Rightarrow> (Ok (present_empty (hd_page_count h)), s1)
        | Some b \<Rightarrow> and_then (read_present b s1) (\<lambda>p s. (Ok (present_resized p (hd_page_count h)), s)))
       (\<lambda>present s. and_then (write_header (case map_option fst found of None \<Rightarrow> h\<lparr>hd_version := 0\<rparr> | Some b \<Rightarrow> b) WRITING s)
       (\<lambda>_ s. and_then (fs_open_file s) (\<lambda>_ s. and_then (write_blocks h blocks present s) (write_present h)))))"
  proof (rule safe_and_then [of _ "\<lambda>p s'. media s' = media s \<and> p = old_bits ?f (hd_page_count h)"])
    show "safe (within (crash_leaves P)) (\<lambda>p s'. media s' = media s \<and> p = old_bits ?f (hd_page_count h))
        (case map_option fst found of
          None \<Rightarrow> (Ok (present_empty (hd_page_count h)), s1)
        | Some b \<Rightarrow> and_then (read_present b s1) (\<lambda>p s. (Ok (present_resized p (hd_page_count h)), s)))"
      using 1 b1 by (auto simp: old_bits_def split: option.split intro!: safe_and_then [OF read_present_safe])
    fix p s2 assume 2: "within (crash_leaves P) s2" "media s2 = media s \<and> p = old_bits ?f (hd_page_count h)"
    have b2: "fs_bytes s2 = ?f" using 2 media_bytes by blast
    have stale: "(case map_option fst found of None \<Rightarrow> h\<lparr>hd_version := 0\<rparr> | Some b \<Rightarrow> b) = stale_head h ?f"
      using 1 by (auto simp: stale_head_def split: option.split)
    show "safe (within (crash_leaves P)) (\<lambda>_ s'. media s' = (written_file h blocks ?f, []))
        (and_then (write_header (case map_option fst found of None \<Rightarrow> h\<lparr>hd_version := 0\<rparr> | Some b \<Rightarrow> b) WRITING s2)
          (\<lambda>_ s. and_then (fs_open_file s) (\<lambda>_ s. and_then (write_blocks h blocks p s) (write_present h))))"
      unfolding stale
    proof (rule safe_and_then [OF marking_safe [OF 2(1) stale_head_ok [OF assms(2)]]], rule safe_and_then [OF open_safe], assumption)
      fix x s3 y s4 assume 3: "header_atomic s3 \<and> media s3 = (marked_file (stale_head h ?f) (fs_bytes s2), [])"
        and 4: "within (crash_leaves P) s4" "media s4 = media s3"
      have e4: "fs_disk s4 = marked_file (stale_head h ?f) ?f" "fs_log s4 = []"
        using 3 4(2) b2 by (simp_all add: media_def)
      have hdr: "file_header (fs_disk s4) = Some (stale_head h ?f, WRITING)"
        using e4 marked_header [OF stale_head_ok [OF assms(2)]] by simp
      show "safe (within (crash_leaves P)) (\<lambda>_ s'. media s' = (written_file h blocks ?f, []))
          (and_then (write_blocks h blocks p s4) (write_present h))"
      proof (rule safe_and_then [OF write_blocks_safe [OF 4(1)]])
        show "crash_leaves P (fs_disk s4, fs_log s4 @ ops)" if "\<forall>op \<in> set ops. behind_header op" for ops
          using crash_leaves_body [OF hdr that] e4(2) by simp
        fix q s5 assume 5: "within (crash_leaves P) s5" "q = present_with h blocks p \<and> media s5 = (fs_disk s4, fs_log s4 @ block_ops h blocks)"
        then have b5: "fs_bytes s5 = fold apply_op (block_ops h blocks) (marked_file (stale_head h ?f) ?f)"
          using e4 by (simp add: fs_bytes_of)
        show "safe (within (crash_leaves P)) (\<lambda>_ s'. media s' = (written_file h blocks ?f, [])) (write_present h q s5)"
        proof -
          have "fs_disk s5 = fs_disk s4" "fs_log s5 = block_ops h blocks" "header_atomic s5"
            using 5 e4(2) by (simp_all add: media_def within_def)
          moreover have "finished_file h q (fs_bytes s5) = written_file h blocks ?f"
            using 5(2) 2(2) b5 by (simp add: written_file_def)
          ultimately show ?thesis
            using write_present_crash [OF _ assms(2), of s5 "stale_head h ?f" P q] hdr block_ops_behind assms(4) by simp
        qed
      qed
    qed
  qed
qed

lemma fs_forget_safe:
  assumes "header_atomic s" and "head_ok h" and "crash_leaves P (media s)"
    and "P (forgotten_file h blocks (fs_bytes s))"
  shows "safe (within (crash_leaves P))
    (\<lambda>_ s'. file_header (fs_bytes s) \<noteq> None \<and> media s' = (forgotten_file h blocks (fs_bytes s), [])) (fs_forget h blocks s)"
  unfolding fs_forget_def Let_def
proof (rule safe_and_then [OF read_header_safe])
  let ?f = "fs_bytes s"
  let ?Q = "\<lambda>_ s'. file_header ?f \<noteq> None \<and> media s' = (forgotten_file h blocks ?f, [])"
  let ?clear = "fold (\<lambda>i bs. present_clear bs i) blocks"
  show "within (crash_leaves P) s" using assms by (simp add: within_def)
  fix found s1 assume 1: "within (crash_leaves P) s1" "media s1 = media s \<and> found = file_header ?f"
  have b1: "fs_bytes s1 = ?f" using 1 media_bytes by blast
  have "safe (within (crash_leaves P)) ?Q (and_then (read_present b s1) (\<lambda>p s.
      and_then (write_header b WRITING s) (\<lambda>_ s.
      and_then (fs_open_file s) (\<lambda>_ s. write_present h (?clear (present_resized p (hd_page_count h))) s))))"
    if b: "file_header ?f = Some (b, st)" for b st
  proof (rule safe_and_then [OF read_present_safe [OF 1(1)]])
    fix p s2 assume 2: "within (crash_leaves P) s2" "media s2 = media s1 \<and> p = file_bits (fs_bytes s1) b"
    have b2: "fs_bytes s2 = ?f" using 2(2) b1 media_bytes by metis
    show "safe (within (crash_leaves P)) ?Q (and_then (write_header b WRITING s2) (\<lambda>_ s.
        and_then (fs_open_file s) (\<lambda>_ s. write_present h (?clear (present_resized p (hd_page_count h))) s)))"
    proof (rule safe_and_then [OF marking_safe [OF 2(1) file_header_head_ok [OF b]]], rule safe_and_then [OF open_safe], assumption)
      fix x s3 y s4 assume 3: "header_atomic s3 \<and> media s3 = (marked_file b (fs_bytes s2), [])"
        and 4: "within (crash_leaves P) s4" "media s4 = media s3"
      have e4: "fs_disk s4 = marked_file b ?f" "fs_log s4 = []" "fs_bytes s4 = marked_file b ?f" "header_atomic s4"
        using 3 4 b2 by (simp_all add: media_def fs_bytes_def within_def)
      have hdr: "file_header (fs_disk s4) = Some (b, WRITING)"
        using e4(1) marked_header [OF file_header_head_ok [OF b]] by simp
      have "finished_file h (?clear (present_resized p (hd_page_count h))) (fs_bytes s4) = forgotten_file h blocks ?f"
        using 2(2) b1 b e4(3) by (simp add: forgotten_file_def old_bits_def stale_head_def)
      then show "safe (within (crash_leaves P)) ?Q (write_present h (?clear (present_resized p (hd_page_count h))) s4)"
        using write_present_crash [OF e4(4) assms(2) hdr, of P "?clear (present_resized p (hd_page_count h))"] e4(2) assms(4) b by simp
    qed
  qed
  with 1 show "safe (within (crash_leaves P)) ?Q (case map_option fst found of
      None \<Rightarrow> (Err ''no local copy to catch up'', s1)
    | Some b \<Rightarrow> and_then (read_present b s1) (\<lambda>p s. and_then (write_header b WRITING s) (\<lambda>_ s.
        and_then (fs_open_file s) (\<lambda>_ s. write_present h (?clear (present_resized p (hd_page_count h))) s))))"
    by (auto split: option.split)
qed

subsection \<open>The contents of the new files\<close>

lemma finished_contents:
  assumes "head_ok h" and "length p = div_ceil (hd_page_count h) 8"
  shows "file_header (finished_file h p f) = Some (h, CLEAN)" and "file_bits (finished_file h p f) h = p"
    and "i < hd_page_count h \<Longrightarrow> region (finished_file h p f) (HEADER_BYTES + i * hd_page_size h) (hd_page_size h) =
      region f (HEADER_BYTES + i * hd_page_size h) (hd_page_size h)"
proof -
  let ?w = "with_present h p f"
  note enc = encode_header_of [OF assms(1), of CLEAN]
  have hl: "length (header_of h CLEAN) = HEADER_BYTES" "header_of h CLEAN \<noteq> []"
    using length_encode [OF enc] by (auto simp: HEADER_BYTES_def)
  have len: "length ?w = bits_at h + length p" by (simp add: with_present_def)
  then have full: "length (finished_file h p f) = bits_at h + length p"
    using hl bits_behind [of h] by (simp add: finished_file_def)
  show "file_header (finished_file h p f) = Some (h, CLEAN)"
    unfolding finished_file_def by (rule header_written(3) [OF enc assms(1)])
  have rest: "region (finished_file h p f) at n = region ?w at n" if "HEADER_BYTES \<le> at" for at n
    unfolding finished_file_def using that hl by (intro region_write_other) simp
  have "region ?w (bits_at h) (length p) = p"
    using region_write_same [of "bits_at h" p f] by (simp add: with_present_def region_set_len)
  then show "file_bits (finished_file h p f) h = p"
    using full assms(2) rest [OF bits_behind, of h "length p"] by (simp add: file_bits_def)
  assume i: "i < hd_page_count h"
  have "Suc i * hd_page_size h \<le> hd_page_count h * hd_page_size h"
    using i by (intro mult_le_mono1) simp
  then have at: "HEADER_BYTES + i * hd_page_size h + hd_page_size h \<le> bits_at h"
    by (simp add: bits_at_def)
  then show "region (finished_file h p f) (HEADER_BYTES + i * hd_page_size h) (hd_page_size h) =
      region f (HEADER_BYTES + i * hd_page_size h) (hd_page_size h)"
    by (subst rest) (simp_all add: with_present_def region_set_len region_write_other)
qed

lemma region_block_ops:
  assumes "\<forall>b \<in> set blocks. length (snd b) = hd_page_size h" and "i < hd_page_count h"
  shows "region (fold apply_op (block_ops h blocks) f) (HEADER_BYTES + i * hd_page_size h) (hd_page_size h) =
    (case map_of (rev blocks) i of Some d \<Rightarrow> d | None \<Rightarrow> region f (HEADER_BYTES + i * hd_page_size h) (hd_page_size h))"
  using assms
proof (induction blocks arbitrary: f)
  case Nil
  then show ?case by (simp add: block_ops_def)
next
  case (Cons b bs)
  let ?ps = "hd_page_size h"
  let ?op = "Write_at (HEADER_BYTES + fst b * ?ps) (snd b)"
  have len: "length (snd b) = ?ps" using Cons.prems by simp
  have one: "region (apply_op ?op f) (HEADER_BYTES + i * ?ps) ?ps =
      (if fst b = i then snd b else region f (HEADER_BYTES + i * ?ps) ?ps)"
  proof (cases "fst b = i")
    case True
    then show ?thesis using region_write_same [of "HEADER_BYTES + i * ?ps" "snd b" f] len by simp
  next
    case False
    then have "Suc i * ?ps \<le> fst b * ?ps \<or> Suc (fst b) * ?ps \<le> i * ?ps"
      by (metis Suc_leI linorder_neqE_nat mult_le_mono1)
    then show ?thesis using False len by (simp add: region_write_other algebra_simps)
  qed
  show ?case
  proof (cases "fst b < hd_page_count h")
    case True
    then show ?thesis
      using Cons one by (auto simp: block_ops_def map_add_def split: option.split)
  next
    case False
    then have "fst b \<noteq> i" using Cons.prems(2) by simp
    then show ?thesis
      using False Cons by (auto simp: block_ops_def map_add_def split: option.split)
  qed
qed

lemma present_with_has:
  "present_has (present_with h blocks p) i \<longleftrightarrow>
     present_has p i \<or> (i < hd_page_count h \<and> i div 8 < length p \<and> i \<in> fst ` set blocks)"
  "length (present_with h blocks p) = length p"
proof -
  have "present_has (fold (\<lambda>b p. present_set p (fst b)) bs p) i \<longleftrightarrow>
      present_has p i \<or> (i div 8 < length p \<and> i \<in> fst ` set bs)"
    and "length (fold (\<lambda>b p. present_set p (fst b)) bs p) = length p" for bs :: "(nat \<times> bytes) list" and p
    by (induction bs arbitrary: p) (auto simp: present_has_set)
  then show "present_has (present_with h blocks p) i \<longleftrightarrow>
      present_has p i \<or> (i < hd_page_count h \<and> i div 8 < length p \<and> i \<in> fst ` set blocks)"
    and "length (present_with h blocks p) = length p"
    by (auto simp: present_with_def)
qed

lemma old_bits_facts:
  "length (old_bits f n) = div_ceil n 8"
  "present_has (old_bits f n) i \<longleftrightarrow>
     i < n \<and> (case file_header f of Some (b, _) \<Rightarrow> present_has (file_bits f b) i | None \<Rightarrow> False)"
  by (auto simp: old_bits_def present_resized split: option.split)

lemma byte_of_block: "i < n \<Longrightarrow> i div 8 < div_ceil n 8"
  by (metis div_mult_mod_eq le_add1 le_less_trans less_div_ceil_iff zero_less_numeral)

text \<open>The blocks under the header of a file.\<close>

definition old_block :: "bytes \<Rightarrow> nat \<Rightarrow> bytes option" where
  "old_block f i = (case file_header f of Some (b, _) \<Rightarrow> file_block f b i | None \<Rightarrow> None)"

text \<open>The file holds no copy, or a trusted one with this page size.\<close>

definition same_layout :: "head \<Rightarrow> bytes \<Rightarrow> bool" where
  "same_layout h f \<longleftrightarrow> tidy f \<and>
     (case file_header f of Some (b, state) \<Rightarrow> state = CLEAN \<and> hd_page_size b = hd_page_size h | None \<Rightarrow> True)"

lemma old_block_region:
  assumes "same_layout h f" and "i < hd_page_count h"
  shows "old_block f i =
    (if present_has (old_bits f (hd_page_count h)) i
     then Some (region f (HEADER_BYTES + i * hd_page_size h) (hd_page_size h)) else None)"
  using assms
  by (auto simp: old_block_def same_layout_def tidy_def copy_head_def file_block_def old_bits_facts split: option.splits)

lemma region_marked: "head_ok b \<Longrightarrow> HEADER_BYTES \<le> at \<Longrightarrow> region (marked_file b f) at n = region f at n"
  unfolding marked_file_def
  using length_encode [OF encode_header_of, of b WRITING] by (intro region_write_other) simp

lemma written_contents:
  assumes "head_ok h" and "same_layout h f" and "\<forall>b \<in> set blocks. length (snd b) = hd_page_size h"
  shows "copy_head (written_file h blocks f) = Some h"
    and "file_block (written_file h blocks f) h i =
      (if hd_page_count h \<le> i then None
       else case map_of (rev blocks) i of Some d \<Rightarrow> Some d | None \<Rightarrow> old_block f i)"
    and "same_layout h (written_file h blocks f)"
proof -
  let ?p = "present_with h blocks (old_bits f (hd_page_count h))"
  have len: "length ?p = div_ceil (hd_page_count h) 8"
    by (simp add: present_with_has old_bits_facts)
  note fin = finished_contents [OF assms(1) len, folded written_file_def]
  show "copy_head (written_file h blocks f) = Some h"
    using fin(1) by (simp add: copy_head_def written_file_def)
  have has: "present_has ?p j \<longleftrightarrow> j < hd_page_count h \<and> (present_has (old_bits f (hd_page_count h)) j \<or> j \<in> fst ` set blocks)" for j
    using byte_of_block [of j "hd_page_count h"] by (auto simp: present_with_has old_bits_facts)
  show "same_layout h (written_file h blocks f)"
    using fin(1,2) has by (auto simp: same_layout_def tidy_def copy_head_def written_file_def)
  have blk: "region (written_file h blocks f) (HEADER_BYTES + i * hd_page_size h) (hd_page_size h) =
      (case map_of (rev blocks) i of Some d \<Rightarrow> d | None \<Rightarrow> region f (HEADER_BYTES + i * hd_page_size h) (hd_page_size h))"
    if "i < hd_page_count h"
    unfolding written_file_def
    using fin(3) [OF that] region_block_ops [OF assms(3) that] region_marked [OF stale_head_ok [OF assms(1)]]
    by (simp split: option.split)
  have mem: "map_of (rev blocks) i = None \<longleftrightarrow> i \<notin> fst ` set blocks"
    by (simp add: map_of_eq_None_iff)
  show "file_block (written_file h blocks f) h i =
      (if hd_page_count h \<le> i then None
       else case map_of (rev blocks) i of Some d \<Rightarrow> Some d | None \<Rightarrow> old_block f i)"
    using fin(2) has [of i] blk mem old_block_region [OF assms(2), of i]
    by (auto simp: file_block_def written_file_def split: option.split)
qed

lemma forgotten_contents:
  assumes "head_ok h" and "same_layout h f"
  shows "copy_head (forgotten_file h blocks f) = Some h"
    and "file_block (forgotten_file h blocks f) h i =
      (if hd_page_count h \<le> i \<or> i \<in> set blocks then None else old_block f i)"
    and "same_layout h (forgotten_file h blocks f)"
proof -
  let ?p = "fold (\<lambda>i bs. present_clear bs i) blocks (old_bits f (hd_page_count h))"
  have len: "length ?p = div_ceil (hd_page_count h) 8"
    by (simp add: old_bits_facts)
  note fin = finished_contents [OF assms(1) len]
  have has: "present_has ?p j \<longleftrightarrow> j \<notin> set blocks \<and> present_has (old_bits f (hd_page_count h)) j" for j
    by auto
  show "copy_head (forgotten_file h blocks f) = Some h"
    using fin(1) by (simp add: copy_head_def forgotten_file_def)
  show "same_layout h (forgotten_file h blocks f)"
    using fin(1,2) has by (auto simp: same_layout_def tidy_def copy_head_def forgotten_file_def old_bits_facts)
  show "file_block (forgotten_file h blocks f) h i =
      (if hd_page_count h \<le> i \<or> i \<in> set blocks then None else old_block f i)"
    using fin(2,3) has [of i] old_block_region [OF assms(2), of i] region_marked [OF stale_head_ok [OF assms(1)]]
    by (auto simp: file_block_def forgotten_file_def)
qed

subsection \<open>Reading\<close>

definition copy_run :: "bytes \<Rightarrow> head \<Rightarrow> nat \<Rightarrow> nat \<Rightarrow> nat list" where
  "copy_run f h first count = takeWhile (\<lambda>i. file_block f h i \<noteq> None) [first..<first + count]"

lemma takeWhile_upt_min:
  "takeWhile (\<lambda>i. i < n \<and> P i) [a..<b] = takeWhile P [a..<min b n]"
proof (induction "b - a" arbitrary: a)
  case (Suc k)
  then have ab: "[a..<b] = a # [Suc a..<b]" by (simp add: upt_conv_Cons)
  show ?case
  proof (cases "a < n")
    case True
    then have "[a..<min b n] = a # [Suc a..<min b n]" using Suc by (simp add: upt_conv_Cons)
    then show ?thesis using Suc.hyps(1) [of "Suc a"] Suc.hyps(2) True ab by simp
  qed (simp add: ab)
qed simp

lemma takeWhile_upt: "takeWhile P [a..<b] = [a..<a + length (takeWhile P [a..<b])]"
proof -
  have "takeWhile P [a..<b] = take (length (takeWhile P [a..<b])) [a..<b]"
    by (rule takeWhile_eq_take)
  also have "\<dots> = [a..<a + length (takeWhile P [a..<b])]"
    using length_takeWhile_le [of P "[a..<b]"] by (cases "a \<le> b") (simp_all add: take_upt)
  finally show ?thesis .
qed

lemma read_blocks_safe:
  assumes "within R s"
  shows "safe (within R) (\<lambda>bs s'. media s' = media s \<and> bs = map (\<lambda>k. region (fs_bytes s) (at + k * ps) ps) [0..<n])
    (read_blocks n ps at s)"
  using assms
proof (induction n arbitrary: at s)
  case (Suc n)
  show ?case
    unfolding read_blocks.simps
  proof (rule safe_and_then [OF os_read_exact_safe [OF Suc.prems]])
    fix b s1 assume 1: "within R s1" "media s1 = media s \<and> at + ps \<le> length (fs_bytes s) \<and> b = region (fs_bytes s) at ps"
    have b1: "fs_bytes s1 = fs_bytes s" using 1(2) media_bytes by blast
    have "b # map (\<lambda>k. region (fs_bytes s) (at + ps + k * ps) ps) [0..<n] =
        map (\<lambda>k. region (fs_bytes s) (at + k * ps) ps) [0..<Suc n]"
      using 1(2) by (simp add: upt_conv_Cons map_Suc_upt [symmetric] del: upt_Suc) (simp add: algebra_simps)
    then show "safe (within R) (\<lambda>bs s'. media s' = media s \<and> bs = map (\<lambda>k. region (fs_bytes s) (at + k * ps) ps) [0..<Suc n])
        (and_then (read_blocks n ps (at + ps) s1) (\<lambda>bs s. (Ok (b # bs), s)))"
      using 1 b1 by (intro safe_and_then [OF Suc.IH [OF 1(1)]]) auto
  qed
qed simp

lemma fs_read_safe:
  assumes "within R s"
  shows "safe (within R) (\<lambda>bs s'. media s' = media s \<and>
    bs = (case copy_head (fs_bytes s) of
        Some h \<Rightarrow> map (\<lambda>i. the (file_block (fs_bytes s) h i)) (copy_run (fs_bytes s) h first count)
      | None \<Rightarrow> [])) (fs_read first count s)"
  unfolding fs_read_def
proof (rule safe_and_then [OF read_header_safe [OF assms]])
  let ?f = "fs_bytes s"
  let ?Q = "\<lambda>bs s'. media s' = media s \<and> bs = (case copy_head ?f of
      Some h \<Rightarrow> map (\<lambda>i. the (file_block ?f h i)) (copy_run ?f h first count) | None \<Rightarrow> [])"
  fix found s1 assume 1: "within R s1" "media s1 = media s \<and> found = file_header ?f"
  have b1: "fs_bytes s1 = ?f" using 1 media_bytes by blast
  have "safe (within R) ?Q
      (and_then (read_present h s1) (\<lambda>present s.
         let run = length (takeWhile (present_has present) [first..<min (first + count) (hd_page_count h)])
         in if run = 0 then (Ok [], s)
            else and_then (fs_open_file s) (\<lambda>_ s. and_then (os_try s) (\<lambda>_ s.
                   read_blocks run (hd_page_size h) (HEADER_BYTES + first * hd_page_size h) s))))"
    if h: "copy_head ?f = Some h" for h
  proof (rule safe_and_then [OF read_present_safe [OF 1(1)]])
    fix p s2 assume 2: "within R s2" "media s2 = media s1 \<and> p = file_bits (fs_bytes s1) h"
    let ?run = "length (takeWhile (present_has p) [first..<min (first + count) (hd_page_count h)])"
    have "copy_run ?f h first count = takeWhile (present_has p) [first..<min (first + count) (hd_page_count h)]"
      using 2(2) b1 unfolding takeWhile_upt_min [symmetric] copy_run_def file_block_def by (intro takeWhile_cong) auto
    then have run: "copy_run ?f h first count = [first..<first + ?run]"
      by (metis takeWhile_upt)
    have blk: "the (file_block ?f h i) = region ?f (HEADER_BYTES + i * hd_page_size h) (hd_page_size h)"
      if "i \<in> set (copy_run ?f h first count)" for i
      using set_takeWhileD [OF that [unfolded copy_run_def]] by (auto simp: file_block_def split: if_splits)
    have vals: "map (\<lambda>i. the (file_block ?f h i)) (copy_run ?f h first count) =
        map (\<lambda>k. region ?f (HEADER_BYTES + first * hd_page_size h + k * hd_page_size h) (hd_page_size h)) [0..<?run]"
      using blk unfolding run by (intro nth_equalityI) (auto simp: algebra_simps)
    have "safe (within R) ?Q (read_blocks ?run (hd_page_size h) (HEADER_BYTES + first * hd_page_size h) s')"
      if "within R s'" "media s' = media s" for s'
      by (rule safe_mono [OF read_blocks_safe [OF that(1)]]) (use that(2) h vals media_bytes [OF that(2)] in simp)
    then show "safe (within R) ?Q (let run = ?run in if run = 0 then (Ok [], s2)
        else and_then (fs_open_file s2) (\<lambda>_ s. and_then (os_try s) (\<lambda>_ s.
               read_blocks run (hd_page_size h) (HEADER_BYTES + first * hd_page_size h) s)))"
      unfolding Let_def using 1(2) 2 h run
      by (auto intro!: safe_if safe_and_then [OF open_safe] safe_and_then [OF os_try_safe])
  qed
  then show "safe (within R) ?Q (case found of None \<Rightarrow> (Ok [], s1)
      | Some (h, state) \<Rightarrow> if state = CLEAN then
          and_then (read_present h s1) (\<lambda>present s.
            let run = length (takeWhile (present_has present) [first..<min (first + count) (hd_page_count h)])
            in if run = 0 then (Ok [], s)
               else and_then (fs_open_file s) (\<lambda>_ s. and_then (os_try s) (\<lambda>_ s.
                      read_blocks run (hd_page_size h) (HEADER_BYTES + first * hd_page_size h) s)))
          else (Ok [], s1))"
    using 1 by (auto simp: copy_head_def split: option.split)
qed

end
