(* ===== verification/Local_Store.thy ===== *)
theory Local_Store
  imports Local_Copy
begin

text \<open>
  The interface \<open>LocalStore\<close> of \<open>local.rs\<close> as a record of operations and a locale of its laws, and
  \<open>FileStore\<close> as its implementation.  The laws speak of the copy as the store shows it: absent, present
  with a head and a map of blocks, or not trusted after an interrupted write.
\<close>

subsection \<open>The interface\<close>

record 's store_ops =
  so_head :: "'s \<Rightarrow> (head option, message) res \<times> 's"
  so_read :: "nat \<Rightarrow> nat \<Rightarrow> 's \<Rightarrow> (bytes list, message) res \<times> 's"
  so_write :: "head \<Rightarrow> (nat \<times> bytes) list \<Rightarrow> 's \<Rightarrow> (unit, message) res \<times> 's"
  so_forget :: "head \<Rightarrow> nat list \<Rightarrow> 's \<Rightarrow> (unit, message) res \<times> 's"
  so_clear :: "'s \<Rightarrow> (unit, message) res \<times> 's"
  so_select :: "rstring \<Rightarrow> 's \<Rightarrow> (unit, message) res \<times> 's"

definition MAX_READ_BYTES :: nat where "MAX_READ_BYTES = 1048576"

definition blocks_per_read :: "nat \<Rightarrow> nat" where
  "blocks_per_read page_size = max (MAX_READ_BYTES div max page_size 1) 1"

datatype copy_state = Absent | Copy head "nat \<Rightarrow> bytes option" | Untrusted

fun blocks_of_copy :: "copy_state \<Rightarrow> nat \<Rightarrow> bytes option" where
  "blocks_of_copy (Copy h B) = B"
| "blocks_of_copy _ = (\<lambda>_. None)"

text \<open>The blocks from \<open>first\<close> on, at most \<open>count\<close>, up to the first missing one.\<close>

definition served :: "(nat \<Rightarrow> bytes option) \<Rightarrow> nat \<Rightarrow> nat \<Rightarrow> bytes list" where
  "served B first count = map (\<lambda>i. the (B i)) (takeWhile (\<lambda>i. B i \<noteq> None) [first..<first + count])"

text \<open>The copy after a write of \<open>blocks\<close> under the head \<open>h\<close>, and after a catch-up.\<close>

definition updated :: "head \<Rightarrow> (nat \<times> bytes) list \<Rightarrow> (nat \<Rightarrow> bytes option) \<Rightarrow> nat \<Rightarrow> bytes option" where
  "updated h blocks B i =
     (if hd_page_count h \<le> i then None
      else case map_of (rev blocks) i of Some d \<Rightarrow> Some d | None \<Rightarrow> B i)"

definition forgotten :: "head \<Rightarrow> nat list \<Rightarrow> (nat \<Rightarrow> bytes option) \<Rightarrow> nat \<Rightarrow> bytes option" where
  "forgotten h blocks B i = (if hd_page_count h \<le> i \<or> i \<in> set blocks then None else B i)"

text \<open>A write fits the copy: its blocks have the page size, and so does the copy if there is one.\<close>

definition writable :: "head \<Rightarrow> copy_state \<Rightarrow> bool" where
  "writable h c \<longleftrightarrow>
     (case c of Absent \<Rightarrow> True | Copy b _ \<Rightarrow> hd_page_size b = hd_page_size h | Untrusted \<Rightarrow> False)"

locale local_store =
  fixes ops :: "'s store_ops" and good :: "'s \<Rightarrow> bool" and holds :: "'s \<Rightarrow> copy_state"
  assumes head_law: "\<And>s s' r. good s \<Longrightarrow> so_head ops s = (r, s') \<Longrightarrow>
      r \<noteq> Panic \<and> r \<noteq> Hang \<and> good s' \<and> holds s' = holds s \<and>
      (r = Ok None \<longrightarrow> (\<forall>h B. holds s \<noteq> Copy h B)) \<and> (\<forall>h. r = Ok (Some h) \<longrightarrow> (\<exists>B. holds s = Copy h B))"
    and read_law: "\<And>s s' r. good s \<Longrightarrow> so_read ops first count s = (r, s') \<Longrightarrow>
      r \<noteq> Panic \<and> r \<noteq> Hang \<and> good s' \<and> holds s' = holds s \<and>
      (\<forall>bs. r = Ok bs \<longrightarrow> bs = served (blocks_of_copy (holds s)) first count)"
    and write_law: "\<And>s s' r. good s \<Longrightarrow> head_ok h \<Longrightarrow> writable h (holds s) \<Longrightarrow>
      \<forall>b \<in> set blocks. length (snd b) = hd_page_size h \<Longrightarrow> so_write ops h blocks s = (r, s') \<Longrightarrow>
      r \<noteq> Panic \<and> r \<noteq> Hang \<and> good s' \<and>
      (r = Ok () \<longrightarrow> holds s' = Copy h (updated h blocks (blocks_of_copy (holds s))))"
    and forget_law: "\<And>s s' r. good s \<Longrightarrow> head_ok h \<Longrightarrow> holds s = Copy b B \<Longrightarrow> hd_page_size b = hd_page_size h \<Longrightarrow>
      so_forget ops h outdated s = (r, s') \<Longrightarrow>
      r \<noteq> Panic \<and> r \<noteq> Hang \<and> good s' \<and> (r = Ok () \<longrightarrow> holds s' = Copy h (forgotten h outdated B))"
    and clear_law: "\<And>s s' r. good s \<Longrightarrow> so_clear ops s = (r, s') \<Longrightarrow>
      r \<noteq> Panic \<and> r \<noteq> Hang \<and> good s' \<and> (r = Ok () \<longrightarrow> holds s' = Absent)"

subsection \<open>The file store\<close>

definition fs_select :: "rstring \<Rightarrow> file_store \<Rightarrow> (unit, message) res \<times> file_store" where
  "fs_select db_id s = (Ok (), s)"

definition file_ops :: "file_store store_ops" where
  "file_ops = \<lparr>so_head = fs_head, so_read = fs_read, so_write = fs_write, so_forget = fs_forget,
     so_clear = fs_clear, so_select = fs_select\<rparr>"

definition copy_in :: "bytes \<Rightarrow> copy_state" where
  "copy_in f =
     (case file_header f of
        None \<Rightarrow> Absent
      | Some (h, state) \<Rightarrow> if state = CLEAN then Copy h (file_block f h) else Untrusted)"

text \<open>Whatever a crash leaves now, a file that is trusted is tidy.\<close>

definition file_good :: "file_store \<Rightarrow> bool" where
  "file_good s \<longleftrightarrow> header_atomic s \<and> crash_leaves tidy (media s)"

lemma file_good_within: "file_good = within (crash_leaves tidy)"
  by (simp add: fun_eq_iff file_good_def within_def)

lemma survives_bytes: "survives (fs_log s) (fs_disk s) (fs_bytes s)"
  unfolding fs_bytes_def by (rule survives_all)

lemma file_good_tidy: "file_good s \<Longrightarrow> tidy (fs_bytes s)"
  using survives_bytes [of s] by (auto simp: file_good_def crash_leaves_def media_def untrusted_def tidy_def)

lemma copy_in_head: "copy_head f = (case copy_in f of Copy h _ \<Rightarrow> Some h | _ \<Rightarrow> None)"
  by (auto simp: copy_head_def copy_in_def split: option.split)

lemma copy_in_blocks: "copy_in f = Copy h B \<Longrightarrow> B = file_block f h"
  by (auto simp: copy_in_def split: option.splits prod.splits if_splits)

lemma copy_inI: "copy_head f = Some h \<Longrightarrow> copy_in f = Copy h (file_block f h)"
  by (auto simp: copy_head_def copy_in_def split: option.splits if_splits)

lemma blocks_of_copy_in: "copy_in f \<noteq> Untrusted \<Longrightarrow> blocks_of_copy (copy_in f) = old_block f"
  by (auto simp: copy_in_def old_block_def fun_eq_iff split: option.splits if_splits)

lemma writable_layout: "writable h (copy_in f) \<Longrightarrow> tidy f \<Longrightarrow> same_layout h f"
  by (auto simp: writable_def copy_in_def same_layout_def split: option.splits if_splits)

lemma same_layout_tidy: "same_layout h f \<Longrightarrow> tidy f"
  by (simp add: same_layout_def)

text \<open>A computation of the file store does not hang: it has no loop over a condition.\<close>

lemma os_ends:
  "ends (os_try s)" "ends (os_write off d s)" "ends (os_set_len n s)" "ends (os_sync s)"
  "ends (os_read_exact off n s)" "ends (fs_open_file s)"
proof -
  show t: "ends (os_try s)" for s
    by (auto simp: os_try_def split: prod.split option.split)
  show "ends (os_write off d s)"
    by (auto simp: os_write_def split: prod.split option.split)
  show "ends (os_set_len n s)" "ends (os_sync s)" "ends (os_read_exact off n s)" "ends (fs_open_file s)"
    by (auto simp: os_set_len_def os_sync_def os_read_exact_def fs_open_file_def
        intro!: ends_and_then t split: option.split)
qed

lemma header_ends: "ends (read_header s)" "ends (write_header h state s)" "ends (read_present h s)"
  by (auto simp: read_header_def write_header_def read_present_def encode_def Let_def
      intro!: ends_and_then ends_if os_ends)

lemma fs_ends:
  "ends (fs_head s)" "ends (fs_read first count s)" "ends (fs_write h blocks s)"
  "ends (fs_forget h outdated s)" "ends (fs_clear s)"
proof -
  have rb: "ends (read_blocks n ps at s)" for n ps at s
    by (induction n arbitrary: at s) (auto intro!: ends_and_then os_ends)
  have wb: "ends (write_blocks h bs p s)" for bs p s
    by (induction bs arbitrary: p s) (auto intro!: ends_and_then os_ends)
  have wp: "ends (write_present h p s)" for p s
    by (auto simp: write_present_def Let_def intro!: ends_and_then header_ends os_ends)
  show "ends (fs_head s)" "ends (fs_clear s)"
    by (auto simp: fs_head_def fs_clear_def intro!: ends_and_then header_ends os_ends)
  show "ends (fs_read first count s)"
    by (auto simp: fs_read_def Let_def intro!: ends_and_then ends_if header_ends os_ends rb split: option.split)
  show "ends (fs_write h blocks s)" "ends (fs_forget h outdated s)"
    by (auto simp: fs_write_def fs_forget_def Let_def intro!: ends_and_then header_ends os_ends wb wp split: option.split)
qed

text \<open>Reading leaves the file alone, also if it fails.\<close>

lemma file_good_reads:
  assumes "file_good s" and "safe (within (\<lambda>m. crash_leaves tidy m \<and> m = media s)) Q m" and "m = (r, s')"
  shows "r \<noteq> Panic" and "file_good s'" and "fs_bytes s' = fs_bytes s" and "r = Ok v \<Longrightarrow> Q v s'"
  using safeD [OF assms(2,3)] media_bytes [of s' s] by (auto simp: within_def file_good_def)

lemma within_self: "file_good s \<Longrightarrow> within (\<lambda>m. crash_leaves tidy m \<and> m = media s) s"
  by (simp add: within_def file_good_def)

lemma fs_head_reads:
  assumes "file_good s" and "fs_head s = (r, s')"
  shows "r \<noteq> Panic" and "file_good s'" and "fs_bytes s' = fs_bytes s" and "r = Ok v \<Longrightarrow> v = copy_head (fs_bytes s)"
proof -
  have "safe (within (\<lambda>m. crash_leaves tidy m \<and> m = media s)) (\<lambda>v s'. v = copy_head (fs_bytes s)) (fs_head s)"
    unfolding fs_head_def
    by (rule safe_and_then [OF read_header_safe [OF within_self [OF assms(1)]]]) (simp add: copy_head_def)
  note K = file_good_reads [OF assms(1) this assms(2)]
  show "r \<noteq> Panic" "file_good s'" "fs_bytes s' = fs_bytes s" "r = Ok v \<Longrightarrow> v = copy_head (fs_bytes s)"
    using K by simp_all
qed

lemma fs_read_reads:
  assumes "file_good s" and "fs_read first count s = (r, s')"
  shows "r \<noteq> Panic" and "file_good s'" and "fs_bytes s' = fs_bytes s"
    and "r = Ok bs \<Longrightarrow> bs = served (blocks_of_copy (copy_in (fs_bytes s))) first count"
proof -
  note K = file_good_reads [OF assms(1) fs_read_safe [OF within_self [OF assms(1)]] assms(2)]
  show "r \<noteq> Panic" "file_good s'" "fs_bytes s' = fs_bytes s"
    using K by simp_all
  show "bs = served (blocks_of_copy (copy_in (fs_bytes s))) first count" if "r = Ok bs"
    using K(4) [OF that] by (auto simp: served_def copy_in_head copy_run_def takeWhile_eq_Nil_iff dest: copy_in_blocks split: copy_state.splits)
qed

lemma crash_leaves_or:
  "within (crash_leaves (\<lambda>g. tidy g \<or> g = f)) s \<Longrightarrow> tidy f \<Longrightarrow> file_good s"
  by (auto simp: within_def file_good_def elim: crash_leaves_mono)

lemma fs_write_writes:
  assumes "file_good s" and "head_ok h" and "writable h (copy_in (fs_bytes s))"
    and "\<forall>b \<in> set blocks. length (snd b) = hd_page_size h" and "fs_write h blocks s = (r, s')"
  shows "r \<noteq> Panic" and "file_good s'"
    and "r = Ok () \<Longrightarrow> copy_in (fs_bytes s') = Copy h (updated h blocks (blocks_of_copy (copy_in (fs_bytes s))))"
proof -
  let ?f = "fs_bytes s" and ?P = "\<lambda>g. tidy g \<or> g = written_file h blocks (fs_bytes s)"
  note C = written_contents [OF assms(2) writable_layout [OF assms(3) file_good_tidy [OF assms(1)]] assms(4)]
  have "safe (within (crash_leaves ?P)) (\<lambda>_ s'. media s' = (written_file h blocks ?f, [])) (fs_write h blocks s)"
    using assms(1) by (intro fs_write_safe [OF _ assms(2)]) (auto simp: file_good_def elim: crash_leaves_mono)
  note K = safeD [OF this assms(5)]
  show "r \<noteq> Panic" using K(2) .
  show "file_good s'" using crash_leaves_or [OF K(1)] same_layout_tidy [OF C(3)] .
  show "copy_in (fs_bytes s') = Copy h (updated h blocks (blocks_of_copy (copy_in ?f)))" if "r = Ok ()"
  proof -
    have "fs_bytes s' = written_file h blocks ?f" using fs_bytes_media [OF K(3) [OF that]] by simp
    moreover have "copy_in ?f \<noteq> Untrusted" using assms(3) by (auto simp: writable_def)
    ultimately show ?thesis
      using copy_inI [OF C(1)] C(2) by (auto simp: updated_def blocks_of_copy_in fun_eq_iff)
  qed
qed

lemma fs_forget_writes:
  assumes "file_good s" and "head_ok h" and "copy_in (fs_bytes s) = Copy b B" and "hd_page_size b = hd_page_size h"
    and "fs_forget h outdated s = (r, s')"
  shows "r \<noteq> Panic" and "file_good s'" and "r = Ok () \<Longrightarrow> copy_in (fs_bytes s') = Copy h (forgotten h outdated B)"
proof -
  let ?f = "fs_bytes s" and ?P = "\<lambda>g. tidy g \<or> g = forgotten_file h outdated (fs_bytes s)"
  have w: "writable h (copy_in ?f)" using assms(3,4) by (simp add: writable_def)
  note C = forgotten_contents [OF assms(2) writable_layout [OF w file_good_tidy [OF assms(1)]]]
  have "safe (within (crash_leaves ?P))
      (\<lambda>_ s'. file_header ?f \<noteq> None \<and> media s' = (forgotten_file h outdated ?f, [])) (fs_forget h outdated s)"
    using assms(1) by (intro fs_forget_safe [OF _ assms(2)]) (auto simp: file_good_def elim: crash_leaves_mono)
  note K = safeD [OF this assms(5)]
  show "r \<noteq> Panic" using K(2) .
  show "file_good s'" using crash_leaves_or [OF K(1)] same_layout_tidy [OF C(3)] .
  show "copy_in (fs_bytes s') = Copy h (forgotten h outdated B)" if "r = Ok ()"
  proof -
    have "fs_bytes s' = forgotten_file h outdated ?f"
      using K(3) [OF that] fs_bytes_media [of s' "forgotten_file h outdated ?f" "[]"] by simp
    moreover have "old_block ?f = B"
      using blocks_of_copy_in [of ?f] assms(3) by simp
    ultimately show ?thesis
      using copy_inI [OF C(1)] C(2) by (auto simp: forgotten_def fun_eq_iff)
  qed
qed

lemma fs_clear_clears:
  assumes "file_good s" and "fs_clear s = (r, s')"
  shows "r \<noteq> Panic" and "file_good s'" and "r = Ok () \<Longrightarrow> copy_in (fs_bytes s') = Absent"
proof -
  have none: "file_header [] = None" by (simp add: file_header_def HEADER_BYTES_def)
  have w: "within (crash_leaves tidy) (s\<lparr>fs_open := False\<rparr>)"
    using assms(1) by (simp add: within_def file_good_def media_def header_atomic_def)
  have gone: "crash_leaves tidy (d, l @ [Remove])" if "crash_leaves tidy (d, l)" for d l
    using that none unfolding crash_leaves_def
    by (auto elim!: survives_snoc simp: untrusted_def copy_head_def)
  have "safe (within (crash_leaves tidy)) (\<lambda>_ s'. fs_bytes s' = []) (fs_clear s)"
    unfolding fs_clear_def
    by (rule safe_and_then [OF os_try_safe [OF w]])
      (auto simp: within_def media_def header_atomic_def fs_bytes_def intro!: gone)
  note K = safeD [OF this assms(2)]
  show "r \<noteq> Panic" "file_good s'" using K by (simp_all add: file_good_within)
  show "copy_in (fs_bytes s') = Absent" if "r = Ok ()"
    using K(3) [OF that] none by (simp add: copy_in_def)
qed

interpretation file_copy: local_store file_ops file_good "\<lambda>s. copy_in (fs_bytes s)"
proof
  fix s s' :: file_store and r assume "file_good s" "so_head file_ops s = (r, s')"
  then show "r \<noteq> Panic \<and> r \<noteq> Hang \<and> file_good s' \<and> copy_in (fs_bytes s') = copy_in (fs_bytes s) \<and>
      (r = Ok None \<longrightarrow> (\<forall>h B. copy_in (fs_bytes s) \<noteq> Copy h B)) \<and>
      (\<forall>h. r = Ok (Some h) \<longrightarrow> (\<exists>B. copy_in (fs_bytes s) = Copy h B))"
    using fs_head_reads [of s r s'] fs_ends(1) [of s]
    by (auto simp: file_ops_def ends_def copy_in_head split: copy_state.splits)
next
  fix first count and s s' :: file_store and r assume "file_good s" "so_read file_ops first count s = (r, s')"
  then show "r \<noteq> Panic \<and> r \<noteq> Hang \<and> file_good s' \<and> copy_in (fs_bytes s') = copy_in (fs_bytes s) \<and>
      (\<forall>bs. r = Ok bs \<longrightarrow> bs = served (blocks_of_copy (copy_in (fs_bytes s))) first count)"
    using fs_read_reads [of s first count r s'] fs_ends(2) [of first count s] by (auto simp: file_ops_def ends_def)
next
  fix h blocks and s s' :: file_store and r
  assume "file_good s" "head_ok h" "writable h (copy_in (fs_bytes s))"
    "\<forall>b \<in> set blocks. length (snd b) = hd_page_size h" "so_write file_ops h blocks s = (r, s')"
  then show "r \<noteq> Panic \<and> r \<noteq> Hang \<and> file_good s' \<and>
      (r = Ok () \<longrightarrow> copy_in (fs_bytes s') = Copy h (updated h blocks (blocks_of_copy (copy_in (fs_bytes s)))))"
    using fs_write_writes [of s h blocks r s'] fs_ends(3) [of h blocks s] by (auto simp: file_ops_def ends_def)
next
  fix h b B outdated and s s' :: file_store and r
  assume "file_good s" "head_ok h" "copy_in (fs_bytes s) = Copy b B" "hd_page_size b = hd_page_size h"
    "so_forget file_ops h outdated s = (r, s')"
  then show "r \<noteq> Panic \<and> r \<noteq> Hang \<and> file_good s' \<and>
      (r = Ok () \<longrightarrow> copy_in (fs_bytes s') = Copy h (forgotten h outdated B))"
    using fs_forget_writes [of s h b B outdated r s'] fs_ends(4) [of h outdated s] by (auto simp: file_ops_def ends_def)
next
  fix s s' :: file_store and r assume "file_good s" "so_clear file_ops s = (r, s')"
  then show "r \<noteq> Panic \<and> r \<noteq> Hang \<and> file_good s' \<and> (r = Ok () \<longrightarrow> copy_in (fs_bytes s') = Absent)"
    using fs_clear_clears [of s r s'] fs_ends(5) [of s] by (auto simp: file_ops_def ends_def)
qed

subsection \<open>Properties\<close>


definition sample_head :: head where
  "sample_head = \<lparr>hd_subject = [97], hd_db_id = [98], hd_page_size = 2, hd_page_count = 3, hd_version = 7\<rparr>"

lemma sample_head_ok: "head_ok sample_head"
  by (simp add: head_ok_def sample_head_def HEADER_BYTES_def MAX_PAGE_SIZE_def MAX_PAGE_COUNT_def U64_def valid_utf8_ascii)

lemma empty_file: "file_header [] = None" "copy_in [] = Absent" "tidy []"
  by (simp_all add: file_header_def HEADER_BYTES_def copy_in_def tidy_def copy_head_def)


text \<open>Without failing calls every operation succeeds.\<close>

lemma fs_bytes_frame [simp]:
  "fs_bytes (s\<lparr>fs_open := b\<rparr>) = fs_bytes s" "fs_bytes (s\<lparr>fs_log := l\<rparr>) = fold apply_op l (fs_disk s)"
  by (simp_all add: fs_bytes_def)

lemma os_works:
  assumes "fs_faults s = []"
  shows "os_try s = (Ok (), s)" and "os_write off d s = (Ok (), s\<lparr>fs_log := fs_log s @ [Write_at off d]\<rparr>)"
    and "os_set_len n s = (Ok (), s\<lparr>fs_log := fs_log s @ [Set_len n]\<rparr>)"
    and "os_sync s = (Ok (), s\<lparr>fs_disk := fs_bytes s, fs_log := []\<rparr>)"
    and "fs_open_file s = (Ok (), s\<lparr>fs_open := True\<rparr>)"
    and "at + n \<le> length (fs_bytes s) \<Longrightarrow> os_read_exact at n s = (Ok (region (fs_bytes s) at n), s)"
  using assms
  by (simp_all add: os_try_def os_write_def os_set_len_def os_sync_def fs_open_file_def os_read_exact_def os_call_def
      get_slice_def sub_slice_region)

lemma header_works:
  assumes "fs_faults s = []"
  shows "read_header s = (Ok (file_header (fs_bytes s)), s\<lparr>fs_open := True\<rparr>)"
    and "read_present h s = (Ok (file_bits (fs_bytes s) h), s\<lparr>fs_open := True\<rparr>)"
    and "head_ok h \<Longrightarrow> write_header h state s =
      (Ok (), s\<lparr>fs_open := True, fs_disk := apply_op (Write_at 0 (header_of h state)) (fs_bytes s), fs_log := []\<rparr>)"
  using assms encode_header_of [of h state]
  by (simp_all add: read_header_def read_present_def write_header_def os_works file_header_def file_bits_def Let_def
      fs_bytes_def)

lemma write_blocks_works:
  "fs_faults s = [] \<Longrightarrow>
     write_blocks h blocks p s = (Ok (present_with h blocks p), s\<lparr>fs_log := fs_log s @ block_ops h blocks\<rparr>)"
  by (induction blocks arbitrary: p s) (simp_all add: os_works present_with_def block_ops_def)

lemma fs_write_works:
  assumes "fs_faults s = []" and "head_ok h"
  shows "fs_write h blocks s = (Ok (), s\<lparr>fs_open := True, fs_disk := written_file h blocks (fs_bytes s), fs_log := []\<rparr>)"
proof -
  let ?f = "fs_bytes s" and ?s = "s\<lparr>fs_open := True\<rparr>"
  have "fs_write h blocks s = and_then (write_header (stale_head h ?f) WRITING ?s) (\<lambda>_ s.
      and_then (fs_open_file s) (\<lambda>_ s.
      and_then (write_blocks h blocks (old_bits ?f (hd_page_count h)) s) (\<lambda>present s. write_present h present s)))"
    using assms(1)
    by (auto simp: fs_write_def header_works Let_def stale_head_def old_bits_def split: option.split)
  also have "\<dots> = (Ok (), s\<lparr>fs_open := True, fs_disk := written_file h blocks ?f, fs_log := []\<rparr>)"
    using assms stale_head_ok [OF assms(2), of ?f]
    by (simp add: header_works os_works write_blocks_works write_present_def Let_def
        written_file_def finished_file_def with_present_def marked_file_def fs_bytes_def)
  finally show ?thesis .
qed

lemma read_blocks_works:
  "fs_faults s = [] \<Longrightarrow> at + n * ps \<le> length (fs_bytes s) \<Longrightarrow> is_ok (fst (read_blocks n ps at s))"
proof (induction n arbitrary: at)
  case (Suc n)
  then have "is_ok (fst (read_blocks n ps (at + ps) s))" by (simp add: algebra_simps)
  then show ?case
    using Suc.prems by (cases "read_blocks n ps (at + ps) s") (auto simp: os_works is_ok_iff)
qed simp

lemma fs_read_works:
  assumes "fs_faults s = []"
  shows "is_ok (fst (fs_read first count s))"
proof (cases "copy_head (fs_bytes s)")
  case None
  then show ?thesis
    using assms by (auto simp: fs_read_def header_works copy_head_def split: option.splits)
next
  case (Some h)
  then have found: "file_header (fs_bytes s) = Some (h, CLEAN)"
    by (auto simp: copy_head_def split: option.splits if_splits)
  let ?p = "file_bits (fs_bytes s) h"
  let ?tw = "takeWhile (present_has ?p) [first..<min (first + count) (hd_page_count h)]"
  have "HEADER_BYTES + first * hd_page_size h + length ?tw * hd_page_size h \<le> length (fs_bytes s)" if run: "?tw \<noteq> []"
  proof -
    have "length ?tw \<le> min (first + count) (hd_page_count h) - first" and "first < hd_page_count h"
      using length_takeWhile_le [of "present_has ?p" "[first..<min (first + count) (hd_page_count h)]"] run
      by (auto simp: takeWhile_eq_Nil_iff)
    then have "first + length ?tw \<le> hd_page_count h" by linarith
    then have "(first + length ?tw) * hd_page_size h \<le> hd_page_count h * hd_page_size h" by (rule mult_le_mono1)
    moreover have "?p \<noteq> present_empty (hd_page_count h)"
    proof
      assume "?p = present_empty (hd_page_count h)"
      then have "?tw = []" by (simp add: takeWhile_eq_Nil_iff)
      with run show False by simp
    qed
    then have "bits_at h \<le> length (fs_bytes s)" by (auto simp: file_bits_def Let_def split: if_splits)
    ultimately show ?thesis by (simp add: bits_at_def algebra_simps)
  qed
  then show ?thesis
    using assms found
    by (auto simp: fs_read_def header_works os_works Let_def intro!: read_blocks_works)
qed

text \<open>C20: what is written to the copy is read back.  If no call of the operating system fails, a write
  succeeds, and a read after it returns the blocks written, and the blocks that were there before for
  the others, up to the first block that is missing.\<close>

theorem copy_round_trip:
  assumes "file_good s" and "fs_faults s = []" and "head_ok h" and "writable h (copy_in (fs_bytes s))"
    and "\<forall>b \<in> set blocks. length (snd b) = hd_page_size h"
  shows "\<exists>s1 s2. fs_write h blocks s = (Ok (), s1) \<and>
    fs_read first count s1 = (Ok (served (updated h blocks (blocks_of_copy (copy_in (fs_bytes s)))) first count), s2)"
proof -
  let ?s1 = "s\<lparr>fs_open := True, fs_disk := written_file h blocks (fs_bytes s), fs_log := []\<rparr>"
  note w = fs_write_works [OF assms(2,3), of blocks]
  note W = fs_write_writes(2,3) [OF assms(1,3-5) w]
  obtain bs s2 where r: "fs_read first count ?s1 = (Ok bs, s2)"
    using fs_read_works [of ?s1 first count] assms(2)
    by (cases "fs_read first count ?s1") (auto simp: is_ok_iff)
  show ?thesis
    using w r fs_read_reads(4) [OF W(1) r refl] W(2) by auto
qed

theorem copy_round_trip_witness:
  "\<exists>s1 s2. fs_write sample_head [(1, [5, 6])] (fs_new [] []) = (Ok (), s1) \<and> fs_read 1 2 s1 = (Ok [[5, 6]], s2)"
proof -
  have s: "file_good (fs_new [] [])" "fs_faults (fs_new [] []) = []" "copy_in (fs_bytes (fs_new [] [])) = Absent"
    using empty_file by (simp_all add: file_good_def fs_new_def header_atomic_def media_def fs_bytes_def)
  have "served (updated sample_head [(1, [5, 6])] (\<lambda>_. None)) 1 2 = [[5, 6]]"
    by (simp add: served_def updated_def sample_head_def upt_rec)
  with copy_round_trip [OF s(1,2) sample_head_ok, of "[(1, [5, 6])]" 1 2] show ?thesis
    by (simp add: s writable_def) (simp add: sample_head_def)
qed

end
