(* ===== verification/Copy_Writer.thy ===== *)
theory Copy_Writer
  imports Local_Store
begin

text \<open>
  The local copy during a session (\<open>local.rs\<close>): \<open>LocalCopy\<close>, and natively the background thread
  \<open>Background\<close> that writes it.  The thread runs while the session goes on; \<open>bg_schedule\<close> says how many
  queued writes it completes before each call, and the theorems hold for every schedule.  A thread that
  panics drops its queue's receiver; sending to it and waiting for its answer then fail.
\<close>

subsection \<open>The background thread\<close>

type_synonym job = "head \<times> (nat \<times> bytes) list"

record 's background =
  bg_store :: 's
  bg_queue :: "job list"
  bg_written :: nat
  bg_given_up :: bool
  bg_failures :: nat
  bg_alive :: bool
  bg_schedule :: "nat list"

definition bg_start :: "bool \<Rightarrow> nat list \<Rightarrow> 's \<Rightarrow> 's background" where
  "bg_start spawned schedule store =
     \<lparr>bg_store = store, bg_queue = [], bg_written = 0, bg_given_up = False, bg_failures = 0,
      bg_alive = spawned, bg_schedule = schedule\<rparr>"

text \<open>The thread's handling of a write.\<close>

definition bg_write_job :: "'s store_ops \<Rightarrow> job \<Rightarrow> 's background \<Rightarrow> 's background" where
  "bg_write_job ops j b =
     (if bg_given_up b then b
      else
        (case so_write ops (fst j) (snd j) (bg_store b) of
           (Ok _, s) \<Rightarrow> b\<lparr>bg_store := s, bg_written := bg_written b + 1\<rparr>
         | (Err _, s) \<Rightarrow>
             let b = b\<lparr>bg_failures := bg_failures b + 1\<rparr> in
             (case so_clear ops s of
                (Ok _, s) \<Rightarrow> b\<lparr>bg_store := s, bg_given_up := False\<rparr>
              | (Err _, s) \<Rightarrow> b\<lparr>bg_store := s, bg_given_up := True\<rparr>
              | (_, s) \<Rightarrow> b\<lparr>bg_store := s, bg_alive := False\<rparr>)
         | (_, s) \<Rightarrow> b\<lparr>bg_store := s, bg_alive := False\<rparr>))"

definition bg_step :: "'s store_ops \<Rightarrow> 's background \<Rightarrow> 's background" where
  "bg_step ops b =
     (case bg_queue b of
        [] \<Rightarrow> b
      | j # js \<Rightarrow> if bg_alive b then bg_write_job ops j (b\<lparr>bg_queue := js\<rparr>) else b)"

text \<open>The writes the thread completes before the next call.\<close>

definition bg_progress :: "'s store_ops \<Rightarrow> 's background \<Rightarrow> 's background" where
  "bg_progress ops b =
     (case bg_schedule b of
        [] \<Rightarrow> b
      | n # ns \<Rightarrow> (bg_step ops ^^ n) (b\<lparr>bg_schedule := ns\<rparr>))"

definition bg_write :: "'s store_ops \<Rightarrow> job \<Rightarrow> 's background \<Rightarrow> bool \<times> 's background" where
  "bg_write ops j b = (if bg_alive b then (True, b\<lparr>bg_queue := bg_queue b @ [j]\<rparr>) else (False, b))"

text \<open>A read goes through the queue, so the writes before it are done first.\<close>

definition bg_drain :: "'s store_ops \<Rightarrow> 's background \<Rightarrow> 's background" where
  "bg_drain ops b = (bg_step ops ^^ length (bg_queue b)) b"

definition bg_read ::
  "'s store_ops \<Rightarrow> nat \<Rightarrow> nat \<Rightarrow> 's background \<Rightarrow> (bytes list, message) res \<times> 's background" where
  "bg_read ops first count b =
     (let b = bg_drain ops b in
      if \<not> bg_alive b then (Err ''local copy thread has stopped'', b)
      else if bg_given_up b then (Err ''local copy disabled after a failed write'', b)
      else
        (case so_read ops first count (bg_store b) of
           (Ok bs, s) \<Rightarrow> (Ok bs, b\<lparr>bg_store := s\<rparr>)
         | (Err e, s) \<Rightarrow> (Err e, b\<lparr>bg_store := s\<rparr>)
         | (_, s) \<Rightarrow> (Err ''local copy thread has stopped'', b\<lparr>bg_store := s, bg_alive := False\<rparr>)))"

text \<open>\<open>drop\<close>: the queue is closed and the thread joined.\<close>

definition bg_drop :: "'s store_ops \<Rightarrow> 's background \<Rightarrow> 's" where
  "bg_drop ops b = bg_store (bg_drain ops b)"

subsection \<open>The copy during a session\<close>

datatype 's local_copy = No_copy | Ready 's | Writing "'s background"

fun lc_is_none :: "'s local_copy \<Rightarrow> bool" where
  "lc_is_none No_copy = True"
| "lc_is_none _ = False"

fun lc_catch_up :: "'s store_ops \<Rightarrow> head \<Rightarrow> nat list \<Rightarrow> 's local_copy \<Rightarrow> (unit, message) res \<times> 's local_copy" where
  "lc_catch_up ops h blocks (Ready s) = (case so_forget ops h blocks s of (r, s) \<Rightarrow> (r, Ready s))"
| "lc_catch_up ops h blocks c = (Err ''a local copy can only be caught up before the first write'', c)"

fun lc_read :: "'s store_ops \<Rightarrow> nat \<Rightarrow> nat \<Rightarrow> 's local_copy \<Rightarrow> (bytes list, message) res \<times> 's local_copy" where
  "lc_read ops first count No_copy = (Ok [], No_copy)"
| "lc_read ops first count (Ready s) = (case so_read ops first count s of (r, s) \<Rightarrow> (r, Ready s))"
| "lc_read ops first count (Writing b) = (case bg_read ops first count b of (r, b) \<Rightarrow> (r, Writing b))"

subsection \<open>Reads do not overtake writes\<close>

lemma bg_step_idle: "bg_queue b = [] \<Longrightarrow> bg_step ops b = b" "\<not> bg_alive b \<Longrightarrow> bg_step ops b = b"
  by (auto simp: bg_step_def split: list.split)

lemma bg_write_job_frame [simp]:
  "bg_queue (bg_write_job ops j b) = bg_queue b" "bg_schedule (bg_write_job ops j b) = bg_schedule b"
  by (auto simp: bg_write_job_def Let_def split: prod.split res.split)

lemma bg_step_queue: "bg_alive b \<Longrightarrow> bg_queue (bg_step ops b) = tl (bg_queue b)"
  by (auto simp: bg_step_def split: list.split)

lemma funpow_fixed: "f x = x \<Longrightarrow> (f ^^ n) x = x"
  by (induction n) simp_all

lemma bg_drain_step: "bg_drain ops (bg_step ops b) = bg_drain ops b"
proof (cases "bg_queue b = [] \<or> \<not> bg_alive b")
  case True
  then show ?thesis by (auto simp: bg_step_idle)
next
  case False
  then have "length (bg_queue b) = Suc (length (bg_queue (bg_step ops b)))"
    by (simp add: bg_step_queue)
  then show ?thesis
    by (simp add: bg_drain_def funpow_swap1)
qed

lemma bg_drain_steps: "bg_drain ops ((bg_step ops ^^ n) b) = bg_drain ops b"
  by (induction n) (simp_all add: bg_drain_step)


text \<open>After the queue is drained, it is empty or the thread has stopped.\<close>

lemma bg_drained: "bg_queue (bg_drain ops b) = [] \<or> \<not> bg_alive (bg_drain ops b)"
proof -
  have "bg_queue ((bg_step ops ^^ n) b) = drop n (bg_queue b) \<or> \<not> bg_alive ((bg_step ops ^^ n) b)" for n
  proof (induction n)
    case (Suc n)
    then show ?case
      by (cases "bg_alive ((bg_step ops ^^ n) b)") (auto simp: bg_step_queue bg_step_idle tl_drop drop_Suc)
  qed simp
  from this [of "length (bg_queue b)"] show ?thesis by (simp add: bg_drain_def)
qed

subsection \<open>The copy holds the blocks of its version\<close>

text \<open>
  \<open>hist v i\<close> is the content of block \<open>i\<close> in version \<open>v\<close> of the database.  A copy is coherent if its blocks
  have the content of its version.  A write carries blocks of its version, and the blocks it leaves out
  have not changed since the version before.
\<close>

definition coherent :: "(nat \<Rightarrow> nat \<Rightarrow> bytes) \<Rightarrow> nat \<Rightarrow> copy_state \<Rightarrow> bool" where
  "coherent hist v c \<longleftrightarrow>
     (case c of
        Copy h B \<Rightarrow> hd_version h = v \<and> (\<forall>i d. B i = Some d \<longrightarrow> i < hd_page_count h \<and> d = hist v i)
      | _ \<Rightarrow> True)"

definition job_ok :: "(nat \<Rightarrow> nat \<Rightarrow> bytes) \<Rightarrow> nat \<Rightarrow> nat \<Rightarrow> job \<Rightarrow> bool" where
  "job_ok hist ps v j \<longleftrightarrow>
     head_ok (fst j) \<and> hd_page_size (fst j) = ps \<and>
     (\<forall>b \<in> set (snd j). length (snd b) = ps \<and> snd b = hist (hd_version (fst j)) (fst b)) \<and>
     (\<forall>i < hd_page_count (fst j). i \<in> fst ` set (snd j) \<or> hist (hd_version (fst j)) i = hist v i)"

primrec jobs_ok :: "(nat \<Rightarrow> nat \<Rightarrow> bytes) \<Rightarrow> nat \<Rightarrow> nat \<Rightarrow> job list \<Rightarrow> nat \<Rightarrow> bool" where
  "jobs_ok hist ps v [] w \<longleftrightarrow> v = w"
| "jobs_ok hist ps v (j # js) w \<longleftrightarrow> job_ok hist ps v j \<and> jobs_ok hist ps (hd_version (fst j)) js w"

definition fits :: "nat \<Rightarrow> copy_state \<Rightarrow> bool" where
  "fits ps c \<longleftrightarrow> (case c of Absent \<Rightarrow> True | Copy b _ \<Rightarrow> hd_page_size b = ps | Untrusted \<Rightarrow> False)"

lemma updated_coherent:
  assumes "coherent hist v c" and "job_ok hist ps v j"
  shows "coherent hist (hd_version (fst j)) (Copy (fst j) (updated (fst j) (snd j) (blocks_of_copy c)))"
proof -
  have "i < hd_page_count (fst j) \<and> d = hist (hd_version (fst j)) i"
    if u: "updated (fst j) (snd j) (blocks_of_copy c) i = Some d" for i d
  proof -
    have i: "i < hd_page_count (fst j)" using u by (auto simp: updated_def split: if_splits)
    show ?thesis
    proof (cases "map_of (rev (snd j)) i")
      case (Some e)
      then have "(i, e) \<in> set (snd j)" using map_of_SomeD [OF Some] by simp
      then show ?thesis using assms(2) u i Some by (auto simp: updated_def job_ok_def)
    next
      case None
      then have out: "i \<notin> fst ` set (snd j)" by (simp add: map_of_eq_None_iff)
      have "blocks_of_copy c i = Some d" using u i None by (simp add: updated_def)
      then have "d = hist v i" using assms(1) by (cases c) (auto simp: coherent_def)
      then show ?thesis using assms(2) i out by (auto simp: job_ok_def)
    qed
  qed
  then show ?thesis by (simp add: coherent_def)
qed

lemma served_coherent:
  assumes "coherent hist w c" and "bs = served (blocks_of_copy c) first count"
  shows "length bs \<le> count \<and> (\<forall>k < length bs. bs ! k = hist w (first + k))"
proof -
  let ?B = "blocks_of_copy c"
  let ?t = "takeWhile (\<lambda>i. ?B i \<noteq> None) [first..<first + count]"
  have len: "length bs = length ?t" "length ?t \<le> count"
    using length_takeWhile_le [of "\<lambda>i. ?B i \<noteq> None" "[first..<first + count]"] by (simp_all add: assms(2) served_def)
  have "bs ! k = hist w (first + k)" if k: "k < length bs" for k
  proof -
    have t: "?t ! k = first + k"
      using k len takeWhile_nth [of k "\<lambda>i. ?B i \<noteq> None" "[first..<first + count]"] by simp
    have "?t ! k \<in> set ?t" using k len by simp
    then obtain d where d: "?B (first + k) = Some d" using t set_takeWhileD by fastforce
    then have "d = hist w (first + k)" using assms(1) by (cases c) (auto simp: coherent_def)
    then show ?thesis using k len t d by (simp add: assms(2) served_def)
  qed
  then show ?thesis using len by simp
qed

text \<open>The thread's store will hold version \<open>w\<close> when the queue is empty, unless the copy was given up.\<close>

definition bg_inv ::
  "('s \<Rightarrow> bool) \<Rightarrow> ('s \<Rightarrow> copy_state) \<Rightarrow> (nat \<Rightarrow> nat \<Rightarrow> bytes) \<Rightarrow> nat \<Rightarrow> nat \<Rightarrow> 's background \<Rightarrow> bool" where
  "bg_inv good holds hist ps w b \<longleftrightarrow> good (bg_store b) \<and>
     (bg_given_up b \<or> \<not> bg_alive b \<or>
      fits ps (holds (bg_store b)) \<and>
      (\<exists>v. coherent hist v (holds (bg_store b)) \<and> jobs_ok hist ps v (bg_queue b) w))"

lemma bg_inv_schedule [simp]: "bg_inv good holds hist ps w (b\<lparr>bg_schedule := ns\<rparr>) = bg_inv good holds hist ps w b"
  by (simp add: bg_inv_def)

lemma jobs_ok_snoc: "jobs_ok hist ps v (js @ [j]) w \<longleftrightarrow>
    (\<exists>u. jobs_ok hist ps v js u \<and> job_ok hist ps u j \<and> w = hd_version (fst j))"
  by (induction js arbitrary: v) auto

lemma bg_inv_write:
  assumes "bg_inv good holds hist ps v b" and "job_ok hist ps v j" and "bg_write ops j b = (ok, b')"
  shows "bg_inv good holds hist ps (hd_version (fst j)) b'"
  using assms by (auto simp: bg_inv_def bg_write_def jobs_ok_snoc split: if_splits) blast+

context local_store
begin

lemma bg_inv_write_job:
  assumes "bg_inv good holds hist ps w b" and "bg_queue b = j # js" and "bg_alive b"
  shows "bg_inv good holds hist ps w (bg_write_job ops j (b\<lparr>bg_queue := js\<rparr>))"
proof (cases "bg_given_up b")
  case True
  then show ?thesis using assms(1) by (simp add: bg_inv_def bg_write_job_def)
next
  case False
  then obtain v where v: "coherent hist v (holds (bg_store b))" "job_ok hist ps v j"
      "jobs_ok hist ps (hd_version (fst j)) js w" and fits: "fits ps (holds (bg_store b))" and good: "good (bg_store b)"
    using assms by (auto simp: bg_inv_def)
  have writable: "writable (fst j) (holds (bg_store b))" and sized: "\<forall>b \<in> set (snd j). length (snd b) = hd_page_size (fst j)"
    and hok: "head_ok (fst j)" and ps: "hd_page_size (fst j) = ps"
    using fits v(2) by (auto simp: writable_def fits_def job_ok_def split: copy_state.splits)
  obtain r s where w: "so_write ops (fst j) (snd j) (bg_store b) = (r, s)" by (metis prod.exhaust)
  note W = write_law [OF good hok writable sized w]
  obtain q t where c: "so_clear ops s = (q, t)" by (metis prod.exhaust)
  note C = clear_law [OF _ c]
  show ?thesis
  proof (cases r)
    case (Ok x)
    then show ?thesis
      using W w v False ps updated_coherent [OF v(1,2)]
      by (auto simp: bg_inv_def bg_write_job_def fits_def)
  next
    case (Err e)
    then show ?thesis
      using W w v False c C
      by (cases q) (auto simp: bg_inv_def bg_write_job_def fits_def coherent_def Let_def)
  qed (use W in auto)
qed

lemma bg_inv_step:
  assumes "bg_inv good holds hist ps w b"
  shows "bg_inv good holds hist ps w (bg_step ops b)"
  using assms bg_inv_write_job by (auto simp: bg_step_def split: list.split)

lemma bg_inv_steps: "bg_inv good holds hist ps w b \<Longrightarrow> bg_inv good holds hist ps w ((bg_step ops ^^ n) b)"
  by (induction n) (simp_all add: bg_inv_step)

lemma bg_inv_progress: "bg_inv good holds hist ps w b \<Longrightarrow> bg_inv good holds hist ps w (bg_progress ops b)"
  by (auto simp: bg_progress_def bg_inv_schedule split: list.split intro!: bg_inv_steps)

lemma bg_read_inv:
  assumes "bg_inv good holds hist ps w b" and "bg_read ops first count b = (r, b')"
  shows "bg_inv good holds hist ps w b'" and "r \<noteq> Panic" and "r \<noteq> Hang"
    and "r = Ok bs \<Longrightarrow> length bs \<le> count \<and> (\<forall>k < length bs. bs ! k = hist w (first + k))"
proof -
  let ?b = "bg_drain ops b"
  have inv: "bg_inv good holds hist ps w ?b"
    unfolding bg_drain_def by (rule bg_inv_steps [OF assms(1)])
  obtain q s where rd: "so_read ops first count (bg_store ?b) = (q, s)" by (metis prod.exhaust)
  have good: "good (bg_store ?b)" using inv by (simp add: bg_inv_def)
  note R = read_law [OF good rd]
  show "bg_inv good holds hist ps w b'" "r \<noteq> Panic" "r \<noteq> Hang"
    using assms(2) inv rd R by (cases q; auto simp: bg_read_def Let_def bg_inv_def split: if_splits)+
  assume "r = Ok bs"
  then have alive: "bg_alive ?b" "\<not> bg_given_up ?b" "q = Ok bs"
    using assms(2) rd by (cases q; auto simp: bg_read_def Let_def split: if_splits)+
  then have "coherent hist w (holds (bg_store ?b))"
    using inv bg_drained [of ops b] by (auto simp: bg_inv_def)
  moreover have "bs = served (blocks_of_copy (holds (bg_store ?b))) first count"
    using R alive(3) by blast
  ultimately show "length bs \<le> count \<and> (\<forall>k < length bs. bs ! k = hist w (first + k))"
    using served_coherent by blast
qed

end

subsection \<open>Properties\<close>

text \<open>C12: the background thread keeps a copy in a file coherent.  If every queued write carries the blocks
  of its version and leaves out only blocks that did not change since the version before, a read returns
  blocks of the last queued version, whatever writes fail and however far the thread has got.\<close>

theorem background_read_coherent:
  assumes "bg_inv file_good (\<lambda>s. copy_in (fs_bytes s)) hist ps w b"
    and "bg_read file_ops first count ((bg_step file_ops ^^ n) b) = (r, b')"
  shows "r \<noteq> Panic \<and> r \<noteq> Hang \<and> bg_inv file_good (\<lambda>s. copy_in (fs_bytes s)) hist ps w b' \<and>
    (\<forall>bs. r = Ok bs \<longrightarrow> length bs \<le> count \<and> (\<forall>k < length bs. bs ! k = hist w (first + k)))"
  using file_copy.bg_read_inv [OF file_copy.bg_inv_steps [OF assms(1)] assms(2)] by blast

theorem background_read_coherent_witness:
  "case bg_read file_ops 1 2 (bg_step file_ops
      (snd (bg_write file_ops (sample_head, [(1, [5, 6])]) (bg_start True [] (fs_new [] []))))) of
     (r, _) \<Rightarrow> r \<noteq> Panic \<and> (\<forall>bs. r = Ok bs \<longrightarrow> (\<forall>k < length bs. bs ! k = [5, 6]))"
proof -
  let ?b = "bg_start True [] (fs_new [] [])" and ?j = "(sample_head, [(1, [5, 6])])"
  have start: "bg_inv file_good (\<lambda>s. copy_in (fs_bytes s)) (\<lambda>_ _. [5, 6]) 2 0 ?b"
    using empty_file
    by (simp add: bg_inv_def bg_start_def file_good_def fs_new_def header_atomic_def media_def fs_bytes_def fits_def
        coherent_def)
  have job: "job_ok (\<lambda>_ _. [5, 6]) 2 0 ?j"
    using sample_head_ok by (simp add: job_ok_def) (simp add: sample_head_def)
  from background_read_coherent [OF bg_inv_write [OF start job surjective_pairing, of file_ops], where first = 1 and count = 2 and n = 1] show ?thesis
    by (auto split: prod.split)
qed

end
