(* ===== verification/Database.thy ===== *)
theory Database
  imports Client Copy_Writer
begin

text \<open>
  A database on the server (\<open>database.rs\<close>): opening, healing, reading, writing, truncating, committing and
  closing, the loading of blocks from the local copy or the server (\<open>Fetch\<close>), and the upkeep of the
  local copy.

  A \<open>session\<close> holds what the methods borrow: the server side of the database, the client, the blocks in
  memory and the counters.  \<open>do_native\<close> tells the two targets apart: natively the copy is written by a
  background thread, in a browser by the connection worker.  \<open>do_turns\<close> bounds the attempts of the loops
  that retry until a deadline.
\<close>

definition COMMIT_FRAME_OVERHEAD :: nat where "COMMIT_FRAME_OVERHEAD = 256"
definition COMMIT_BLOCK_OVERHEAD :: nat where "COMMIT_BLOCK_OVERHEAD = 16"
definition RECONNECT_PAUSE :: nat where "RECONNECT_PAUSE = 200"
definition MAX_CATCH_UP_RANGES :: nat where "MAX_CATCH_UP_RANGES = 4096"

subsection \<open>State\<close>

record 's remote =
  rm_db_id :: rstring
  rm_subject :: rstring
  rm_version :: nat
  rm_lease_id :: bytes
  rm_lease_epoch :: nat
  rm_last_commit_id :: bytes
  rm_pending_commit :: "bytes option"
  rm_local :: "'s local_copy"
  rm_broken :: "broken option"
  rm_login :: nat

record 's database =
  db_pages :: pages
  db_remote :: "'s remote"

record ('w, 's) session =
  se_remote :: "'s remote"
  se_client :: "'w client"
  se_pages :: pages
  se_stats :: stats

record ('w, 's) db_ops =
  do_client :: "'w client_ops"
  do_store :: "'s store_ops"
  do_native :: bool
  do_spawned :: bool
  do_schedule :: "nat list"
  do_turns :: nat

record 's open_options =
  oo_page_size :: nat
  oo_create :: bool
  oo_takeover :: bool
  oo_blocks_per_fetch :: "nat option"
  oo_cap :: "nat option"
  oo_subject :: rstring
  oo_local :: "'s option"

text \<open>A call of the client inside a session.\<close>

definition on_client :: "('w client \<Rightarrow> 'a \<times> 'w client) \<Rightarrow> ('w, 's) session \<Rightarrow> 'a \<times> ('w, 's) session" where
  "on_client f se = (case f (se_client se) of (x, cl) \<Rightarrow> (x, se\<lparr>se_client := cl\<rparr>))"

definition set_local :: "'s local_copy \<Rightarrow> ('w, 's) session \<Rightarrow> ('w, 's) session" where
  "set_local c se = se\<lparr>se_remote := (se_remote se)\<lparr>rm_local := c\<rparr>\<rparr>"

definition tally :: "(stats \<Rightarrow> stats) \<Rightarrow> ('w, 's) session \<Rightarrow> ('w, 's) session" where
  "tally f se = se\<lparr>se_stats := f (se_stats se)\<rparr>"

definition session_now :: "('w, 's) db_ops \<Rightarrow> ('w, 's) session \<Rightarrow> nat \<times> ('w, 's) session" where
  "session_now ops se = on_client (on_world (co_now (do_client ops))) se"

subsection \<open>Checks and groupings\<close>

definition checked :: "opened \<Rightarrow> nat option \<Rightarrow> (opened, client_error) res" where
  "checked od in_use =
     (if \<not> valid_page_size (op_page_size od) then Err (Protocol_error ''page size is not one SQLite allows'')
      else if (case in_use of Some page_size \<Rightarrow> op_page_size od \<noteq> page_size | None \<Rightarrow> False)
      then Err (Protocol_error ''page size differs from the open database'')
      else if MAX_PAGE_COUNT < op_page_count od then Err (Protocol_error ''page count exceeds the limit of SQLite'')
      else Ok od)"

definition add_run :: "nat \<Rightarrow> (nat \<times> nat) list \<Rightarrow> (nat \<times> nat) list" where
  "add_run index rs =
     (if rs \<noteq> [] \<and> (fst (last rs) + snd (last rs)) mod U64 = index
      then butlast rs @ [(fst (last rs), snd (last rs) + 1)]
      else rs @ [(index, 1)])"

definition runs :: "nat list \<Rightarrow> (nat \<times> nat) list" where
  "runs blocks = fold add_run blocks []"

definition clipped_runs :: "nat \<Rightarrow> nat list \<Rightarrow> (nat \<times> nat) list" where
  "clipped_runs page_count blocks =
     filter (\<lambda>r. 0 < snd r) (map (\<lambda>(first, n). (first, min n (page_count - first))) (runs blocks))"

text \<open>The parts of a commit.\<close>

definition per_part :: "nat \<Rightarrow> nat \<Rightarrow> nat" where
  "per_part max_frame_bytes page_size =
     max ((max_frame_bytes - COMMIT_FRAME_OVERHEAD) div (page_size + COMMIT_BLOCK_OVERHEAD)) 1"

definition commit_parts :: "'s remote \<Rightarrow> pages \<Rightarrow> bytes \<Rightarrow> nat \<Rightarrow> (commit_msg list, broken) res" where
  "commit_parts rm p commit_id max_frame_bytes =
     map_ok (\<lambda>dirty.
       let blocks = map (\<lambda>(index, data). \<lparr>bm_index = index, bm_data = data\<rparr>) dirty;
           pieces = (if blocks = [] then [[]] else chunks (per_part max_frame_bytes (pg_page_size p)) blocks);
           n = length pieces in
       map (\<lambda>(part, bs). \<lparr>cm_db_id = rm_db_id rm, cm_commit_id = commit_id, cm_lease_epoch = rm_lease_epoch rm,
              cm_base_version = rm_version rm, cm_page_count = pg_page_count p, cm_blocks = bs,
              cm_more = part + 1 < n, cm_part = part mod 2 ^ 32\<rparr>) (enumerate 0 pieces))
     (dirty_blocks p)"

definition break_with :: "broken \<Rightarrow> ('w, 's) session \<Rightarrow> (('a, broken) res) \<times> ('w, 's) session" where
  "break_with b se = (Err b, se\<lparr>se_remote := (se_remote se)\<lparr>rm_broken := Some b\<rparr>\<rparr>)"

definition break_reason :: "client_error \<Rightarrow> broken" where
  "break_reason err =
     (if is_fenced err then Fenced
      else if is_access_denied err then Denied (error_text err)
      else if is_transient err then Uncertain (''the server failed the request: '' @ error_text err)
      else case err of
        Server_error e \<Rightarrow> Refused (as_str_name (error_code_of e))
      | _ \<Rightarrow> Uncertain (''no connection to the server: '' @ error_text err))"

text \<open>\<open>map_err (|err| remote.break_on(err))?\<close>\<close>

fun or_break_on :: "('a, client_error) res \<times> ('w, 's) session \<Rightarrow> ('a, broken) res \<times> ('w, 's) session" where
  "or_break_on (Ok x, se) = (Ok x, se)"
| "or_break_on (Err err, se) = break_with (break_reason err) se"
| "or_break_on (Panic, se) = (Panic, se)"
| "or_break_on (Hang, se) = (Hang, se)"

subsection \<open>The local copy\<close>

definition copy_head_of :: "'s remote \<Rightarrow> pages \<Rightarrow> head" where
  "copy_head_of rm p =
     \<lparr>hd_subject = rm_subject rm, hd_db_id = rm_db_id rm, hd_page_size = pg_page_size p mod 2 ^ 32,
      hd_page_count = pg_stable_page_count p, hd_version = rm_version rm\<rparr>"

definition forget_copy :: "('w, 's) db_ops \<Rightarrow> ('w, 's) session \<Rightarrow> (unit, 'e) res \<times> ('w, 's) session" where
  "forget_copy ops se =
     (case rm_local (se_remote se) of
        Ready s \<Rightarrow>
          (case so_clear (do_store ops) s of
             (Ok _, s) \<Rightarrow> (Ok (), set_local (Ready s) se)
           | (Err _, s) \<Rightarrow>
               (Ok (), set_local No_copy (tally (\<lambda>st. st\<lparr>local_failures := local_failures st + 1\<rparr>) se))
           | (Panic, s) \<Rightarrow> (Panic, set_local (Ready s) se)
           | (Hang, s) \<Rightarrow> (Hang, set_local (Ready s) se))
      | _ \<Rightarrow> (Ok (), se))"

definition blocks_to_copy :: "pages \<Rightarrow> nat list \<Rightarrow> (nat \<times> bytes) list" where
  "blocks_to_copy p is = List.map_filter (\<lambda>i. map_option (\<lambda>d. (i, d)) (block_at p i)) is"

definition write_copy :: "('w, 's) db_ops \<Rightarrow> nat list \<Rightarrow> ('w, 's) session \<Rightarrow> (unit, 'e) res \<times> ('w, 's) session" where
  "write_copy ops is se =
     (if lc_is_none (rm_local (se_remote se)) \<or> is = [] then (Ok (), se)
      else
        let h = copy_head_of (se_remote se) (se_pages se);
            blocks = blocks_to_copy (se_pages se) is;
            n = length blocks;
            written = (\<lambda>st. st\<lparr>local_writes := local_writes st + 1,
              local_blocks_written := local_blocks_written st + n\<rparr>) in
        if do_native ops then
          let w = (case rm_local (se_remote se) of
                     Ready s \<Rightarrow> Writing (bg_start (do_spawned ops) (do_schedule ops) s)
                   | c \<Rightarrow> c) in
          (case w of
             Writing b \<Rightarrow>
               let b = bg_progress (do_store ops) b;
                   se = tally (\<lambda>st. st\<lparr>local_failures := bg_failures b\<rparr>) se in
               (case bg_write (do_store ops) (h, blocks) b of
                  (True, b) \<Rightarrow> (Ok (), set_local (Writing b) (tally written se))
                | (False, b) \<Rightarrow> (Ok (), set_local No_copy se))
           | c \<Rightarrow> (Ok (), set_local c se))
        else
          (case rm_local (se_remote se) of
             Ready s \<Rightarrow>
               (case so_write (do_store ops) h blocks s of
                  (Ok _, s) \<Rightarrow> (Ok (), set_local (Ready s) (tally written se))
                | (Err _, s) \<Rightarrow>
                    (Ok (), set_local No_copy (tally (\<lambda>st. st\<lparr>local_failures := local_failures st + 1\<rparr>) se))
                | (Panic, s) \<Rightarrow> (Panic, set_local (Ready s) se)
                | (Hang, s) \<Rightarrow> (Hang, set_local (Ready s) se))
           | _ \<Rightarrow> (Ok (), se)))"

text \<open>A read of the copy: its error disables the copy.\<close>

definition copy_read :: "('w, 's) db_ops \<Rightarrow> nat \<Rightarrow> nat \<Rightarrow> ('w, 's) session \<Rightarrow>
    (bytes list option, 'e) res \<times> ('w, 's) session" where
  "copy_read ops first n se =
     (case lc_read (do_store ops) first n (rm_local (se_remote se)) of
        (Ok read, c) \<Rightarrow> (Ok (Some read), set_local c se)
      | (Err _, c) \<Rightarrow>
          (Ok None, set_local No_copy (tally (\<lambda>st. st\<lparr>local_failures := local_failures st + 1\<rparr>) se))
      | (Panic, c) \<Rightarrow> (Panic, set_local c se)
      | (Hang, c) \<Rightarrow> (Hang, set_local c se))"

definition keep_run :: "nat \<Rightarrow> bytes list \<Rightarrow> ('w, 's) session \<Rightarrow> ('w, 's) session" where
  "keep_run first blocks se =
     se\<lparr>se_pages := fold (\<lambda>(offset, d) p. keep p (first + offset) d) (enumerate 0 blocks) (se_pages se)\<rparr>"

definition take_from_copy ::
  "('w, 's) db_ops \<Rightarrow> nat \<Rightarrow> nat \<Rightarrow> ('w, 's) session \<Rightarrow> (bool, 'e) res \<times> ('w, 's) session" where
  "take_from_copy ops first n se =
     (if lc_is_none (rm_local (se_remote se)) then (Ok False, se)
      else
        let se = tally (\<lambda>st. st\<lparr>local_reads := local_reads st + 1\<rparr>) se;
            n = min n (blocks_per_read (pg_page_size (se_pages se))) in
        and_then (copy_read ops first n se) (\<lambda>read se.
          case read of
            None \<Rightarrow> (Ok False, se)
          | Some read \<Rightarrow>
              if read = [] \<or> list_ex (\<lambda>b. length b \<noteq> pg_page_size (se_pages se)) read
              then (Ok False, tally (\<lambda>st. st\<lparr>local_misses := local_misses st + 1\<rparr>) se)
              else (Ok True, keep_run first read
                (tally (\<lambda>st. st\<lparr>local_blocks_read := local_blocks_read st + length read\<rparr>) se))))"

subsection \<open>Loading from the server\<close>

definition load_range ::
  "('w, 's) db_ops \<Rightarrow> nat \<Rightarrow> nat \<Rightarrow> ('w, 's) session \<Rightarrow> (unit, client_error) res \<times> ('w, 's) session" where
  "load_range ops first n se =
     (case session_now ops se of (started, se) \<Rightarrow>
      and_then (on_client (fetch_blocks (do_client ops)
          \<lparr>fe_db_id = rm_db_id (se_remote se), fe_version = rm_version (se_remote se), fe_first_block = first,
           fe_count = n, fe_ranges = []\<rparr> (pg_page_size (se_pages se))) se) (\<lambda>blocks se.
      case session_now ops se of (now, se) \<Rightarrow>
        (Ok (), keep_run first blocks
          (tally (\<lambda>st. st\<lparr>fetches := fetches st + 1, fetched_blocks := fetched_blocks st + n,
             fetch_time := fetch_time st + (now - started)\<rparr>) se))))"

text \<open>The end of \<open>catch_copy_up\<close>: a preloaded database fetches the outdated blocks at once.\<close>

definition refetch ::
  "('w, 's) db_ops \<Rightarrow> (nat \<times> nat) list \<Rightarrow> ('w, 's) session \<Rightarrow> (bool, client_error) res \<times> ('w, 's) session" where
  "refetch ops rs se =
     (if \<not> on_demand (se_pages se) \<and> rs \<noteq> [] then
        (case session_now ops se of (started, se) \<Rightarrow>
         and_then (on_client (fetch_ranges (do_client ops) (rm_db_id (se_remote se))
             (rm_version (se_remote se)) rs (pg_page_size (se_pages se))) se) (\<lambda>blocks se.
         case session_now ops se of (now, se) \<Rightarrow>
           let se = tally (\<lambda>st. st\<lparr>fetches := fetches st + 1, fetched_blocks := fetched_blocks st + length blocks,
                 fetch_time := fetch_time st + (now - started)\<rparr>) se;
               se = se\<lparr>se_pages := fold (\<lambda>(index, d) p. keep p index d) blocks (se_pages se)\<rparr> in
           and_then (write_copy ops (map fst blocks) se) (\<lambda>_ se. (Ok True, se))))
      else (Ok True, se))"

definition catch_copy_up ::
  "('w, 's) db_ops \<Rightarrow> head \<Rightarrow> ('w, 's) session \<Rightarrow> (bool, client_error) res \<times> ('w, 's) session" where
  "catch_copy_up ops behind se =
     and_then (on_client (client_changes (do_client ops) (rm_db_id (se_remote se)) (hd_version behind)) se) (\<lambda>changes se.
       if \<not> cs_complete changes \<or> cs_to_version changes \<noteq> rm_version (se_remote se) then (Ok False, se)
       else
         let page_count = pg_page_count (se_pages se);
             rs = clipped_runs page_count (cs_blocks changes) in
         if page_count div 3 < length (cs_blocks changes) \<or> MAX_CATCH_UP_RANGES < length rs then (Ok False, se)
         else
           (case lc_catch_up (do_store ops) (copy_head_of (se_remote se) (se_pages se)) (cs_blocks changes)
                   (rm_local (se_remote se)) of
              (Err _, c) \<Rightarrow>
                (Ok False, set_local No_copy (tally (\<lambda>st. st\<lparr>local_failures := local_failures st + 1\<rparr>) se))
            | (Panic, c) \<Rightarrow> (Panic, set_local c se)
            | (Hang, c) \<Rightarrow> (Hang, set_local c se)
            | (Ok _, c) \<Rightarrow>
                refetch ops rs (tally (\<lambda>st. st\<lparr>caught_up := caught_up st + 1,
                  forgotten_blocks := forgotten_blocks st + length (cs_blocks changes)\<rparr>) (set_local c se))))"

text \<open>
  The loop of \<open>take_copy\<close> that reads the whole copy.  Every turn reads at least one block, so as many turns
  as the database has blocks are enough.
\<close>

primrec copy_chunks ::
  "nat \<Rightarrow> ('w, 's) db_ops \<Rightarrow> nat \<Rightarrow> ('w, 's) session \<Rightarrow> (bool, client_error) res \<times> ('w, 's) session" where
  "copy_chunks 0 ops first se =
     (if first < pg_page_count (se_pages se) then (Hang, se)
      else (Ok True, tally (\<lambda>st. st\<lparr>local_reads := local_reads st + 1\<rparr>) se))"
| "copy_chunks (Suc turns) ops first se =
     (if first < pg_page_count (se_pages se) then
        let n = min (blocks_per_read (pg_page_size (se_pages se))) (pg_page_count (se_pages se) - first) in
        and_then (copy_read ops first n se) (\<lambda>read se.
          case read of
            None \<Rightarrow> (Ok False, se)
          | Some read \<Rightarrow>
              if length read \<noteq> n then (Ok False, tally (\<lambda>st. st\<lparr>local_misses := local_misses st + 1\<rparr>) se)
              else copy_chunks turns ops (first + n) (keep_run first read
                (tally (\<lambda>st. st\<lparr>local_blocks_read := local_blocks_read st + n\<rparr>) se)))
      else (Ok True, tally (\<lambda>st. st\<lparr>local_reads := local_reads st + 1\<rparr>) se))"

definition take_copy :: "('w, 's) db_ops \<Rightarrow> ('w, 's) session \<Rightarrow> (bool, client_error) res \<times> ('w, 's) session" where
  "take_copy ops se =
     (case rm_local (se_remote se) of
        Ready s \<Rightarrow>
          (case so_head (do_store ops) s of
             (Err _, s) \<Rightarrow>
               (Ok False, set_local No_copy (tally (\<lambda>st. st\<lparr>local_failures := local_failures st + 1\<rparr>) se))
           | (Panic, s) \<Rightarrow> (Panic, set_local (Ready s) se)
           | (Hang, s) \<Rightarrow> (Hang, set_local (Ready s) se)
           | (Ok found, s) \<Rightarrow>
               let se = set_local (Ready s) se;
                   rm = se_remote se;
                   usable = (case found of
                       Some h \<Rightarrow> if hd_subject h = rm_subject rm \<and> hd_db_id h = rm_db_id rm \<and>
                                    hd_page_size h = pg_page_size (se_pages se) then Some h else None
                     | None \<Rightarrow> None) in
               (case usable of
                  None \<Rightarrow> and_then (forget_copy ops se) (\<lambda>_ se. (Ok False, se))
                | Some h \<Rightarrow>
                    if rm_version rm < hd_version h
                    then (Err (Protocol_error ''the server has lost commits''), se)
                    else
                      and_then (if hd_version h < rm_version rm then catch_copy_up ops h se else (Ok True, se)) (\<lambda>current se.
                        if \<not> current then and_then (forget_copy ops se) (\<lambda>_ se. (Ok False, se))
                        else if on_demand (se_pages se) then (Ok False, se)
                        else copy_chunks (pg_page_count (se_pages se)) ops 0 se)))
      | _ \<Rightarrow> (Ok False, se))"

definition remote_fill :: "('w, 's) db_ops \<Rightarrow> ('w, 's) session \<Rightarrow> (unit, client_error) res \<times> ('w, 's) session" where
  "remote_fill ops se =
     and_then (take_copy ops se) (\<lambda>from_copy se.
     and_then (if \<not> on_demand (se_pages se) \<and> 0 < pg_page_count (se_pages se) \<and> \<not> from_copy
               then and_then (load_range ops 0 (pg_page_count (se_pages se)) se) (\<lambda>_ se.
                      write_copy ops (indexes (se_pages se)) se)
               else (Ok (), se)) (\<lambda>_ se.
       case make_room (se_pages se) 0 (se_stats se) of (p, st) \<Rightarrow>
         (Ok (), se\<lparr>se_pages := p, se_stats := st\<lparr>held_blocks := held p\<rparr>\<rparr>)))"

subsection \<open>The connection of a database\<close>

definition on_current_connection :: "('w, 's) db_ops \<Rightarrow> ('w, 's) session \<Rightarrow> bool \<times> ('w, 's) session" where
  "on_current_connection ops se =
     (case on_client (is_connected (do_client ops)) se of (up, se) \<Rightarrow>
        (up \<and> cl_logins (se_client se) = rm_login (se_remote se), se))"

definition resume :: "('w, 's) db_ops \<Rightarrow> nat \<Rightarrow> ('w, 's) session \<Rightarrow> (opened, client_error) res \<times> ('w, 's) session" where
  "resume ops page_size se =
     (case on_client (is_connected (do_client ops)) se of (up, se) \<Rightarrow>
      and_then (if up then (Ok (), se)
                else and_then (on_client (reconnect (do_client ops)) se) (\<lambda>_ se.
                       (Ok (), tally (\<lambda>st. st\<lparr>reconnects := reconnects st + 1\<rparr>) se))) (\<lambda>_ se.
      and_then (on_client (call (do_client ops) (Open_body
          \<lparr>om_db_id = rm_db_id (se_remote se), om_page_size = page_size mod 2 ^ 32, om_create_if_missing = False,
           om_takeover = False,
           om_resume = Some \<lparr>re_lease_id = rm_lease_id (se_remote se), re_lease_epoch = rm_lease_epoch (se_remote se),
             re_known_version = rm_version (se_remote se), re_pending_commit_id = []\<rparr>\<rparr>)) se) (\<lambda>answer se.
        case answer of
          Opened_body od \<Rightarrow>
            and_then (checked od (Some (page_size mod 2 ^ 32)), se) (\<lambda>od se.
              (Ok od, se\<lparr>se_remote := (se_remote se)\<lparr>rm_login := cl_logins (se_client se)\<rparr>\<rparr>))
        | _ \<Rightarrow> (Err (Protocol_error ''expected Opened''), se))))"

primrec resume_until ::
  "nat \<Rightarrow> ('w, 's) db_ops \<Rightarrow> nat \<Rightarrow> nat \<Rightarrow> ('w, 's) session \<Rightarrow> (opened, broken) res \<times> ('w, 's) session" where
  "resume_until 0 ops page_size deadline se = (Hang, se)"
| "resume_until (Suc turns) ops page_size deadline se =
     (case resume ops page_size se of
        (Ok od, se) \<Rightarrow> (Ok od, se)
      | (Err err, se) \<Rightarrow>
          if is_fenced err then break_with Fenced se
          else if is_access_denied err then break_with (Denied (error_text err)) se
          else
            (case session_now ops se of (now, se) \<Rightarrow>
               if deadline \<le> now then break_with (Uncertain (''no connection to the server: '' @ error_text err)) se
               else resume_until turns ops page_size deadline
                 (snd (on_client (on_world (\<lambda>w. ((), co_pause (do_client ops) RECONNECT_PAUSE w))) se)))
      | (Panic, se) \<Rightarrow> (Panic, se)
      | (Hang, se) \<Rightarrow> (Hang, se))"

subsection \<open>Missing blocks\<close>

definition session_of :: "'w client \<times> 's remote \<Rightarrow> pages \<Rightarrow> stats \<Rightarrow> ('w, 's) session" where
  "session_of s p st = \<lparr>se_remote = snd s, se_client = fst s, se_pages = p, se_stats = st\<rparr>"

definition reach_server :: "('w, 's) db_ops \<Rightarrow> ('w, 's) session \<Rightarrow> (unit, broken) res \<times> ('w, 's) session" where
  "reach_server ops se =
     (case on_current_connection ops se of (current, se) \<Rightarrow>
      if current then (Ok (), se)
      else (case resume ops (pg_page_size (se_pages se)) se of
              (Ok _, se) \<Rightarrow> (Ok (), se)
            | (Err err, se) \<Rightarrow>
                break_with (if is_access_denied err then Denied (error_text err) else Uncertain (error_text err)) se
            | (Panic, se) \<Rightarrow> (Panic, se)
            | (Hang, se) \<Rightarrow> (Hang, se)))"

definition load_missing ::
  "('w, 's) db_ops \<Rightarrow> nat \<Rightarrow> nat \<Rightarrow> ('w, 's) session \<Rightarrow> (unit, broken) res \<times> ('w, 's) session" where
  "load_missing ops first n se =
     (case load_range ops first n se of
        (Ok _, se) \<Rightarrow> (Ok (), se)
      | (Err err, se) \<Rightarrow> if is_fenced err then break_with Fenced se else (Err (Refused (error_text err)), se)
      | (Panic, se) \<Rightarrow> (Panic, se)
      | (Hang, se) \<Rightarrow> (Hang, se))"

definition fetch_missing :: "('w, 's) db_ops \<Rightarrow> nat \<Rightarrow> nat \<Rightarrow> ('w, 's) session \<Rightarrow> (unit, broken) res \<times> ('w, 's) session" where
  "fetch_missing ops first n se =
     (case rm_broken (se_remote se) of
        Some b \<Rightarrow> (Err b, se)
      | None \<Rightarrow>
          and_then (take_from_copy ops first n se) (\<lambda>got se.
            if got then (Ok (), se)
            else and_then (reach_server ops se) (\<lambda>_ se.
                 and_then (load_missing ops first n se) (\<lambda>_ se.
                   write_copy ops [first..<first + n] se))))"

definition fetch_fill :: "('w, 's) db_ops \<Rightarrow> ('w client \<times> 's remote) fill" where
  "fetch_fill ops s p first n st =
     (case fetch_missing ops first n (session_of s p st) of
        (r, se) \<Rightarrow> (r, (se_client se, se_remote se), se_pages se, se_stats se))"

subsection \<open>Opening and healing\<close>

definition db_open ::
  "('w, 's) db_ops \<Rightarrow> rstring \<Rightarrow> 's open_options \<Rightarrow> 'w client \<Rightarrow> stats \<Rightarrow>
     ('s database, client_error) res \<times> 'w client \<times> stats" where
  "db_open ops db_id opts cl st =
     (case and_then (call (do_client ops) (Open_body
          \<lparr>om_db_id = db_id, om_page_size = oo_page_size opts, om_create_if_missing = oo_create opts,
           om_takeover = oo_takeover opts, om_resume = None\<rparr>) cl) (\<lambda>answer cl.
        case answer of
          Opened_body od \<Rightarrow> (checked od None, cl)
        | _ \<Rightarrow> (Err (Protocol_error ''expected Opened''), cl)) of
        (Ok od, cl) \<Rightarrow>
          let rm = \<lparr>rm_db_id = db_id, rm_subject = oo_subject opts, rm_version = op_version od,
                 rm_lease_id = op_lease_id od, rm_lease_epoch = op_lease_epoch od,
                 rm_last_commit_id = op_last_commit_id od, rm_pending_commit = None,
                 rm_local = (case oo_local opts of Some s \<Rightarrow> Ready s | None \<Rightarrow> No_copy),
                 rm_broken = None, rm_login = cl_logins cl\<rparr>;
              p = pages_new (op_page_size od) (op_page_count od) (oo_blocks_per_fetch opts) (oo_cap opts) in
          (case remote_fill ops (session_of (cl, rm) p st) of
             (r, se) \<Rightarrow> (map_ok (\<lambda>_. \<lparr>db_pages = se_pages se, db_remote = se_remote se\<rparr>) r, se_client se, se_stats se))
      | (Err e, cl) \<Rightarrow> (Err e, cl, st)
      | (Panic, cl) \<Rightarrow> (Panic, cl, st)
      | (Hang, cl) \<Rightarrow> (Hang, cl, st))"

definition is_unreachable :: "'s database \<Rightarrow> bool" where
  "is_unreachable db \<longleftrightarrow> (case rm_broken (db_remote db) of Some (Uncertain _) \<Rightarrow> True | _ \<Rightarrow> False)"

text \<open>What the server's version says of the pending commit.\<close>

definition was_applied :: "'s remote \<Rightarrow> opened \<Rightarrow> bool" where
  "was_applied rm od \<longleftrightarrow> op_version od = rm_version rm + 1 \<and> rm_pending_commit rm = Some (op_last_commit_id od)"

definition heal_session :: "('w, 's) db_ops \<Rightarrow> ('w, 's) session \<Rightarrow> (unit, broken) res \<times> ('w, 's) session" where
  "heal_session ops se =
     and_then (or_break_on (resume ops (pg_page_size (se_pages se)) se)) (\<lambda>od se.
       let rm = se_remote se; applied = was_applied rm od in
       if op_version od \<noteq> rm_version rm \<and> \<not> applied
       then break_with (Diverged ''server is at another version than this client'') se
       else
         let se = (if applied then tally (\<lambda>st. st\<lparr>recovered_commits := recovered_commits st + 1\<rparr>) se else se);
             se = se\<lparr>se_remote := (se_remote se)\<lparr>rm_version := op_version od, rm_last_commit_id := op_last_commit_id od,
                      rm_pending_commit := None\<rparr>,
                     se_pages := emptied (se_pages se) (op_page_count od)\<rparr> in
         and_then (or_break_on (remote_fill ops se)) (\<lambda>_ se.
           (Ok (), tally (\<lambda>st. st\<lparr>healed := healed st + 1\<rparr>)
              (se\<lparr>se_remote := (se_remote se)\<lparr>rm_broken := None\<rparr>\<rparr>))))"

definition db_heal ::
  "('w, 's) db_ops \<Rightarrow> 's database \<Rightarrow> 'w client \<Rightarrow> stats \<Rightarrow> (unit, broken) res \<times> 's database \<times> 'w client \<times> stats" where
  "db_heal ops db cl st =
     (case heal_session ops (session_of (cl, db_remote db) (db_pages db) st) of
        (r, se) \<Rightarrow>
          (r, \<lparr>db_pages = (if is_ok r then se_pages se else db_pages db), db_remote = se_remote se\<rparr>,
           se_client se, se_stats se))"

subsection \<open>Reading and writing\<close>

definition db_file_size :: "'s database \<Rightarrow> nat" where
  "db_file_size db = pages_file_size (db_pages db)"

definition db_read ::
  "('w, 's) db_ops \<Rightarrow> 's database \<Rightarrow> 'w client \<Rightarrow> bytes \<Rightarrow> nat \<Rightarrow> stats \<Rightarrow>
     (bool, broken) res \<times> bytes \<times> 's database \<times> 'w client \<times> stats" where
  "db_read ops db cl buf offset st =
     (case rm_broken (db_remote db) of
        Some b \<Rightarrow> (Err b, buf, db, cl, st)
      | None \<Rightarrow>
          (case pages_read (fetch_fill ops) (cl, db_remote db) (db_pages db) buf offset st of
             (r, buf, (cl, rm), p, st) \<Rightarrow> (r, buf, \<lparr>db_pages = p, db_remote = rm\<rparr>, cl, st)))"

definition db_write ::
  "('w, 's) db_ops \<Rightarrow> 's database \<Rightarrow> 'w client \<Rightarrow> bytes \<Rightarrow> nat \<Rightarrow> stats \<Rightarrow>
     (unit, broken) res \<times> 's database \<times> 'w client \<times> stats" where
  "db_write ops db cl d offset st =
     (case rm_broken (db_remote db) of
        Some b \<Rightarrow> (Err b, db, cl, st)
      | None \<Rightarrow>
          (case pages_write (fetch_fill ops) (cl, db_remote db) (db_pages db) d offset st of
             (r, (cl, rm), p, st) \<Rightarrow> (r, \<lparr>db_pages = p, db_remote = rm\<rparr>, cl, st)))"

definition db_truncate :: "'s database \<Rightarrow> nat \<Rightarrow> (unit, broken) res \<times> 's database" where
  "db_truncate db n =
     (case rm_broken (db_remote db) of
        Some b \<Rightarrow> (Err b, db)
      | None \<Rightarrow>
          (case pages_truncate (db_pages db) n of
             Ok p \<Rightarrow> (Ok (), db\<lparr>db_pages := p\<rparr>)
           | Err e \<Rightarrow> (Err e, db) | Panic \<Rightarrow> (Panic, db) | Hang \<Rightarrow> (Hang, db)))"

subsection \<open>Committing\<close>

text \<open>Before an attempt: the database must be open on the current connection, at the version known.\<close>

definition rejoin :: "('w, 's) db_ops \<Rightarrow> nat \<Rightarrow> ('w, 's) session \<Rightarrow> (unit, broken) res \<times> ('w, 's) session" where
  "rejoin ops deadline se =
     (case on_current_connection ops se of (current, se) \<Rightarrow>
      if current then (Ok (), se)
      else and_then (resume_until (do_turns ops) ops (pg_page_size (se_pages se)) deadline se) (\<lambda>od se.
        if op_version od \<noteq> rm_version (se_remote se)
        then break_with (Diverged ''server is at another version than this client'') se
        else (Ok (), se)))"

text \<open>After an attempt that failed: the version if the commit turns out applied, or another attempt.\<close>

definition after_failure ::
  "('w, 's) db_ops \<Rightarrow> bytes \<Rightarrow> nat \<Rightarrow> client_error \<Rightarrow> ('w, 's) session \<Rightarrow> (nat option, broken) res \<times> ('w, 's) session" where
  "after_failure ops commit_id deadline err se =
     (if is_fenced err then break_with Fenced se
      else if is_transient err then
        (case session_now ops se of (now, se) \<Rightarrow>
           if deadline \<le> now then break_with (Uncertain (''the server failed the commit: '' @ error_text err)) se
           else (Ok None, tally (\<lambda>st. st\<lparr>resent_commits := resent_commits st + 1\<rparr>)
                   (snd (on_client (on_world (\<lambda>w. ((), co_pause (do_client ops) RECONNECT_PAUSE w))) se))))
      else
        (case err of
           Server_error e \<Rightarrow> break_with (Refused (as_str_name (error_code_of e))) se
         | _ \<Rightarrow>
             and_then (resume_until (do_turns ops) ops (pg_page_size (se_pages se)) deadline se) (\<lambda>od se.
               if op_version od = rm_version (se_remote se) + 1 \<and> op_last_commit_id od = commit_id
               then (Ok (Some (op_version od)), tally (\<lambda>st. st\<lparr>recovered_commits := recovered_commits st + 1\<rparr>) se)
               else if op_version od \<noteq> rm_version (se_remote se)
               then break_with (Diverged ''server is at another version than this client'') se
               else (Ok None, tally (\<lambda>st. st\<lparr>resent_commits := resent_commits st + 1\<rparr>) se))))"

primrec commit_attempts ::
  "nat \<Rightarrow> ('w, 's) db_ops \<Rightarrow> commit_msg list \<Rightarrow> bytes \<Rightarrow> nat \<Rightarrow> ('w, 's) session \<Rightarrow>
     (nat, broken) res \<times> ('w, 's) session" where
  "commit_attempts 0 ops parts commit_id deadline se = (Hang, se)"
| "commit_attempts (Suc turns) ops parts commit_id deadline se =
     and_then (rejoin ops deadline se) (\<lambda>_ se.
       case on_client (client_commit (do_client ops) parts) se of
         (Ok version, se) \<Rightarrow> (Ok version, se)
       | (Err err, se) \<Rightarrow>
           and_then (after_failure ops commit_id deadline err se) (\<lambda>applied se.
             case applied of
               Some version \<Rightarrow> (Ok version, se)
             | None \<Rightarrow> commit_attempts turns ops parts commit_id deadline se)
       | (Panic, se) \<Rightarrow> (Panic, se)
       | (Hang, se) \<Rightarrow> (Hang, se))"

definition count_db_commit :: "nat \<Rightarrow> nat \<Rightarrow> nat \<Rightarrow> nat \<Rightarrow> stats \<Rightarrow> stats" where
  "count_db_commit parts blocks page_size elapsed st =
     st\<lparr>commits := commits st + 1, commit_frames := commit_frames st + parts,
        committed_blocks := committed_blocks st + blocks,
        committed_bytes := committed_bytes st + blocks * page_size,
        commit_time := commit_time st + elapsed, max_commit_time := max (max_commit_time st) elapsed\<rparr>"

definition commit_session :: "('w, 's) db_ops \<Rightarrow> nat \<Rightarrow> ('w, 's) session \<Rightarrow> (unit, broken) res \<times> ('w, 's) session" where
  "commit_session ops reconnect_timeout se =
     (case rm_broken (se_remote se) of
        Some b \<Rightarrow> (Err b, se)
      | None \<Rightarrow>
          if is_clean (se_pages se) then (Ok (), se)
          else if was_revoked (rm_db_id (se_remote se)) (rm_lease_epoch (se_remote se)) (se_client se)
          then break_with Fenced se
          else
            (case on_client (on_world (co_random (do_client ops))) se of (commit_id, se) \<Rightarrow>
             and_then (commit_parts (se_remote se) (se_pages se) commit_id
                 (li_max_frame_bytes (cl_limits (se_client se))), se) (\<lambda>parts se.
             let se = se\<lparr>se_remote := (se_remote se)\<lparr>rm_pending_commit := Some commit_id\<rparr>\<rparr> in
             (case session_now ops se of (started, se) \<Rightarrow>
              and_then (commit_attempts (do_turns ops) ops parts commit_id (started + reconnect_timeout) se) (\<lambda>version se.
              case session_now ops se of (now, se) \<Rightarrow>
              and_then (dirty_blocks (se_pages se), se) (\<lambda>dirty se.
              let se = tally (count_db_commit (length parts) (length dirty) (pg_page_size (se_pages se)) (now - started)) se;
                  se = se\<lparr>se_remote := (se_remote se)\<lparr>rm_version := version, rm_last_commit_id := commit_id,
                           rm_pending_commit := None\<rparr>\<rparr> in
              (case committed (se_pages se) of (written, p) \<Rightarrow>
               and_then (write_copy ops written (se\<lparr>se_pages := p\<rparr>)) (\<lambda>_ se.
               case make_room (se_pages se) 0 (se_stats se) of (p, st) \<Rightarrow>
                 (Ok (), se\<lparr>se_pages := p, se_stats := st\<lparr>held_blocks := held p\<rparr>\<rparr>)))))))))"

definition db_commit ::
  "('w, 's) db_ops \<Rightarrow> 's database \<Rightarrow> 'w client \<Rightarrow> nat \<Rightarrow> stats \<Rightarrow> (unit, broken) res \<times> 's database \<times> 'w client \<times> stats" where
  "db_commit ops db cl reconnect_timeout st =
     (case commit_session ops reconnect_timeout (session_of (cl, db_remote db) (db_pages db) st) of
        (r, se) \<Rightarrow> (r, \<lparr>db_pages = se_pages se, db_remote = se_remote se\<rparr>, se_client se, se_stats se))"

subsection \<open>Closing\<close>

definition take_local :: "'s database \<Rightarrow> 's option \<times> 's database" where
  "take_local db =
     (case rm_local (db_remote db) of
        Ready s \<Rightarrow> (Some s, db\<lparr>db_remote := (db_remote db)\<lparr>rm_local := No_copy\<rparr>\<rparr>)
      | _ \<Rightarrow> (None, db\<lparr>db_remote := (db_remote db)\<lparr>rm_local := No_copy\<rparr>\<rparr>))"

definition db_close :: "('w, 's) db_ops \<Rightarrow> 's database \<Rightarrow> 'w client \<Rightarrow> 'w client" where
  "db_close ops db cl =
     (if rm_broken (db_remote db) \<noteq> None then disconnect cl
      else
        (case is_connected (do_client ops) cl of (up, cl) \<Rightarrow>
           if up \<and> cl_logins cl = rm_login (db_remote db)
           then snd (call (do_client ops) (CloseDb_body \<lparr>cd_db_id = rm_db_id (db_remote db),
             cd_lease_epoch = rm_lease_epoch (db_remote db)\<rparr>) cl)
           else cl))"

end
