(* ===== verification/Vfs.thy ===== *)
theory Vfs
  imports Database Local_Database
begin

text \<open>
  The VFS (\<open>vfs.rs\<close>) and its registration and public calls (\<open>lib.rs\<close>): the main database file over a database
  on the server or a local one, journals and temporary files by name, and the mapping of every failure
  to SQLite's error codes.

  \<open>inner\<close> is the state the callbacks share.  The bytes of temporary files are rsqlite-vfs's
  \<open>MemChunksFile\<close>; here a temporary file is its identity, as \<open>Arc::ptr_eq\<close> sees it.  The mutexes are left
  out: every operation holds the locks it needs from its first access on.
\<close>

subsection \<open>Configuration\<close>

datatype load_mode = Preload | OnDemand nat

datatype memory_limit = Unlimited | Blocks nat

datatype cache_kind = Cache_none | Cache_file | Cache_browser

record config =
  cfg_page_size :: nat
  cfg_load :: load_mode
  cfg_memory :: memory_limit
  cfg_takeover :: bool
  cfg_refuse_plaintext :: bool
  cfg_timeout :: nat

definition config_new :: config where
  "config_new = \<lparr>cfg_page_size = 4096, cfg_load = Preload, cfg_memory = Unlimited, cfg_takeover = False,
     cfg_refuse_plaintext = False, cfg_timeout = 10000\<rparr>"

record server_settings =
  ss_cache :: cache_kind
  ss_on_takeover :: bool
  ss_reconnect_timeout :: nat
  ss_subject :: rstring

definition server_new :: "rstring \<Rightarrow> server_settings" where
  "server_new subj = \<lparr>ss_cache = Cache_none, ss_on_takeover = False, ss_reconnect_timeout = 10000,
     ss_subject = subj\<rparr>"

fun blocks_per_fetch :: "load_mode \<Rightarrow> nat option" where
  "blocks_per_fetch Preload = None"
| "blocks_per_fetch (OnDemand n) = Some (max n 1)"

fun cap :: "memory_limit \<Rightarrow> nat option" where
  "cap Unlimited = None"
| "cap (Blocks n) = Some n"

subsection \<open>Errors\<close>

datatype vfs_code = CantOpen | Busy_code | Permission | Auth | Io | IoRead | IoWrite | IoTruncate | IoDelete

type_synonym vfs_error = "vfs_code \<times> message"

datatype sqlite_code = SQLITE_OK | SQLITE_NOTFOUND | SQLITE_FULL | SQLITE_AUTH | SQLITE_IOERR_FSYNC

fun broken_text :: "broken \<Rightarrow> message" where
  "broken_text Fenced = ''Fenced''"
| "broken_text (Uncertain reason) = ''Uncertain: '' @ reason"
| "broken_text (Diverged reason) = ''Diverged: '' @ reason"
| "broken_text (Refused reason) = ''Refused: '' @ reason"
| "broken_text (Denied reason) = ''Denied: '' @ reason"
| "broken_text (Full reason) = ''Full: '' @ reason"
| "broken_text Plaintext = ''Plaintext''"

fun broken_error :: "vfs_code \<Rightarrow> broken \<Rightarrow> vfs_error" where
  "broken_error code Plaintext =
     (Permission, ''plaintext refused: page 1 carries an unencrypted SQLite header, see Config::refuse_plaintext'')"
| "broken_error code other = (code, broken_text other)"

fun failure_of :: "broken \<Rightarrow> failure" where
  "failure_of Fenced = TakenOver"
| "failure_of (Uncertain _) = Unreachable"
| "failure_of (Denied _) = Denied_failure"
| "failure_of (Diverged _) = Rejected"
| "failure_of (Refused _) = Rejected"
| "failure_of (Full _) = Full_failure"
| "failure_of Plaintext = Plaintext_failure"

record lib_error =
  le_message :: message
  le_access_denied :: bool
  le_slot_taken :: bool

definition error_new :: "message \<Rightarrow> lib_error" where
  "error_new m = \<lparr>le_message = m, le_access_denied = False, le_slot_taken = False\<rparr>"

definition error_client :: "message \<Rightarrow> client_error \<Rightarrow> lib_error" where
  "error_client context err =
     \<lparr>le_message = context @ '': '' @ error_text err, le_access_denied = is_access_denied err,
      le_slot_taken = is_slot_taken err\<rparr>"

subsection \<open>Plaintext\<close>

definition SQLITE_MAGIC :: bytes where
  "SQLITE_MAGIC = map of_char ''SQLite format 3'' @ [0]"

definition plaintext_header :: "bytes \<Rightarrow> bool" where
  "plaintext_header page \<longleftrightarrow>
     92 \<le> length page \<and> take (length SQLITE_MAGIC) page = SQLITE_MAGIC \<and>
     sub_slice page 21 3 = [64, 32, 32] \<and> list_all (\<lambda>b. b = 0) (sub_slice page 72 20)"

subsection \<open>State\<close>

record files =
  fl_database :: "rstring option"
  fl_temps :: "(rstring, nat) fmap"
  fl_next :: nat

record ('w, 's, 'b) inner =
  in_config :: config
  in_server :: bool
  in_settings :: server_settings
  in_client :: "'w client"
  in_browser_cache :: "'s option"
  in_file_cache :: 's
  in_bridge :: "'b shared"
  in_files :: files
  in_stats :: stats
  in_failure :: "failure option"
  in_closed :: bool
  in_reported :: "rstring list"

text \<open>
  What the VFS uses: the database's operations, the shared memory, the cache file when it is opened again,
  the wait for the cache writes of a browser, and the wall clock.  \<open>in_file_cache\<close> is the cache file as the
  last close left it; a copy given up in the meantime is not tracked.
\<close>

record ('w, 's, 'b) vfs_ops =
  vo_db :: "('w, 's) db_ops"
  vo_shared :: "'b shared_ops"
  vo_reopen :: "'s \<Rightarrow> 's"
  vo_flush :: "'s \<Rightarrow> 's"
  vo_now :: "'w client \<Rightarrow> nat"

datatype ('s, 'b) db = Db_server "'s database" | Db_local "'b local_database"

datatype ('s, 'b) remote_file = Main "('s, 'b) db" | Temp nat

subsection \<open>The main database file\<close>

fun main_broken :: "('s, 'b) db \<Rightarrow> broken option" where
  "main_broken (Db_server db) = rm_broken (db_remote db)"
| "main_broken (Db_local db) = ldb_broken db"

fun main_file_size :: "('s, 'b) db \<Rightarrow> nat" where
  "main_file_size (Db_server db) = db_file_size db"
| "main_file_size (Db_local db) = local_file_size db"

text \<open>The local database's bridge is the VFS's.\<close>

definition run_local ::
  "('b local_database \<Rightarrow> stats \<Rightarrow> 'r \<times> 'b local_database \<times> stats) \<Rightarrow> 'b local_database \<Rightarrow>
     ('w, 's, 'b) inner \<Rightarrow> 'r \<times> ('s, 'b) db \<times> ('w, 's, 'b) inner" where
  "run_local f db inn =
     (case f (db\<lparr>ldb_bridge := in_bridge inn\<rparr>) (in_stats inn) of
        (r, db, st) \<Rightarrow> (r, Db_local db, inn\<lparr>in_bridge := ldb_bridge db, in_stats := st\<rparr>))"

definition run_server ::
  "('s database \<Rightarrow> 'w client \<Rightarrow> stats \<Rightarrow> 'r \<times> 's database \<times> 'w client \<times> stats) \<Rightarrow> 's database \<Rightarrow>
     ('w, 's, 'b) inner \<Rightarrow> 'r \<times> ('s, 'b) db \<times> ('w, 's, 'b) inner" where
  "run_server f db inn =
     (case f db (in_client inn) (in_stats inn) of
        (r, db, cl, st) \<Rightarrow> (r, Db_server db, inn\<lparr>in_client := cl, in_stats := st\<rparr>))"

text \<open>
  Heals a database that broke because the server could not be reached, once it accepts connections
  again.  The outcome is recorded; a healing that panics or does not end makes the operation do so.
\<close>

fun main_heal ::
  "('w, 's, 'b) vfs_ops \<Rightarrow> ('s, 'b) db \<Rightarrow> ('w, 's, 'b) inner \<Rightarrow> (unit, broken) res \<times> ('s, 'b) db \<times> ('w, 's, 'b) inner" where
  "main_heal ops (Db_server db) inn =
     (if is_unreachable db then
        (case client_reachable (do_client (vo_db ops)) (in_client inn) of (up, cl) \<Rightarrow>
           let inn = inn\<lparr>in_client := cl\<rparr> in
           if \<not> up then (Ok (), Db_server db, inn)
           else
             (case run_server (db_heal (vo_db ops)) db inn of
                (Ok _, db, inn) \<Rightarrow> (Ok (), db, inn\<lparr>in_failure := None\<rparr>)
              | (Err b, db, inn) \<Rightarrow> (Ok (), db, inn\<lparr>in_failure := Some (failure_of b)\<rparr>)
              | (r, db, inn) \<Rightarrow> (r, db, inn)))
      else (Ok (), Db_server db, inn))"
| "main_heal ops (Db_local db) inn = (Ok (), Db_local db, inn)"

text \<open>Records why the database broke, if the operation broke it.\<close>

definition record_failure :: "('a, broken) res \<Rightarrow> ('s, 'b) db \<Rightarrow> ('w, 's, 'b) inner \<Rightarrow> ('w, 's, 'b) inner" where
  "record_failure r d inn =
     (case r of
        Err _ \<Rightarrow> (case main_broken d of Some b \<Rightarrow> inn\<lparr>in_failure := Some (failure_of b)\<rparr> | None \<Rightarrow> inn)
      | _ \<Rightarrow> inn)"

definition refuses_plaintext :: "bytes \<Rightarrow> ('w, 's, 'b) inner \<Rightarrow> bool \<times> ('w, 's, 'b) inner" where
  "refuses_plaintext page1 inn =
     (if cfg_refuse_plaintext (in_config inn) \<and> plaintext_header page1
      then (True, inn\<lparr>in_failure := Some Plaintext_failure\<rparr>) else (False, inn))"

text \<open>Every operation heals first.\<close>

definition healed_first ::
  "('w, 's, 'b) vfs_ops \<Rightarrow> (('s, 'b) db \<Rightarrow> ('w, 's, 'b) inner \<Rightarrow> ('a, broken) res \<times> ('s, 'b) db \<times> ('w, 's, 'b) inner) \<Rightarrow>
     ('s, 'b) db \<Rightarrow> ('w, 's, 'b) inner \<Rightarrow> ('a, broken) res \<times> ('s, 'b) db \<times> ('w, 's, 'b) inner" where
  "healed_first ops f d inn =
     (case main_heal ops d inn of
        (Ok _, d, inn) \<Rightarrow> f d inn
      | (Err b, d, inn) \<Rightarrow> (Err b, d, inn)
      | (Panic, d, inn) \<Rightarrow> (Panic, d, inn)
      | (Hang, d, inn) \<Rightarrow> (Hang, d, inn))"

definition main_commit ::
  "('w, 's, 'b) vfs_ops \<Rightarrow> ('s, 'b) db \<Rightarrow> ('w, 's, 'b) inner \<Rightarrow> (unit, broken) res \<times> ('s, 'b) db \<times> ('w, 's, 'b) inner" where
  "main_commit ops = healed_first ops (\<lambda>d inn.
     case (case d of
             Db_server db \<Rightarrow> run_server (\<lambda>db cl st. db_commit (vo_db ops) db cl (ss_reconnect_timeout (in_settings inn)) st) db inn
           | Db_local db \<Rightarrow> run_local (local_commit (vo_shared ops)) db inn) of
       (r, d, inn) \<Rightarrow> (r, d, record_failure r d inn))"

definition main_read ::
  "('w, 's, 'b) vfs_ops \<Rightarrow> bytes \<Rightarrow> nat \<Rightarrow> ('s, 'b) db \<Rightarrow> ('w, 's, 'b) inner \<Rightarrow>
     (bool \<times> bytes, broken) res \<times> ('s, 'b) db \<times> ('w, 's, 'b) inner" where
  "main_read ops buf offset = healed_first ops (\<lambda>d inn.
     case (case d of
             Db_server db \<Rightarrow> run_server (\<lambda>db cl st. case db_read (vo_db ops) db cl buf offset st of
                 (r, buf, db, cl, st) \<Rightarrow> ((r, buf), db, cl, st)) db inn
           | Db_local db \<Rightarrow> run_local (\<lambda>db st. case local_read (vo_shared ops) db buf offset st of
                 (r, buf, db, st) \<Rightarrow> ((r, buf), db, st)) db inn) of
       ((r, buf), d, inn) \<Rightarrow>
         (case (if is_ok r \<and> offset = 0 then refuses_plaintext buf inn else (False, inn)) of
            (True, inn) \<Rightarrow> (Err Plaintext, d, inn)
          | (False, inn) \<Rightarrow> (map_ok (\<lambda>full. (full, buf)) r, d, record_failure r d inn)))"

definition main_write ::
  "('w, 's, 'b) vfs_ops \<Rightarrow> bytes \<Rightarrow> nat \<Rightarrow> ('s, 'b) db \<Rightarrow> ('w, 's, 'b) inner \<Rightarrow>
     (unit, broken) res \<times> ('s, 'b) db \<times> ('w, 's, 'b) inner" where
  "main_write ops data offset = healed_first ops (\<lambda>d inn.
     case (if offset = 0 \<and> main_broken d = None then refuses_plaintext data inn else (False, inn)) of
       (True, inn) \<Rightarrow> (Err Plaintext, d, inn)
     | (False, inn) \<Rightarrow>
         (case (case d of
                  Db_server db \<Rightarrow> run_server (\<lambda>db cl st. db_write (vo_db ops) db cl data offset st) db inn
                | Db_local db \<Rightarrow> run_local (\<lambda>db st. local_write (vo_shared ops) db data offset st) db inn) of
            (r, d, inn) \<Rightarrow> (r, d, record_failure r d inn)))"

definition main_truncate ::
  "('w, 's, 'b) vfs_ops \<Rightarrow> nat \<Rightarrow> ('s, 'b) db \<Rightarrow> ('w, 's, 'b) inner \<Rightarrow>
     (unit, broken) res \<times> ('s, 'b) db \<times> ('w, 's, 'b) inner" where
  "main_truncate ops n = healed_first ops (\<lambda>d inn.
     case (case d of
             Db_server db \<Rightarrow> (case db_truncate db n of (r, db) \<Rightarrow> (r, Db_server db, inn))
           | Db_local db \<Rightarrow> (case local_truncate db n of (r, db) \<Rightarrow> (r, Db_local db, inn))) of
       (r, d, inn) \<Rightarrow> (r, d, record_failure r d inn))"

subsection \<open>Files\<close>

text \<open>The number of bytes read, and the buffer: a read past the end is short and zero-filled.\<close>

definition file_read_main ::
  "('w, 's, 'b) vfs_ops \<Rightarrow> bytes \<Rightarrow> nat \<Rightarrow> ('s, 'b) db \<Rightarrow> ('w, 's, 'b) inner \<Rightarrow>
     (nat \<times> bytes, vfs_error) res \<times> ('s, 'b) db \<times> ('w, 's, 'b) inner" where
  "file_read_main ops buf offset d inn =
     (case main_read ops buf offset d inn of
        (Ok (full, out), d, inn) \<Rightarrow>
          (Ok (if full then length buf else min (main_file_size d - offset) (length buf), out), d, inn)
      | (Err b, d, inn) \<Rightarrow> (Err (broken_error IoRead b), d, inn)
      | (Panic, d, inn) \<Rightarrow> (Panic, d, inn)
      | (Hang, d, inn) \<Rightarrow> (Hang, d, inn))"

definition file_write_main ::
  "('w, 's, 'b) vfs_ops \<Rightarrow> bytes \<Rightarrow> nat \<Rightarrow> ('s, 'b) db \<Rightarrow> ('w, 's, 'b) inner \<Rightarrow>
     (unit, vfs_error) res \<times> ('s, 'b) db \<times> ('w, 's, 'b) inner" where
  "file_write_main ops data offset d inn = apfst (map_err (broken_error IoWrite)) (main_write ops data offset d inn)"

definition file_truncate_main ::
  "('w, 's, 'b) vfs_ops \<Rightarrow> nat \<Rightarrow> ('s, 'b) db \<Rightarrow> ('w, 's, 'b) inner \<Rightarrow>
     (unit, vfs_error) res \<times> ('s, 'b) db \<times> ('w, 's, 'b) inner" where
  "file_truncate_main ops n d inn =
     apfst (map_err (\<lambda>b. (IoTruncate, broken_text b))) (main_truncate ops n d inn)"

text \<open>\<open>xFileControl\<close>: the commit.\<close>

definition file_control ::
  "('w, 's, 'b) vfs_ops \<Rightarrow> bool \<Rightarrow> ('s, 'b) remote_file \<Rightarrow> ('w, 's, 'b) inner \<Rightarrow>
     (sqlite_code, unit) res \<times> ('s, 'b) remote_file \<times> ('w, 's, 'b) inner" where
  "file_control ops is_sync file inn =
     (if \<not> is_sync then (Ok SQLITE_NOTFOUND, file, inn)
      else
        (case file of
           Temp _ \<Rightarrow> (Ok SQLITE_NOTFOUND, file, inn)
         | Main d \<Rightarrow>
             (case main_commit ops d inn of
                (Ok _, d, inn) \<Rightarrow> (Ok SQLITE_OK, Main d, inn)
              | (Err (Full _), d, inn) \<Rightarrow> (Ok SQLITE_FULL, Main d, inn)
              | (Err (Denied _), d, inn) \<Rightarrow> (Ok SQLITE_AUTH, Main d, inn)
              | (Err _, d, inn) \<Rightarrow> (Ok SQLITE_IOERR_FSYNC, Main d, inn)
              | (Panic, d, inn) \<Rightarrow> (Panic, Main d, inn)
              | (Hang, d, inn) \<Rightarrow> (Hang, Main d, inn))))"

subsection \<open>Opening\<close>

text \<open>The store of the cache for a database, taken out of the VFS in a browser.\<close>

definition cache_store ::
  "('w, 's, 'b) vfs_ops \<Rightarrow> rstring \<Rightarrow> ('w, 's, 'b) inner \<Rightarrow> ('s option, 'e) res \<times> ('w, 's, 'b) inner" where
  "cache_store ops name inn =
     (case ss_cache (in_settings inn) of
        Cache_none \<Rightarrow> (Ok None, inn)
      | kind \<Rightarrow>
          (case (if kind = Cache_file then Some (vo_reopen ops (in_file_cache inn)) else in_browser_cache inn) of
             None \<Rightarrow> (Ok None, inn)
           | Some s \<Rightarrow>
               let inn = (if kind = Cache_browser then inn\<lparr>in_browser_cache := None\<rparr> else inn) in
               (case so_select (do_store (vo_db ops)) name s of
                  (Ok _, s) \<Rightarrow> (Ok (Some s), inn)
                | (Err _, s) \<Rightarrow> (Ok None, if kind = Cache_browser then inn\<lparr>in_browser_cache := Some s\<rparr> else inn)
                | (Panic, s) \<Rightarrow> (Panic, inn)
                | (Hang, s) \<Rightarrow> (Hang, inn))))"

definition open_code :: "client_error \<Rightarrow> vfs_code" where
  "open_code err =
     (if is_lease_held err then Busy_code
      else if is_slot_taken err then Permission
      else if is_not_found err then CantOpen
      else Io)"

definition open_on_server ::
  "('w, 's, 'b) vfs_ops \<Rightarrow> rstring \<Rightarrow> bool \<Rightarrow> ('w, 's, 'b) inner \<Rightarrow> ('s database, vfs_error) res \<times> ('w, 's, 'b) inner" where
  "open_on_server ops name create inn =
     (case is_connected (do_client (vo_db ops)) (in_client inn) of (up, cl) \<Rightarrow>
      and_then (if up then (Ok (), inn\<lparr>in_client := cl\<rparr>)
                else (case reconnect (do_client (vo_db ops)) cl of
                        (Err err, cl) \<Rightarrow>
                          (Err (if is_access_denied err then Auth else Io, error_text err), inn\<lparr>in_client := cl\<rparr>)
                      | (Ok _, cl) \<Rightarrow> (Ok (), inn\<lparr>in_client := cl\<rparr>)
                      | (Panic, cl) \<Rightarrow> (Panic, inn\<lparr>in_client := cl\<rparr>)
                      | (Hang, cl) \<Rightarrow> (Hang, inn\<lparr>in_client := cl\<rparr>))) (\<lambda>_ inn.
      and_then (cache_store ops name inn) (\<lambda>store inn.
      case db_open (vo_db ops) name
          \<lparr>oo_page_size = cfg_page_size (in_config inn), oo_create = create, oo_takeover = cfg_takeover (in_config inn),
           oo_blocks_per_fetch = blocks_per_fetch (cfg_load (in_config inn)), oo_cap = cap (cfg_memory (in_config inn)),
           oo_subject = ss_subject (in_settings inn), oo_local = store\<rparr> (in_client inn) (in_stats inn) of
        (r, cl, st) \<Rightarrow> (map_err (\<lambda>err. (open_code err, error_text err)) r, inn\<lparr>in_client := cl, in_stats := st\<rparr>))))"

fun refusal_code :: "refusal \<Rightarrow> vfs_code" where
  "refusal_code Busy = Busy_code"
| "refusal_code Missing = CantOpen"
| "refusal_code _ = Io"

definition open_locally ::
  "('w, 's, 'b) vfs_ops \<Rightarrow> rstring \<Rightarrow> bool \<Rightarrow> ('w, 's, 'b) inner \<Rightarrow> ('b local_database, vfs_error) res \<times> ('w, 's, 'b) inner" where
  "open_locally ops name create inn =
     (case local_open (vo_shared ops) (in_bridge inn) name
          \<lparr>lopt_page_size = cfg_page_size (in_config inn), lopt_create = create,
           lopt_takeover = cfg_takeover (in_config inn),
           lopt_blocks_per_fetch = blocks_per_fetch (cfg_load (in_config inn)),
           lopt_cap = cap (cfg_memory (in_config inn))\<rparr> (in_stats inn) of
        (r, sh, st) \<Rightarrow>
          (map_err (\<lambda>refusal. (refusal_code refusal, refusal_text refusal)) r,
           inn\<lparr>in_bridge := sh, in_stats := st\<rparr>))"

definition open_database ::
  "('w, 's, 'b) vfs_ops \<Rightarrow> rstring \<Rightarrow> bool \<Rightarrow> ('w, 's, 'b) inner \<Rightarrow> (('s, 'b) db, vfs_error) res \<times> ('w, 's, 'b) inner" where
  "open_database ops name create inn =
     (case fl_database (in_files inn) of
        Some op \<Rightarrow>
          (Err (CantOpen, if op = name then ''is already open; only one connection per database is supported''
                          else ''is already open on this VFS; only one database per VFS is supported''), inn)
      | None \<Rightarrow>
          and_then (if in_server inn then apfst (map_ok Db_server) (open_on_server ops name create inn)
                    else apfst (map_ok Db_local) (open_locally ops name create inn)) (\<lambda>d inn.
            (Ok d, inn\<lparr>in_files := (in_files inn)\<lparr>fl_database := Some name\<rparr>, in_failure := None\<rparr>)))"

record file_options =
  fo_main :: bool
  fo_create :: bool
  fo_exclusive :: bool
  fo_delete_on_close :: bool

definition new_temp :: "('w, 's, 'b) inner \<Rightarrow> nat \<times> ('w, 's, 'b) inner" where
  "new_temp inn =
     (let n = fl_next (in_files inn) in (n, inn\<lparr>in_files := (in_files inn)\<lparr>fl_next := n + 1\<rparr>\<rparr>))"

definition open_file ::
  "('w, 's, 'b) vfs_ops \<Rightarrow> rstring option \<Rightarrow> file_options \<Rightarrow> ('w, 's, 'b) inner \<Rightarrow>
     (('s, 'b) remote_file, vfs_error) res \<times> ('w, 's, 'b) inner" where
  "open_file ops filename opts inn =
     (case filename of
        None \<Rightarrow> (case new_temp inn of (t, inn) \<Rightarrow> (Ok (Temp t), inn))
      | Some name \<Rightarrow>
          if fo_main opts then apfst (map_ok Main) (open_database ops name (fo_create opts) inn)
          else
            (case fmlookup (fl_temps (in_files inn)) name of
               Some t \<Rightarrow>
                 if fo_exclusive opts then (Err (CantOpen, ''already exists''), inn) else (Ok (Temp t), inn)
             | None \<Rightarrow>
                 if fo_create opts
                 then (case new_temp inn of (t, inn) \<Rightarrow>
                   (Ok (Temp t), inn\<lparr>in_files := (in_files inn)\<lparr>fl_temps := fmupd name t (fl_temps (in_files inn))\<rparr>\<rparr>))
                 else (Err (CantOpen, ''does not exist''), inn)))"

subsection \<open>Closing, access, deletion of files\<close>

text \<open>A background thread writes its queue before it ends; the cache file then has what it wrote.\<close>

definition cache_after :: "'s store_ops \<Rightarrow> 's local_copy \<Rightarrow> 's option" where
  "cache_after ops c = (case c of Ready s \<Rightarrow> Some s | Writing b \<Rightarrow> Some (bg_drop ops b) | No_copy \<Rightarrow> None)"

definition close_file ::
  "('w, 's, 'b) vfs_ops \<Rightarrow> rstring option \<Rightarrow> ('s, 'b) remote_file \<Rightarrow> file_options \<Rightarrow> ('w, 's, 'b) inner \<Rightarrow> ('w, 's, 'b) inner" where
  "close_file ops name file opts inn =
     (case file of
        Main (Db_server db) \<Rightarrow>
          let inn = inn\<lparr>in_client := db_close (vo_db ops) db (in_client inn)\<rparr>;
              inn = (if do_native (vo_db ops)
                     then (case cache_after (do_store (vo_db ops)) (rm_local (db_remote db)) of
                             Some s \<Rightarrow> inn\<lparr>in_file_cache := s\<rparr> | None \<Rightarrow> inn)
                     else (case fst (take_local db) of Some s \<Rightarrow> inn\<lparr>in_browser_cache := Some (vo_flush ops s)\<rparr> | None \<Rightarrow> inn))
          in inn\<lparr>in_files := (in_files inn)\<lparr>fl_database := None\<rparr>\<rparr>
      | Main (Db_local db) \<Rightarrow>
          inn\<lparr>in_bridge := ldb_bridge (snd (local_close (vo_shared ops) (db\<lparr>ldb_bridge := in_bridge inn\<rparr>))),
              in_files := (in_files inn)\<lparr>fl_database := None\<rparr>\<rparr>
      | Temp t \<Rightarrow>
          (case name of
             Some n \<Rightarrow>
               if fo_delete_on_close opts \<and> fmlookup (fl_temps (in_files inn)) n = Some t
               then inn\<lparr>in_files := (in_files inn)\<lparr>fl_temps := fmdrop n (fl_temps (in_files inn))\<rparr>\<rparr>
               else inn
           | None \<Rightarrow> inn))"

definition access :: "rstring \<Rightarrow> ('w, 's, 'b) inner \<Rightarrow> bool" where
  "access name inn \<longleftrightarrow>
     fl_database (in_files inn) = Some name \<or> fmlookup (fl_temps (in_files inn)) name \<noteq> None"

definition full_pathname :: "rstring \<Rightarrow> rstring" where
  "full_pathname name = name"

definition delete_file :: "rstring \<Rightarrow> ('w, 's, 'b) inner \<Rightarrow> (unit, vfs_error) res \<times> ('w, 's, 'b) inner" where
  "delete_file name inn =
     (case fmlookup (fl_temps (in_files inn)) name of
        Some _ \<Rightarrow> (Ok (), inn\<lparr>in_files := (in_files inn)\<lparr>fl_temps := fmdrop name (fl_temps (in_files inn))\<rparr>\<rparr>)
      | None \<Rightarrow> (Err (IoDelete, ''cannot be deleted''), inn))"

subsection \<open>Requests to the server\<close>

definition with_client ::
  "('w, 's, 'b) vfs_ops \<Rightarrow> message \<Rightarrow> ('w client \<Rightarrow> ('a, client_error) res \<times> 'w client) \<Rightarrow>
     ('w, 's, 'b) inner \<Rightarrow> ('a, lib_error) res \<times> ('w, 's, 'b) inner" where
  "with_client ops what request inn =
     (if \<not> in_server inn then (Err (error_new (what @ '': local databases have no server'')), inn)
      else
        (case is_connected (do_client (vo_db ops)) (in_client inn) of (up, cl) \<Rightarrow>
         case and_then (if up then (Ok (), cl)
                        else apfst (map_err (error_client ''connecting'')) (reconnect (do_client (vo_db ops)) cl))
                (\<lambda>_ cl. apfst (map_err (error_client what)) (request cl)) of
           (r, cl) \<Rightarrow> (r, inn\<lparr>in_client := cl\<rparr>)))"

text \<open>Deletes the cache of a deleted database, if it is that database's.\<close>

definition clear_cache ::
  "('w, 's, 'b) vfs_ops \<Rightarrow> rstring \<Rightarrow> ('w, 's, 'b) inner \<Rightarrow> (unit, lib_error) res \<times> ('w, 's, 'b) inner" where
  "clear_cache ops name inn =
     and_then (cache_store ops name inn) (\<lambda>store inn.
       case store of
         None \<Rightarrow> (Ok (), inn)
       | Some s \<Rightarrow>
           (case (case so_head (do_store (vo_db ops)) s of
                    (Ok (Some h), s) \<Rightarrow>
                      if hd_subject h = ss_subject (in_settings inn) \<and> hd_db_id h = name
                      then so_clear (do_store (vo_db ops)) s else (Ok (), s)
                  | (Ok None, s) \<Rightarrow> (Ok (), s)
                  | (Err e, s) \<Rightarrow> (Err e, s)
                  | (Panic, s) \<Rightarrow> (Panic, s)
                  | (Hang, s) \<Rightarrow> (Hang, s)) of
              (r, s) \<Rightarrow>
                (map_err (\<lambda>e. error_new (''was deleted on the server, but its cache was not: '' @ e)) r,
                 if do_native (vo_db ops) then inn\<lparr>in_file_cache := s\<rparr> else inn\<lparr>in_browser_cache := Some s\<rparr>)))"

definition delete_on_server ::
  "('w, 's, 'b) vfs_ops \<Rightarrow> rstring \<Rightarrow> ('w, 's, 'b) inner \<Rightarrow> (unit, lib_error) res \<times> ('w, 's, 'b) inner" where
  "delete_on_server ops name inn =
     and_then (with_client ops ''deleting'' (client_delete (do_client (vo_db ops)) name (cfg_takeover (in_config inn))) inn)
       (\<lambda>_. clear_cache ops name)"

definition delete_database ::
  "('w, 's, 'b) vfs_ops \<Rightarrow> rstring \<Rightarrow> ('w, 's, 'b) inner \<Rightarrow> (unit, lib_error) res \<times> ('w, 's, 'b) inner" where
  "delete_database ops name inn =
     (if fl_database (in_files inn) = Some name
      then (Err (error_new ''is open; close it before deleting it''), inn)
      else if in_server inn then delete_on_server ops name inn
      else
        (case bridge_delete (vo_shared ops) name (cfg_takeover (in_config inn)) (in_bridge inn) of
           (r, sh) \<Rightarrow>
             (map_err (\<lambda>refusal. error_new (''deleting: '' @ refusal_text refusal)) r, inn\<lparr>in_bridge := sh\<rparr>)))"

definition vfs_delete_slot ::
  "('w, 's, 'b) vfs_ops \<Rightarrow> ('w, 's, 'b) inner \<Rightarrow> (unit, lib_error) res \<times> ('w, 's, 'b) inner" where
  "vfs_delete_slot ops inn =
     (if fl_database (in_files inn) \<noteq> None
      then (Err (error_new ''is open; close it before deleting the slot''), inn)
      else with_client ops ''deleting the slot'' (client_delete_slot (do_client (vo_db ops))) inn)"

record slot_info =
  si_label :: rstring
  si_claimed_at_ms :: nat
  si_replaced_label :: "rstring option"

definition slot_of :: "slot_msg \<Rightarrow> slot_info" where
  "slot_of s =
     \<lparr>si_label = sl_label s, si_claimed_at_ms = sl_claimed_at_ms s,
      si_replaced_label = (if sl_replaced_label s = [] then None else Some (sl_replaced_label s))\<rparr>"

definition vfs_claim_slot ::
  "('w, 's, 'b) vfs_ops \<Rightarrow> ('w, 's, 'b) inner \<Rightarrow> (slot_info, lib_error) res \<times> ('w, 's, 'b) inner" where
  "vfs_claim_slot ops inn =
     apfst (map_ok slot_of) (with_client ops ''claiming the slot'' (client_claim_slot (do_client (vo_db ops))) inn)"

definition vfs_set_slot_label ::
  "('w, 's, 'b) vfs_ops \<Rightarrow> rstring \<Rightarrow> ('w, 's, 'b) inner \<Rightarrow> (slot_info, lib_error) res \<times> ('w, 's, 'b) inner" where
  "vfs_set_slot_label ops label inn =
     apfst (map_ok slot_of)
       (with_client ops ''setting the slot label'' (client_set_slot_label (do_client (vo_db ops)) label) inn)"

definition drop_connection :: "('w, 's, 'b) inner \<Rightarrow> ('w, 's, 'b) inner" where
  "drop_connection inn = (if in_server inn then inn\<lparr>in_client := disconnect (in_client inn)\<rparr> else inn)"

definition vfs_fetch_trace :: "('w, 's, 'b) inner \<Rightarrow> (nat \<times> nat) list" where
  "vfs_fetch_trace inn = (if in_server inn then fetch_trace (in_client inn) else [])"

subsection \<open>Takeovers and pings\<close>

text \<open>\<open>in_reported\<close> are the calls of the listener, oldest first.\<close>

fun report_each :: "rstring list \<Rightarrow> ('w, 's, 'b) inner \<Rightarrow> ('w, 's, 'b) inner" where
  "report_each [] inn = inn"
| "report_each (db_id # rest) inn =
     report_each rest
       (if fl_database (in_files inn) \<noteq> Some db_id then inn
        else inn\<lparr>in_failure := Some TakenOver,
                 in_reported := (if ss_on_takeover (in_settings inn) then in_reported inn @ [db_id] else in_reported inn)\<rparr>)"

definition report_takeovers :: "('w, 's, 'b) inner \<Rightarrow> ('w, 's, 'b) inner" where
  "report_takeovers inn =
     (if \<not> in_server inn then inn
      else (case take_unreported (in_client inn) of
              (revoked, cl) \<Rightarrow> report_each revoked (inn\<lparr>in_client := cl\<rparr>)))"

definition on_push :: "server_frame option \<Rightarrow> ('w, 's, 'b) inner \<Rightarrow> ('w, 's, 'b) inner" where
  "on_push frame inn =
     (case frame of
        None \<Rightarrow> inn
      | Some f \<Rightarrow>
          report_takeovers
            (case sf_body f of
               Some (LeaseRevoked_body r) \<Rightarrow> inn\<lparr>in_client := note_revoked r (in_client inn)\<rparr>
             | _ \<Rightarrow> inn))"

text \<open>One round of the ping thread after its sleep.\<close>

definition ping_round :: "('w, 's, 'b) vfs_ops \<Rightarrow> ('w, 's, 'b) inner \<Rightarrow> (unit, lib_error) res \<times> ('w, 's, 'b) inner" where
  "ping_round ops inn =
     (let interval = li_ping_interval (cl_limits (in_client inn)) in
      case (if is_open (in_client inn) then idle_for (do_client (vo_db ops)) (in_client inn)
            else (0, in_client inn)) of (idle, cl) \<Rightarrow>
      if is_open cl \<and> interval div 2 \<le> idle
      then (case call (do_client (vo_db ops)) (Ping_body (vo_now ops cl)) cl of
              (Panic, cl) \<Rightarrow> (Panic, inn\<lparr>in_client := cl\<rparr>)
            | (Hang, cl) \<Rightarrow> (Hang, inn\<lparr>in_client := cl\<rparr>)
            | (_, cl) \<Rightarrow> (Ok (), report_takeovers (inn\<lparr>in_client := cl\<rparr>)))
      else (Ok (), report_takeovers (inn\<lparr>in_client := cl\<rparr>)))"

definition vfs_drop :: "('w, 's, 'b) inner \<Rightarrow> ('w, 's, 'b) inner" where
  "vfs_drop inn = inn\<lparr>in_closed := True\<rparr>"

end
