(* ===== verification/Client_Facts.thy ===== *)
theory Client_Facts
  imports Client
begin

text \<open>
  What the client of \<open>client.rs\<close> guarantees whatever the server sends: it does not panic, a fetch that
  succeeds has the blocks asked for at the size asked for, a commit that succeeds was acknowledged in its
  last part with no part rejected, and takeovers are noted for good.
\<close>

subsection \<open>No panic\<close>

text \<open>The transport and the token source return errors.\<close>

definition calm :: "'w client_ops \<Rightarrow> bool" where
  "calm ops \<longleftrightarrow>
     (\<forall>w. fst (co_dial ops w) \<noteq> Panic) \<and> (\<forall>w d. fst (co_send ops d w) \<noteq> Panic) \<and>
     (\<forall>w. fst (co_receive ops w) \<noteq> Panic) \<and> (\<forall>w. fst (co_reopen ops w) \<noteq> Panic) \<and>
     (\<forall>source w. co_token ops = Some source \<longrightarrow> fst (source w) \<noteq> Panic)"

abbreviation quiet :: "('a, 'e) res \<times> 's \<Rightarrow> bool" where
  "quiet \<equiv> safe (\<lambda>_. True) (\<lambda>_ _. True)"

lemma quiet_iff: "quiet m \<longleftrightarrow> fst m \<noteq> Panic"
  by (cases m) (auto simp: safe_def)

lemma quiet_on_world: "(\<And>w. fst (f w) \<noteq> Panic) \<Longrightarrow> quiet (on_world f cl)"
  by (auto simp: quiet_iff on_world_def split: prod.split) (metis fst_conv)

lemma quiet_and_then [safe_intros]: "quiet m \<Longrightarrow> (\<And>x s. quiet (f x s)) \<Longrightarrow> quiet (and_then m f)"
  by (rule safe_and_then)

lemma open_socket_quiet:
  assumes "calm ops"
  shows "quiet (open_socket ops cl)"
  unfolding open_socket_def
  by (intro safe_if quiet_and_then) (use assms in \<open>auto simp: calm_def intro!: quiet_on_world\<close>)

lemma client_send_quiet:
  assumes "calm ops"
  shows "quiet (client_send ops body cl)"
  using assms quiet_on_world [of "co_send ops d" for d]
  by (auto simp: client_send_def calm_def Let_def quiet_iff on_world_def split: prod.split res.split)
    (metis fst_conv)

lemma receive_loop_quiet:
  assumes "calm ops"
  shows "quiet (receive_loop n ops cl)"
proof (induction n arbitrary: cl)
  case (Suc n)
  have "fst (on_world (co_receive ops) cl) \<noteq> Panic"
    using assms by (auto simp: calm_def on_world_def split: prod.split) (metis fst_conv)
  then show ?case
    using Suc by (auto simp: split: prod.split res.split option.split)
qed simp

lemma client_receive_quiet: "calm ops \<Longrightarrow> quiet (client_receive ops cl)"
  by (simp add: client_receive_def receive_loop_quiet)

lemma call_loop_quiet:
  assumes "calm ops"
  shows "quiet (call_loop n ops rid cl)"
proof (induction n arbitrary: cl)
  case (Suc n)
  have "call_answer frame \<noteq> Panic" for frame
    by (simp add: call_answer_def split: option.split server_body.split)
  then show ?case
    using Suc unfolding call_loop.simps
    by (intro quiet_and_then client_receive_quiet [OF assms] safe_if) (simp_all add: quiet_iff)
qed simp

lemma call_quiet: "calm ops \<Longrightarrow> quiet (call ops body cl)"
  unfolding call_def by (intro quiet_and_then client_send_quiet call_loop_quiet)

lemma say_hello_quiet:
  assumes "calm ops"
  shows "quiet (say_hello ops cl)"
  unfolding say_hello_def Let_def
  by (intro quiet_and_then call_quiet [OF assms])
    (use assms in \<open>auto simp: calm_def intro!: quiet_on_world quiet_and_then call_quiet [OF assms]
      split: option.split server_body.split\<close>)

lemma log_in_quiet:
  assumes "calm ops"
  shows "quiet (log_in ops cl)"
  using say_hello_quiet [OF assms, of cl]
  by (auto simp: log_in_def split: prod.split res.split
      intro!: quiet_and_then open_socket_quiet [OF assms] say_hello_quiet [OF assms])

lemma reconnect_quiet: "calm ops \<Longrightarrow> quiet (reconnect ops cl)"
  unfolding reconnect_def by (intro quiet_and_then open_socket_quiet log_in_quiet)

subsection \<open>Fetching\<close>

definition sized :: "nat \<Rightarrow> (nat \<times> bytes) list \<Rightarrow> bool" where
  "sized n blocks \<longleftrightarrow> (\<forall>d \<in> snd ` set blocks. length d = n)"

lemma sized_simps [simp]: "sized n []" "sized n (xs @ ys) \<longleftrightarrow> sized n xs \<and> sized n ys"
  by (auto simp: sized_def)

lemma sized_frame: "\<not> list_ex (\<lambda>d. length d \<noteq> n) (pm_blocks p) \<Longrightarrow> sized n (frame_blocks p)"
  by (auto simp: sized_def frame_blocks_def list_ex_iff dest!: in_set_enumerate_eq [THEN iffD1])

lemma fetch_loop_safe:
  assumes "calm ops" and "sized block_size blocks"
  shows "safe (\<lambda>_. True) (\<lambda>bs _. length bs = expected \<and> sized block_size bs)
    (fetch_loop n ops rid expected block_size blocks cl)"
  using assms(2)
proof (induction n arbitrary: blocks cl rid expected)
  case (Suc n)
  then show ?case
    unfolding fetch_loop.simps
    by (intro safe_and_then [OF client_receive_quiet [OF assms(1)]])
      (auto simp: Let_def sized_frame split: option.split server_body.split)
qed simp

lemma fetch_frames_safe:
  assumes "calm ops"
  shows "safe (\<lambda>_. True) (\<lambda>bs _. length bs = expected \<and> sized block_size bs)
    (fetch_frames ops fetch expected block_size cl)"
  unfolding fetch_frames_def
  by (rule safe_and_then [OF client_send_quiet [OF assms]]) (rule fetch_loop_safe [OF assms], simp)

lemma fetch_blocks_safe:
  assumes "calm ops"
  shows "safe (\<lambda>_. True) (\<lambda>bs _. length bs = fe_count fetch \<and> (\<forall>b \<in> set bs. length b = block_size))
    (fetch_blocks ops fetch block_size cl)"
  unfolding fetch_blocks_def Let_def
  by (rule safe_and_then [OF fetch_frames_safe [OF assms]]) (auto simp: sized_def)


subsection \<open>Frames of the client's state\<close>

definition kept :: "('s \<Rightarrow> bool) \<Rightarrow> 'a \<times> 's \<Rightarrow> bool" where
  "kept I m \<longleftrightarrow> I (snd m)"

lemma kept_value [simp]: "kept I (r, s) \<longleftrightarrow> I s"
  by (simp add: kept_def)

lemma kept_and_then [intro]:
  "kept I m \<Longrightarrow> (\<And>x s. I s \<Longrightarrow> kept I (f x s)) \<Longrightarrow> kept I (and_then m f)"
  by (cases "(m, f)" rule: and_then.cases) auto

lemma kept_apfst [simp]: "kept I (apfst f m) \<longleftrightarrow> kept I m"
  by (cases m) simp

text \<open>A session of the client: what only a login changes.\<close>

definition same_login :: "'w client \<Rightarrow> 'w client \<Rightarrow> bool" where
  "same_login cl c \<longleftrightarrow> cl_logins c = cl_logins cl \<and> cl_token_renewal c = cl_token_renewal cl \<and>
     cl_limits c = cl_limits cl"

lemma same_login_refl [simp]: "same_login cl cl"
  by (simp add: same_login_def)

lemma same_login_frame [simp]:
  "same_login cl (c\<lparr>cl_world := w\<rparr>) = same_login cl c"
  "same_login cl (c\<lparr>cl_connected := b\<rparr>) = same_login cl c"
  "same_login cl (c\<lparr>cl_socket := b, cl_connected := b'\<rparr>) = same_login cl c"
  "same_login cl (c\<lparr>cl_socket := b\<rparr>) = same_login cl c"
  "same_login cl (c\<lparr>cl_next_id := n\<rparr>) = same_login cl c"
  "same_login cl (c\<lparr>cl_last_request := n\<rparr>) = same_login cl c"
  "same_login cl (note_revoked r c) = same_login cl c"
  by (simp_all add: same_login_def note_revoked_def Let_def)

lemma on_world_login [simp]: "kept (same_login cl) (on_world f c) \<longleftrightarrow> same_login cl c"
  by (simp add: on_world_def split: prod.split)

lemma on_world_same: "on_world f c = (x, c') \<Longrightarrow> same_login cl c' = same_login cl c"
  by (auto simp: on_world_def split: prod.splits)

lemma open_socket_login: "same_login cl c \<Longrightarrow> kept (same_login cl) (open_socket ops c)"
  unfolding open_socket_def by (auto intro!: kept_and_then)

lemma client_send_login: "same_login cl c \<Longrightarrow> kept (same_login cl) (client_send ops body c)"
  by (auto simp: client_send_def Let_def on_world_same split: prod.split res.split)

lemma receive_loop_login: "same_login cl c \<Longrightarrow> kept (same_login cl) (receive_loop n ops c)"
  by (induction n arbitrary: c)
    (auto simp: on_world_same split: prod.split res.split option.split server_body.split)

lemma call_loop_login: "same_login cl c \<Longrightarrow> kept (same_login cl) (call_loop n ops rid c)"
  by (induction n arbitrary: c) (auto simp: client_receive_def intro!: kept_and_then receive_loop_login)

lemma call_login: "same_login cl c \<Longrightarrow> kept (same_login cl) (call ops body c)"
  unfolding call_def by (intro kept_and_then client_send_login call_loop_login)

subsection \<open>Logging in\<close>

text \<open>A login that succeeds is counted; one that fails leaves the session as it was.\<close>

fun login_step :: "'w client \<Rightarrow> ('a, 'e) res \<times> 'w client \<Rightarrow> bool" where
  "login_step cl (Ok _, c) \<longleftrightarrow> cl_logins c = cl_logins cl + 1"
| "login_step cl (_, c) \<longleftrightarrow> same_login cl c"

lemma login_step_and_then:
  "kept (same_login cl) m \<Longrightarrow> (\<And>x c. same_login cl c \<Longrightarrow> login_step cl (f x c)) \<Longrightarrow> login_step cl (and_then m f)"
  by (cases "(m, f)" rule: and_then.cases) auto

lemma login_step_same: "same_login cl c \<Longrightarrow> login_step c m \<Longrightarrow> login_step cl m"
  by (cases "(c, m)" rule: login_step.cases) (auto simp: same_login_def)

lemma say_hello_step: "login_step cl (say_hello ops cl)"
proof -
  have token: "kept (same_login cl) (case co_token ops of
      Some source \<Rightarrow> apfst (map_err Token_error) (on_world source cl) | None \<Rightarrow> (Ok [], cl))"
    by (simp split: option.split)
  show ?thesis
    unfolding say_hello_def Let_def
    apply (rule login_step_and_then [OF token])
    apply (rule login_step_and_then)
     apply (erule call_login)
    subgoal for token c answer d
      by (cases answer) (auto intro!: login_step_and_then call_login split: server_body.split prod.split
          simp: same_login_def on_world_def)
    done
qed

lemma log_in_step: "login_step cl (log_in ops cl)"
proof -
  obtain r c where h: "say_hello ops cl = (r, c)" by (cases "say_hello ops cl")
  note S = say_hello_step [of cl ops, unfolded h]
  show ?thesis
  proof (cases r)
    case (Err err)
    then have "same_login cl c" using S by simp
    then have "login_step cl (and_then (open_socket ops c) (\<lambda>_. say_hello ops))"
      by (intro login_step_and_then open_socket_login) (auto intro: login_step_same say_hello_step)
    then show ?thesis using S h Err by (simp add: log_in_def)
  qed (use S h in \<open>simp_all add: log_in_def\<close>)
qed

lemma reconnect_step: "login_step cl (reconnect ops cl)"
  unfolding reconnect_def
  by (intro login_step_and_then open_socket_login) (auto intro: login_step_same log_in_step)

text \<open>C27: connecting again counts a login exactly if it succeeds.  A failed one leaves the number of
  logins, the limits and the time the token is renewed as they were.\<close>

theorem reconnect_counts_logins:
  "case reconnect ops cl of
     (Ok _, cl') \<Rightarrow> cl_logins cl' = cl_logins cl + 1
   | (_, cl') \<Rightarrow> cl_logins cl' = cl_logins cl \<and> cl_token_renewal cl' = cl_token_renewal cl \<and> cl_limits cl' = cl_limits cl"
  using reconnect_step [of cl ops] by (auto simp: same_login_def split: prod.split res.split)

text \<open>C29: a login that the token source prevents leaves the client counted as connected: the new socket is
  open, nothing was sent on it, and the session is the one before.  Later requests go out on a connection
  that is not logged in.\<close>

theorem failed_login_stays_open:
  assumes "co_token ops = Some source" and "\<forall>w. \<exists>e w'. source w = (Err e, w')"
    and "\<forall>w. \<exists>w'. co_reopen ops w = (Ok (), w')" and "cl_socket cl"
  shows "\<exists>e cl'. reconnect ops cl = (Err (Token_error e), cl') \<and> is_open cl' \<and>
    cl_logins cl' = cl_logins cl \<and> cl_next_id cl' = cl_next_id cl"
proof -
  have sock: "\<exists>w. open_socket ops c = (Ok (), c\<lparr>cl_world := w, cl_connected := True\<rparr>)" if "cl_socket c" for c
    using assms(3) that by (simp add: open_socket_def on_world_def split: prod.split) (metis Pair_inject map_err.simps(1) and_then.simps(1))
  have hello: "\<exists>e w. say_hello ops c = (Err (Token_error e), c\<lparr>cl_world := w\<rparr>)" for c
    using assms(1) spec [OF assms(2), of "cl_world c"] by (auto simp: say_hello_def on_world_def)
  obtain w where o1: "open_socket ops cl = (Ok (), cl\<lparr>cl_world := w, cl_connected := True\<rparr>)"
    using sock [OF assms(4)] by blast
  let ?c = "cl\<lparr>cl_world := w, cl_connected := True\<rparr>"
  obtain e w1 where h1: "say_hello ops ?c = (Err (Token_error e), ?c\<lparr>cl_world := w1\<rparr>)" using hello by blast
  obtain w2 where o2: "open_socket ops (?c\<lparr>cl_world := w1\<rparr>) =
      (Ok (), ?c\<lparr>cl_world := w1\<rparr>\<lparr>cl_world := w2, cl_connected := True\<rparr>)"
    using sock [of "?c\<lparr>cl_world := w1\<rparr>"] assms(4) by auto
  obtain e' w3 where "say_hello ops (?c\<lparr>cl_world := w1\<rparr>\<lparr>cl_world := w2, cl_connected := True\<rparr>) =
      (Err (Token_error e'), ?c\<lparr>cl_world := w1\<rparr>\<lparr>cl_world := w2, cl_connected := True\<rparr>\<lparr>cl_world := w3\<rparr>)"
    using hello by blast
  then show ?thesis
    using o1 h1 o2 assms(1,4) by (simp add: reconnect_def log_in_def is_open_def)
qed

subsection \<open>Takeovers\<close>

text \<open>C28: a revocation is known from the moment it is noted: exactly the leases older than the newest epoch
  announced for the database count as revoked, and the database is reported once, if the epoch is news.\<close>

theorem note_revoked_spec:
  "(was_revoked db_id lease_epoch (note_revoked r cl) \<longleftrightarrow>
      was_revoked db_id lease_epoch cl \<or> db_id = lr_db_id r \<and> lease_epoch < lr_new_lease_epoch r) \<and>
   set (cl_unreported (note_revoked r cl)) =
     set (cl_unreported cl) \<union> (if was_revoked (lr_db_id r) (lr_new_lease_epoch r - 1) cl \<or> lr_new_lease_epoch r = 0
       then {} else {lr_db_id r}) \<and>
   (distinct (cl_unreported (note_revoked r cl)) \<longleftrightarrow> distinct (cl_unreported cl))"
  by (auto simp: was_revoked_def note_revoked_def Let_def split: option.splits if_splits)

subsection \<open>Answers\<close>

text \<open>\<open>receives ops cl fs cl'\<close>: the client receives the frames \<open>fs\<close>, one after the other.\<close>

inductive receives :: "'w client_ops \<Rightarrow> 'w client \<Rightarrow> server_frame list \<Rightarrow> 'w client \<Rightarrow> bool" for ops where
  Nil: "receives ops cl [] cl"
| Cons: "client_receive ops cl = (Ok f, c) \<Longrightarrow> receives ops c fs cl' \<Longrightarrow> receives ops cl (f # fs) cl'"

inductive_cases receives_NilE: "receives ops cl [] cl'"
inductive_cases receives_ConsE: "receives ops cl (f # fs) cl'"

lemma call_loop_receives:
  assumes "call_loop n ops rid cl = (Ok body, cl')"
  shows "\<exists>fs f. receives ops cl (fs @ [f]) cl' \<and> (\<forall>g \<in> set fs. sf_request_id g \<noteq> rid) \<and>
    sf_request_id f = rid \<and> sf_body f = Some body"
  using assms
proof (induction n arbitrary: cl)
  case (Suc n)
  then obtain f c where f: "client_receive ops cl = (Ok f, c)"
    and rest: "(if sf_request_id f \<noteq> rid then call_loop n ops rid c else (call_answer f, c)) = (Ok body, cl')"
    by (auto simp: and_then_Ok)
  show ?case
  proof (cases "sf_request_id f = rid")
    case True
    then have "sf_body f = Some body" "c = cl'"
      using rest by (auto simp: call_answer_def split: option.splits server_body.splits)
    then show ?thesis using f True by (intro exI [of _ "[]"] exI [of _ f]) (auto intro: receives.intros)
  next
    case False
    then obtain fs g where "receives ops c (fs @ [g]) cl'" "\<forall>h \<in> set fs. sf_request_id h \<noteq> rid"
        "sf_request_id g = rid" "sf_body g = Some body"
      using Suc.IH [of c] rest by auto
    then show ?thesis using f False by (intro exI [of _ "f # fs"] exI [of _ g]) (auto intro: receives.intros)
  qed
qed simp

lemma commit_loop_refused: "commit_loop n ops ids (Some e) cl \<noteq> (Ok v, cl')"
  by (induction n arbitrary: cl) (auto simp: and_then_Ok Let_def split: if_splits option.splits server_body.splits)

lemma commit_loop_receives:
  assumes "commit_loop n ops ids None cl = (Ok v, cl')"
  shows "\<exists>fs f ack. receives ops cl (fs @ [f]) cl' \<and> (\<forall>g \<in> set fs. sf_request_id g \<notin> set ids) \<and>
    sf_request_id f = last ids \<and> sf_body f = Some (CommitAck_body ack) \<and> ca_version ack = v"
  using assms
proof (induction n arbitrary: cl)
  case (Suc n)
  then obtain f c where f: "client_receive ops cl = (Ok f, c)" by (auto simp: and_then_Ok)
  show ?case
  proof (cases "sf_request_id f \<in> set ids")
    case True
    then obtain ack where "sf_request_id f = last ids" "sf_body f = Some (CommitAck_body ack)" "ca_version ack = v" "c = cl'"
      using Suc.prems f
      by (auto simp: Let_def commit_loop_refused split: if_splits option.splits server_body.splits)
    then show ?thesis using f by (intro exI [of _ "[]"] exI [of _ f] exI [of _ ack]) (auto intro: receives.intros)
  next
    case False
    then obtain fs g ack where "receives ops c (fs @ [g]) cl'" "\<forall>h \<in> set fs. sf_request_id h \<notin> set ids"
        "sf_request_id g = last ids" "sf_body g = Some (CommitAck_body ack)" "ca_version ack = v"
      using Suc.IH [of c] Suc.prems f by auto
    then show ?thesis using f False
      by (intro exI [of _ "f # fs"] exI [of _ g] exI [of _ ack]) (auto intro: receives.intros)
  qed
qed simp

lemma client_send_id:
  assumes "client_send ops body cl = (Ok rid, cl')"
  shows "rid = cl_next_id cl + 1 \<and> cl_next_id cl' = rid"
  using assms by (auto simp: client_send_def Let_def on_world_def split: if_splits prod.splits res.splits)

lemma send_parts_ids:
  "send_parts ops parts cl = (Ok ids, cl') \<Longrightarrow> ids = [cl_next_id cl + 1..<cl_next_id cl + 1 + length parts]"
proof (induction parts arbitrary: cl ids cl')
  case (Cons part parts)
  then obtain rid c rest where sent: "client_send ops (Commit_body part) cl = (Ok rid, c)"
    and "send_parts ops parts c = (Ok rest, cl')" "ids = rid # rest"
    by (auto simp only: send_parts.simps and_then_Ok prod.inject res.inject)
  then show ?case using Cons.IH [of c rest cl'] client_send_id [OF sent] by (simp add: upt_conv_Cons del: upt_Suc)
qed simp

text \<open>C9: a commit succeeds only if the server acknowledged its last part and rejected none: every part was
  sent under an id of its own, the frame that ends the wait acknowledges the last id with the version
  returned, and all frames before it answer other requests.\<close>

theorem commit_acknowledged:
  assumes "client_commit ops parts cl = (Ok v, cl')"
  shows "\<exists>ids mid fs f ack. send_parts ops parts cl = (Ok ids, mid) \<and>
    ids = [cl_next_id cl + 1..<cl_next_id cl + 1 + length parts] \<and> parts \<noteq> [] \<and>
    receives ops mid (fs @ [f]) cl' \<and> (\<forall>g \<in> set fs. sf_request_id g \<notin> set ids) \<and>
    sf_request_id f = last ids \<and> sf_body f = Some (CommitAck_body ack) \<and> ca_version ack = v"
proof -
  obtain ids mid where s: "send_parts ops parts cl = (Ok ids, mid)" "ids \<noteq> []"
    and c: "commit_loop (co_turns ops) ops ids None mid = (Ok v, cl')"
    using assms by (auto simp: client_commit_def and_then_Ok split: if_splits)
  then show ?thesis
    using send_parts_ids [OF s(1)] commit_loop_receives [OF c] by (cases parts) auto
qed

subsection \<open>A scripted server\<close>

text \<open>A world for examples: the frames the server sends, each one byte that \<open>sample_frame\<close> decodes.\<close>

definition sample_frame :: "bytes \<Rightarrow> server_frame option" where
  "sample_frame d =
     (if d = [0] then Some \<lparr>sf_request_id = 0, sf_body = Some (LeaseRevoked_body \<lparr>lr_db_id = [97], lr_new_lease_epoch = 4\<rparr>)\<rparr>
      else if d = [1] then Some \<lparr>sf_request_id = 1, sf_body = Some (CommitAck_body \<lparr>ca_commit_id = [9], ca_version = 8\<rparr>)\<rparr>
      else if d = [2] then Some \<lparr>sf_request_id = 1,
        sf_body = Some (Pages_body \<lparr>pm_first_block = 0, pm_blocks = [[5, 6]], pm_last = True\<rparr>)\<rparr>
      else None)"

definition sample_client_ops :: "bytes list client_ops" where
  "sample_client_ops =
     \<lparr>co_dial = (\<lambda>w. (Ok (), w)), co_send = (\<lambda>_ w. (Ok (), w)),
      co_receive = (\<lambda>w. case w of [] \<Rightarrow> (Err ''closed'', []) | f # fs \<Rightarrow> (Ok f, fs)),
      co_reopen = (\<lambda>w. (Ok (), w)), co_reachable = (\<lambda>w. (True, w)), co_logged_in = (\<lambda>_ w. w),
      co_now = (\<lambda>w. (0, w)), co_pause = (\<lambda>_ w. w), co_random = (\<lambda>w. ([9], w)), co_encode = (\<lambda>_. []),
      co_decode = sample_frame, co_token = Some (\<lambda>w. (Err ''no token'', w)),
      co_signer = \<lparr>sg_algorithm = Ed25519, sg_public_key = [], sg_sign = id\<rparr>, co_instance_id = [],
      co_trace_fetches = False, co_turns = 5\<rparr>"

definition sample_client :: "bytes list \<Rightarrow> bytes list client" where
  "sample_client w = new_client sample_client_ops True w"

lemma sample_client_ops_simps [simp]:
  "co_dial sample_client_ops w = (Ok (), w)" "co_send sample_client_ops d w = (Ok (), w)"
  "co_receive sample_client_ops [] = (Err ''closed'', [])" "co_receive sample_client_ops (f # w) = (Ok f, w)"
  "co_reopen sample_client_ops w = (Ok (), w)" "co_now sample_client_ops w = (0, w)"
  "co_random sample_client_ops w = ([9], w)" "co_decode sample_client_ops = sample_frame"
  "co_token sample_client_ops = Some (\<lambda>w. (Err ''no token'', w))" "co_turns sample_client_ops = Suc (Suc (Suc (Suc (Suc 0))))"
  by (simp_all add: sample_client_ops_def)

lemma sample_client_simps [simp]:
  "cl_connected (sample_client w)" "cl_socket (sample_client w)" "cl_world (sample_client w) = w"
  "cl_next_id (sample_client w) = 0" "cl_logins (sample_client w) = 0" "cl_revoked (sample_client w) = fmempty"
  "cl_unreported (sample_client w) = []" "cl_trace (sample_client w) = None" "cl_token_renewal (sample_client w) = None"
  by (simp_all add: sample_client_def new_client_def sample_client_ops_def)

lemmas frame_evals = client_send_def client_receive_def on_world_def sample_frame_def note_revoked_def was_revoked_def Let_def

lemma calm_sample: "calm sample_client_ops"
  by (auto simp: calm_def sample_client_ops_def split: list.split)


theorem failed_login_stays_open_witness:
  "\<exists>e cl'. reconnect sample_client_ops (disconnect (sample_client [])) = (Err (Token_error e), cl') \<and> is_open cl' \<and>
    cl_logins cl' = 0 \<and> cl_next_id cl' = 0"
  using failed_login_stays_open [of sample_client_ops "\<lambda>w. (Err ''no token'', w)" "disconnect (sample_client [])"]
  by (simp add: disconnect_def)

definition sample_part :: commit_msg where
  "sample_part = \<lparr>cm_db_id = [97], cm_commit_id = [9], cm_lease_epoch = 3, cm_base_version = 7, cm_page_count = 1,
     cm_blocks = [\<lparr>bm_index = 0, bm_data = [5, 6]\<rparr>], cm_more = False, cm_part = 0\<rparr>"

theorem commit_acknowledged_witness:
  "\<exists>cl' ids mid fs f ack. client_commit sample_client_ops [sample_part] (sample_client [[0], [1]]) = (Ok 8, cl') \<and>
    send_parts sample_client_ops [sample_part] (sample_client [[0], [1]]) = (Ok ids, mid) \<and>
    ids = [1..<2] \<and> receives sample_client_ops mid (fs @ [f]) cl' \<and>
    (\<forall>g \<in> set fs. sf_request_id g \<notin> set ids) \<and> sf_request_id f = last ids \<and>
    sf_body f = Some (CommitAck_body ack) \<and> ca_version ack = 8"
proof -
  have "\<exists>cl'. client_commit sample_client_ops [sample_part] (sample_client [[0], [1]]) = (Ok 8, cl')"
    by (simp add: client_commit_def frame_evals)
  then obtain cl' where c: "client_commit sample_client_ops [sample_part] (sample_client [[0], [1]]) = (Ok 8, cl')" ..
  show ?thesis
    using commit_acknowledged [OF c] c by (auto simp: numeral_2_eq_2)
qed

end
