(* ===== verification/Server_Source.thy ===== *)
theory Server_Source
  imports Database Client_Facts Page_Source
begin

text \<open>
  A database on the server as a source of blocks: \<open>Fetch::fill\<close> of \<open>database.rs\<close> obeys the laws of
  \<open>page_source\<close> whatever the server answers, and those of \<open>page_source_exact\<close> if the server serves the
  blocks of the version asked for and the local copy is one of the database.
\<close>

subsection \<open>What a step of a session leaves alone\<close>

text \<open>The identity of a database in a session: all but the login, the local copy and the reason it broke.\<close>

definition identity :: "'s remote \<Rightarrow> 's remote" where
  "identity rm = rm\<lparr>rm_login := 0, rm_local := No_copy, rm_broken := None\<rparr>"

lemma identity_simps [simp]:
  "identity (rm\<lparr>rm_login := n\<rparr>) = identity rm"
  "identity (rm\<lparr>rm_local := c\<rparr>) = identity rm"
  "identity (rm\<lparr>rm_broken := b\<rparr>) = identity rm"
  by (simp_all add: identity_def)

lemma identityD:
  assumes "identity a = identity b"
  shows "rm_db_id a = rm_db_id b" and "rm_subject a = rm_subject b" and "rm_version a = rm_version b"
    and "rm_last_commit_id a = rm_last_commit_id b" and "rm_pending_commit a = rm_pending_commit b"
    and "rm_lease_id a = rm_lease_id b" and "rm_lease_epoch a = rm_lease_epoch b"
proof -
  have sel: "rm_db_id (identity c) = rm_db_id c" "rm_subject (identity c) = rm_subject c"
    "rm_version (identity c) = rm_version c" "rm_last_commit_id (identity c) = rm_last_commit_id c"
    "rm_pending_commit (identity c) = rm_pending_commit c" "rm_lease_id (identity c) = rm_lease_id c"
    "rm_lease_epoch (identity c) = rm_lease_epoch c" for c :: "'a remote"
    by (simp_all add: identity_def)
  show "rm_db_id a = rm_db_id b" "rm_subject a = rm_subject b" "rm_version a = rm_version b"
    "rm_last_commit_id a = rm_last_commit_id b" "rm_pending_commit a = rm_pending_commit b"
    "rm_lease_id a = rm_lease_id b" "rm_lease_epoch a = rm_lease_epoch b"
    using assms sel [of a] sel [of b] by simp_all
qed

text \<open>\<open>idle se t\<close>: between \<open>se\<close> and \<open>t\<close> only the client, the counters, the login and the reason changed.\<close>

definition idle :: "('w, 's) session \<Rightarrow> ('w, 's) session \<Rightarrow> bool" where
  "idle se t \<longleftrightarrow> identity (se_remote t) = identity (se_remote se) \<and>
     rm_local (se_remote t) = rm_local (se_remote se) \<and> se_pages t = se_pages se"

lemma idle_refl [simp]: "idle se se"
  by (simp add: idle_def)

lemma idle_trans: "idle a b \<Longrightarrow> idle b c \<Longrightarrow> idle a c"
  by (simp add: idle_def)

lemma idle_simps [simp]:
  "idle se (t\<lparr>se_client := c\<rparr>) = idle se t" "idle se (tally f t) = idle se t"
  "idle se (t\<lparr>se_remote := (se_remote t)\<lparr>rm_login := n\<rparr>\<rparr>) = idle se t"
  "idle se (t\<lparr>se_remote := (se_remote t)\<lparr>rm_broken := b\<rparr>\<rparr>) = idle se t"
  by (simp_all add: idle_def tally_def)

lemma on_client_idle: "on_client f t = (r, t') \<Longrightarrow> idle se t' = idle se t"
  by (auto simp: on_client_def split: prod.splits)

lemma kept_on_client [simp]: "kept (idle se) (on_client f t) \<longleftrightarrow> idle se t"
  by (simp add: on_client_def split: prod.split)

lemma quiet_on_client [simp]: "quiet (on_client f t) \<longleftrightarrow> quiet (f (se_client t))"
  by (simp add: on_client_def quiet_iff split: prod.split)

lemma session_now_idle: "session_now ops t = (r, t') \<Longrightarrow> idle se t' = idle se t"
  by (auto simp: session_now_def dest: on_client_idle)

lemma kept_session_now [simp]: "kept (idle se) (session_now ops t) \<longleftrightarrow> idle se t"
  by (simp add: session_now_def)

lemma break_with_idle [simp]: "kept (idle se) (break_with b t) \<longleftrightarrow> idle se t" "quiet (break_with b t)"
  by (simp_all add: break_with_def)

lemma resume_idle: "idle se t \<Longrightarrow> kept (idle se) (resume ops ps t)"
  unfolding resume_def
  by (auto intro!: kept_and_then split: prod.split server_body.split simp: on_client_idle)

lemma resume_quiet:
  assumes "calm (do_client ops)"
  shows "quiet (resume ops ps t)"
proof -
  have "quiet (checked od u, se)" for od u and se :: "('a, 'b) session"
    by (simp add: checked_def)
  then show ?thesis
    unfolding resume_def
    by (auto intro!: quiet_and_then reconnect_quiet [OF assms] call_quiet [OF assms]
        split: prod.split server_body.split)
qed

lemma is_connected_idle: "on_client (is_connected c) t = (r, t') \<Longrightarrow> idle se t' = idle se t"
  by (rule on_client_idle)

lemma on_current_connection_idle: "on_current_connection ops t = (r, t') \<Longrightarrow> idle se t' = idle se t"
  by (auto simp: on_current_connection_def on_client_idle split: prod.splits)

subsection \<open>Any server\<close>

text \<open>The store returns at most the blocks asked for and, where the caller writes to it, does not panic.\<close>

definition store_sane :: "('w, 's) db_ops \<Rightarrow> bool" where
  "store_sane ops \<longleftrightarrow>
     (\<forall>first n s r s'. so_read (do_store ops) first n s = (r, s') \<longrightarrow>
        r \<noteq> Panic \<and> (\<forall>bs. r = Ok bs \<longrightarrow> length bs \<le> n)) \<and>
     (do_native ops \<or> (\<forall>h blocks s. fst (so_write (do_store ops) h blocks s) \<noteq> Panic))"

lemma store_saneD:
  assumes "store_sane ops"
  shows "so_read (do_store ops) first n s = (r, s') \<Longrightarrow> r \<noteq> Panic"
    and "so_read (do_store ops) first n s = (Ok bs, s') \<Longrightarrow> length bs \<le> n"
    and "\<not> do_native ops \<Longrightarrow> fst (so_write (do_store ops) h blocks s) \<noteq> Panic"
  using assms unfolding store_sane_def by blast+

lemma lc_read_sane:
  assumes "store_sane ops" and "lc_read (do_store ops) first n c = (r, c')"
  shows "r \<noteq> Panic \<and> (\<forall>bs. r = Ok bs \<longrightarrow> length bs \<le> n)"
proof (cases c)
  case (Writing b)
  obtain q s where rd: "so_read (do_store ops) first n (bg_store (bg_drain (do_store ops) b)) = (q, s)" by fastforce
  show ?thesis
    using assms(2) Writing rd store_saneD(1,2) [OF assms(1)]
    by (cases q) (auto simp: bg_read_def Let_def split: if_splits)
qed (use assms(2) store_saneD(1,2) [OF assms(1)] in \<open>auto split: prod.splits\<close>)

text \<open>\<open>fetched first n se t\<close>: between \<open>se\<close> and \<open>t\<close> blocks of the range were added.\<close>

definition fetched :: "nat \<Rightarrow> nat \<Rightarrow> ('w, 's) session \<Rightarrow> ('w, 's) session \<Rightarrow> bool" where
  "fetched first n se t \<longleftrightarrow> identity (se_remote t) = identity (se_remote se) \<and> loads first n (se_pages se) (se_pages t)"

lemma idle_fetched: "idle a b \<Longrightarrow> fetched first n a b"
  by (simp add: idle_def fetched_def)

lemma fetched_idle: "idle b c \<Longrightarrow> fetched first n a c = fetched first n a b"
  by (simp add: idle_def fetched_def)

lemma fetched_trans: "fetched first n a b \<Longrightarrow> fetched first n b c \<Longrightarrow> fetched first n a c"
  by (auto simp: fetched_def intro: loads_trans)

lemma fetched_set_local [simp]: "fetched first n a (set_local c t) = fetched first n a t"
  by (simp add: fetched_def set_local_def)

lemma set_local_simps [simp]:
  "se_pages (set_local c t) = se_pages t" "rm_local (se_remote (set_local c t)) = c"
  "identity (se_remote (set_local c t)) = identity (se_remote t)" "se_client (set_local c t) = se_client t"
  "rm_version (se_remote (set_local c t)) = rm_version (se_remote t)"
  "rm_broken (se_remote (set_local c t)) = rm_broken (se_remote t)"
  by (simp_all add: set_local_def)

lemma tally_simps [simp]:
  "se_pages (tally f t) = se_pages t" "se_remote (tally f t) = se_remote t" "se_client (tally f t) = se_client t"
  by (simp_all add: tally_def)

lemma keep_run_pages [simp]:
  "se_pages (keep_run first bs t) = keep_all (se_pages t) first bs" "se_remote (keep_run first bs t) = se_remote t"
  "se_client (keep_run first bs t) = se_client t"
proof -
  have "fold (\<lambda>(offset, d) p. keep p (f + offset) d) (enumerate k ds) p = keep_all p (f + k) ds" for f k ds p
    by (induction ds arbitrary: k p) (simp_all add: add.assoc [symmetric])
  from this [of first 0] show "se_pages (keep_run first bs t) = keep_all (se_pages t) first bs"
    by (simp add: keep_run_def)
qed (simp_all add: keep_run_def)

text \<open>The ways a read of the copy goes.\<close>

lemma take_from_copy_cases:
  assumes "take_from_copy ops first n se = (r, se')"
  obtains (none) "rm_local (se_remote se) = No_copy" and "r = Ok False" and "se' = se"
  | (got) m bs c f g where "m \<le> n" and "lc_read (do_store ops) first m (rm_local (se_remote se)) = (Ok bs, c)"
      and "bs \<noteq> []" and "\<forall>b \<in> set bs. length b = pg_page_size (se_pages se)" and "r = Ok True"
      and "se' = keep_run first bs (tally f (set_local c (tally g se)))"
  | (missed) m bs c f g where "lc_read (do_store ops) first m (rm_local (se_remote se)) = (Ok bs, c)"
      and "r = Ok False" and "se' = tally f (set_local c (tally g se))"
  | (failed) f where "r = Ok False" and "se' = set_local No_copy (tally f se)"
  | (stuck) m q c g where "lc_read (do_store ops) first m (rm_local (se_remote se)) = (q, c)"
      and "q = Panic \<or> q = Hang" and "r = Panic \<longleftrightarrow> q = Panic" and "\<not> is_ok r" and "se' = set_local c (tally g se)"
proof (cases "rm_local (se_remote se) = No_copy")
  case True
  then show thesis using assms by (intro none) (simp_all add: take_from_copy_def)
next
  case False
  then have nn: "\<not> lc_is_none (rm_local (se_remote se))" by (cases "rm_local (se_remote se)") simp_all
  let ?g = "\<lambda>st. st\<lparr>local_reads := local_reads st + 1\<rparr>"
  let ?m = "min n (blocks_per_read (pg_page_size (se_pages se)))"
  obtain q c where rd: "lc_read (do_store ops) first ?m (rm_local (se_remote se)) = (q, c)" by fastforce
  note eval = assms [unfolded take_from_copy_def copy_read_def Let_def] nn rd
  show thesis
  proof (cases q)
    case (Ok bs)
    show thesis
    proof (cases "bs = [] \<or> list_ex (\<lambda>b. length b \<noteq> pg_page_size (se_pages se)) bs")
      case True
      then have "r = Ok False \<and> (\<exists>f. se' = tally f (set_local c (tally ?g se)))" using eval Ok by auto
      then show thesis using missed rd Ok by blast
    next
      case False
      then have "r = Ok True \<and> (\<exists>f. se' = keep_run first bs (tally f (set_local c (tally ?g se))))"
        using eval Ok by auto
      then show thesis using got [of ?m bs c _ ?g] False rd Ok by (auto simp: list_ex_iff)
    qed
  next
    case (Err e)
    then have "r = Ok False \<and> (\<exists>f. se' = set_local No_copy (tally f se))" using eval by (auto simp: tally_def)
    then show thesis using failed by blast
  next
    case Panic
    then have "r = Panic \<and> se' = set_local c (tally ?g se)" using eval by simp
    then show thesis using stuck [of ?m q c ?g] rd Panic by simp
  next
    case Hang
    then have "r = Hang \<and> se' = set_local c (tally ?g se)" using eval by simp
    then show thesis using stuck [of ?m q c ?g] rd Hang by simp
  qed
qed

lemma load_range_cases:
  assumes "load_range ops first n se = (r, se')" and "calm (do_client ops)"
  obtains (loaded) bs c c' t where "r = Ok ()" and "length bs = n"
      and "\<forall>b \<in> set bs. length b = pg_page_size (se_pages se)" and "idle se t" and "se' = keep_run first bs t"
      and "fetch_blocks (do_client ops) \<lparr>fe_db_id = rm_db_id (se_remote se), fe_version = rm_version (se_remote se),
         fe_first_block = first, fe_count = n, fe_ranges = []\<rparr> (pg_page_size (se_pages se)) c = (Ok bs, c')"
  | (failed) "r \<noteq> Panic" and "\<not> is_ok r" and "idle se se'"
proof -
  obtain started t where t: "session_now ops se = (started, t)" by fastforce
  have i: "idle se t" using session_now_idle [OF t, of se] by simp
  let ?f = "\<lparr>fe_db_id = rm_db_id (se_remote t), fe_version = rm_version (se_remote t), fe_first_block = first,
    fe_count = n, fe_ranges = []\<rparr>"
  obtain q c where fb: "fetch_blocks (do_client ops) ?f (pg_page_size (se_pages t)) (se_client t) = (q, c)" by fastforce
  note Q = fetch_blocks_safe [OF assms(2), of ?f "pg_page_size (se_pages t)" "se_client t", unfolded fb]
  have same: "rm_db_id (se_remote t) = rm_db_id (se_remote se)" "rm_version (se_remote t) = rm_version (se_remote se)"
    "se_pages t = se_pages se"
    using i identityD by (auto simp: idle_def)
  show thesis
  proof (cases q)
    case (Ok bs)
    obtain now u where u: "session_now ops (t\<lparr>se_client := c\<rparr>) = (now, u)" by fastforce
    have iu: "idle se u" using session_now_idle [OF u, of se] i by simp
    have "r = Ok ()" "\<exists>f. se' = keep_run first bs (tally f u)"
      using assms(1) t fb Ok u by (auto simp: load_range_def on_client_def)
    then obtain f where "r = Ok ()" "se' = keep_run first bs (tally f u)" by blast
    then show thesis
      using fb Q Ok same iu by (intro loaded [of bs "tally f u" "se_client t" c]) simp_all
  qed (use assms(1) t fb Q i failed in \<open>auto simp: load_range_def on_client_def\<close>)
qed

text \<open>The ways a write of the copy goes.\<close>

definition copy_job :: "nat list \<Rightarrow> ('w, 's) session \<Rightarrow> job" where
  "copy_job is se = (copy_head_of (se_remote se) (se_pages se), blocks_to_copy (se_pages se) is)"

definition writer :: "('w, 's) db_ops \<Rightarrow> 's local_copy \<Rightarrow> 's background option" where
  "writer ops c =
     (case c of
        Ready s \<Rightarrow> Some (bg_start (do_spawned ops) (do_schedule ops) s) | Writing b \<Rightarrow> Some b | No_copy \<Rightarrow> None)"

lemma write_copy_cases:
  assumes "write_copy ops is se = (r, se')"
  obtains (same) "r = Ok ()" and "se' = se"
      and "rm_local (se_remote se) = No_copy \<or> is = [] \<or> \<not> do_native ops \<and> (\<exists>b. rm_local (se_remote se) = Writing b)"
  | (gone) f where "r = Ok ()" and "se' = set_local No_copy (tally f se)"
  | (queued) b b' f where "r = Ok ()" and "writer ops (rm_local (se_remote se)) = Some b"
      and "bg_write (do_store ops) (copy_job is se) (bg_progress (do_store ops) b) = (True, b')"
      and "se' = set_local (Writing b') (tally f se)"
  | (written) s s' f where "r = Ok ()" and "rm_local (se_remote se) = Ready s"
      and "so_write (do_store ops) (fst (copy_job is se)) (snd (copy_job is se)) s = (Ok (), s')"
      and "se' = set_local (Ready s') (tally f se)"
  | (stuck) s q s' where "\<not> do_native ops" and "rm_local (se_remote se) = Ready s"
      and "so_write (do_store ops) (fst (copy_job is se)) (snd (copy_job is se)) s = (q, s')"
      and "q = Panic \<or> q = Hang" and "r = Panic \<longleftrightarrow> q = Panic" and "\<not> is_ok r" and "se' = set_local (Ready s') se"
proof -
  note eval = assms [unfolded write_copy_def Let_def, folded copy_job_def]
  consider (skip) "lc_is_none (rm_local (se_remote se)) \<or> is = []"
    | (native) "\<not> (lc_is_none (rm_local (se_remote se)) \<or> is = [])" "do_native ops"
    | (browser) "\<not> (lc_is_none (rm_local (se_remote se)) \<or> is = [])" "\<not> do_native ops"
    by blast
  then show thesis
  proof cases
    case skip
    then have "r = Ok () \<and> se' = se" using eval by simp
    moreover have "rm_local (se_remote se) = No_copy \<or> is = []"
      using skip by (cases "rm_local (se_remote se)") auto
    ultimately show thesis using same by blast
  next
    case native
    then obtain b where b: "writer ops (rm_local (se_remote se)) = Some b"
      by (cases "rm_local (se_remote se)") (auto simp: writer_def)
    obtain ok b' where w: "bg_write (do_store ops) (copy_job is se) (bg_progress (do_store ops) b) = (ok, b')"
      by fastforce
    have "r = Ok () \<and> (\<exists>f. se' = (if ok then set_local (Writing b') (tally f se) else set_local No_copy (tally f se)))"
      using eval native b w
      by (cases "rm_local (se_remote se)"; cases ok) (auto simp: writer_def copy_job_def tally_def)
    then show thesis using queued [OF _ b] gone w by (cases ok) auto
  next
    case browser
    show thesis
    proof (cases "rm_local (se_remote se)")
      case (Ready s)
      obtain q s' where w: "so_write (do_store ops) (fst (copy_job is se)) (snd (copy_job is se)) s = (q, s')"
        by fastforce
      have "(q = Ok () \<longrightarrow> r = Ok () \<and> (\<exists>f. se' = set_local (Ready s') (tally f se))) \<and>
          ((\<exists>e. q = Err e) \<longrightarrow> r = Ok () \<and> (\<exists>f. se' = set_local No_copy (tally f se))) \<and>
          (q = Panic \<or> q = Hang \<longrightarrow> (r = Panic \<longleftrightarrow> q = Panic) \<and> \<not> is_ok r \<and> se' = set_local (Ready s') se)"
        using eval browser Ready w by (cases q) (auto simp: copy_job_def)
      then show thesis
        using gone written [OF _ Ready] stuck [OF browser(2) Ready w] w by (cases q) auto
    next
      case (Writing b)
      then have "r = Ok () \<and> se' = se" using eval browser by simp
      then show thesis using same browser(2) Writing by blast
    qed (use browser in simp)
  qed
qed

lemma reach_server_idle:
  assumes "reach_server ops se = (r, se')" and "calm (do_client ops)"
  shows "idle se se'" and "r \<noteq> Panic"
proof -
  obtain current t where cur: "on_current_connection ops se = (current, t)" by fastforce
  have t: "idle se t" using on_current_connection_idle [OF cur, of se] by simp
  obtain q u where res: "resume ops (pg_page_size (se_pages t)) t = (q, u)" by fastforce
  have u: "idle se u" "q \<noteq> Panic"
    using resume_idle [OF t, of ops "pg_page_size (se_pages t)"] resume_quiet [OF assms(2), of "pg_page_size (se_pages t)" t] res
    by (simp_all add: quiet_iff)
  show "idle se se'" "r \<noteq> Panic"
    using assms(1) cur t res u
    by (cases q; cases current; auto simp: reach_server_def break_with_def)+
qed

lemma load_missing_cases:
  assumes "load_missing ops first n se = (r, se')" and "calm (do_client ops)"
  obtains (loaded) bs c c' t where "r = Ok ()" and "length bs = n"
      and "\<forall>b \<in> set bs. length b = pg_page_size (se_pages se)" and "idle se t" and "se' = keep_run first bs t"
      and "fetch_blocks (do_client ops) \<lparr>fe_db_id = rm_db_id (se_remote se), fe_version = rm_version (se_remote se),
         fe_first_block = first, fe_count = n, fe_ranges = []\<rparr> (pg_page_size (se_pages se)) c = (Ok bs, c')"
  | (failed) "r \<noteq> Panic" and "\<not> is_ok r" and "idle se se'"
proof -
  obtain q u where l: "load_range ops first n se = (q, u)" by fastforce
  from l assms(2) show thesis
  proof (cases rule: load_range_cases)
    case (loaded bs c c' t)
    then have "r = Ok ()" "se' = keep_run first bs t" using assms(1) l by (simp_all add: load_missing_def)
    then show thesis using loaded that(1) by blast
  next
    case failed
    then have "r \<noteq> Panic \<and> \<not> is_ok r \<and> idle se se'"
      using assms(1) l by (cases q) (auto simp: load_missing_def break_with_def split: if_splits)
    then show thesis using that(2) by blast
  qed
qed

lemma fetch_missing_cases:
  assumes "fetch_missing ops first n se = (r, se')" and "calm (do_client ops)"
  obtains (broken) b where "rm_broken (se_remote se) = Some b" and "r = Err b" and "se' = se"
  | (copied) q :: "(bool, broken) res" where "take_from_copy ops first n se = (q, se')" and "q \<noteq> Ok False"
      and "r = Panic \<longleftrightarrow> q = Panic" and "r = Ok () \<longleftrightarrow> q = Ok True"
  | (failed) se1 where "take_from_copy ops first n se = (Ok False :: (bool, broken) res, se1)" and "r \<noteq> Panic" and "\<not> is_ok r"
      and "idle se1 se'"
  | (loaded) se1 bs t c c' where "take_from_copy ops first n se = (Ok False :: (bool, broken) res, se1)" and "idle se1 t"
      and "length bs = n" and "\<forall>b \<in> set bs. length b = pg_page_size (se_pages se1)"
      and "fetch_blocks (do_client ops) \<lparr>fe_db_id = rm_db_id (se_remote se1), fe_version = rm_version (se_remote se1),
         fe_first_block = first, fe_count = n, fe_ranges = []\<rparr> (pg_page_size (se_pages se1)) c = (Ok bs, c')"
      and "write_copy ops [first..<first + n] (keep_run first bs t) = (r, se')"
proof (cases "rm_broken (se_remote se)")
  case (Some b)
  then have "r = Err b \<and> se' = se" using assms(1) by (simp add: fetch_missing_def)
  then show thesis using broken Some by blast
next
  case None
  obtain q :: "(bool, broken) res" and se1 where take: "take_from_copy ops first n se = (q, se1)" by fastforce
  note eval = assms(1) [unfolded fetch_missing_def None option.case take]
  show thesis
  proof (cases "q = Ok False")
    case False
    then have "se' = se1 \<and> (r = Panic \<longleftrightarrow> q = Panic) \<and> (r = Ok () \<longleftrightarrow> q = Ok True)"
      using eval by (cases q) auto
    then show thesis using copied take False by blast
  next
    case True
    obtain q2 se2 where reach: "reach_server ops se1 = (q2, se2)" by fastforce
    note R = reach_server_idle [OF reach assms(2)]
    have same: "rm_db_id (se_remote se2) = rm_db_id (se_remote se1)" "rm_version (se_remote se2) = rm_version (se_remote se1)"
      "se_pages se2 = se_pages se1"
      using R(1) identityD by (auto simp: idle_def)
    obtain q3 se3 where load: "load_missing ops first n se2 = (q3, se3)" by fastforce
    show thesis
    proof (cases "is_ok q2")
      case False
      then have "se' = se2 \<and> r \<noteq> Panic \<and> \<not> is_ok r" using eval True reach R(2) by (cases q2) auto
      then show thesis using failed take True R(1) by blast
    next
      case ok: True
      from load assms(2) show thesis
      proof (cases rule: load_missing_cases)
        case (loaded bs c c' t)
        then have "write_copy ops [first..<first + n] (keep_run first bs t) = (r, se')"
          using eval True reach ok load by (auto simp: is_ok_iff)
        moreover have "idle se1 t" using R(1) loaded(4) idle_trans by blast
        ultimately show thesis using that(4) [OF take [unfolded True]] loaded same by simp
      next
        case failed
        then have "se' = se3 \<and> r \<noteq> Panic \<and> \<not> is_ok r"
          using eval True reach ok load by (cases q3) (auto simp: is_ok_iff)
        then show thesis using that(3) [OF take [unfolded True]] R(1) failed(3) idle_trans by blast
      qed
    qed
  qed
qed

lemma take_from_copy_loads:
  assumes "take_from_copy ops first n se = (r, se')" and "store_sane ops"
  shows "r \<noteq> Panic" and "fetched first n se se'"
proof -
  have "r \<noteq> Panic \<and> fetched first n se se'"
    using assms(1)
  proof (cases rule: take_from_copy_cases)
    case (got m bs c f g)
    then have "length bs \<le> n" using lc_read_sane [OF assms(2) got(2)] by auto
    then show ?thesis
      using got loads_mono [OF loads_keep_all [OF got(4), of first]] by (simp add: fetched_def)
  next
    case (stuck m q c g)
    then show ?thesis using lc_read_sane [OF assms(2) stuck(1)] by (simp add: fetched_def)
  qed (simp_all add: fetched_def)
  then show "r \<noteq> Panic" "fetched first n se se'" by blast+
qed

lemma write_copy_frame:
  assumes "write_copy ops is se = (r, se')"
  shows "identity (se_remote se') = identity (se_remote se)" and "se_pages se' = se_pages se"
    and "rm_broken (se_remote se') = rm_broken (se_remote se)" and "store_sane ops \<Longrightarrow> r \<noteq> Panic"
proof -
  show "identity (se_remote se') = identity (se_remote se)" "se_pages se' = se_pages se"
    "rm_broken (se_remote se') = rm_broken (se_remote se)"
    using assms by (cases rule: write_copy_cases; simp)+
  show "r \<noteq> Panic" if sane: "store_sane ops"
    using assms
  proof (cases rule: write_copy_cases)
    case (stuck s q s')
    then show ?thesis using store_saneD(3) [OF sane stuck(1)] by (metis fst_conv)
  qed simp_all
qed

lemma fetch_missing_loads:
  assumes "fetch_missing ops first n se = (r, se')" and "calm (do_client ops)" and "store_sane ops"
  shows "r \<noteq> Panic \<and> fetched first n se se'"
  using assms(1,2)
proof (cases rule: fetch_missing_cases)
  case (broken b)
  then show ?thesis by (simp add: fetched_def)
next
  case (copied q)
  then show ?thesis using take_from_copy_loads [OF copied(1) assms(3)] by simp
next
  case (failed se1)
  then show ?thesis using take_from_copy_loads [OF failed(1) assms(3)] fetched_idle [OF failed(4)] by simp
next
  case (loaded se1 bs t c c')
  note T = take_from_copy_loads [OF loaded(1) assms(3)] and W = write_copy_frame [OF loaded(6)]
  have "fetched first n se1 se'"
    using W loaded(2-4) loads_keep_all [of bs "se_pages se1" first] by (auto simp: fetched_def idle_def)
  then show ?thesis using T(2) W(4) [OF assms(3)] fetched_trans by blast
qed

text \<open>The invariant of the source for a server that may answer anything.\<close>

definition fetch_good :: "('w, 's) db_ops \<Rightarrow> nat \<Rightarrow> 'w client \<times> 's remote \<Rightarrow> bool" where
  "fetch_good ops ps s \<longleftrightarrow> calm (do_client ops) \<and> store_sane ops"

interpretation fetch: page_source "fetch_fill ops" "fetch_good ops" for ops :: "('w, 's) db_ops"
proof
  fix p first count st r p' st' and s s' :: "'w client \<times> 's remote"
  assume g: "fetch_good ops (pg_page_size p) s" and f: "fetch_fill ops s p first count st = (r, s', p', st')"
  obtain se where se: "fetch_missing ops first count (session_of s p st) = (r, se)" "p' = se_pages se"
    using f by (auto simp: fetch_fill_def split: prod.splits)
  have "r \<noteq> Panic \<and> fetched first count (session_of s p st) se"
    using g by (intro fetch_missing_loads [OF se(1)]) (simp_all add: fetch_good_def)
  then show "r \<noteq> Panic \<and> fetch_good ops (pg_page_size p) s' \<and> loads first count p p'"
    using g se(2) by (simp add: fetch_good_def fetched_def session_of_def)
qed

subsection \<open>An honest server and a coherent copy\<close>

text \<open>A fetch that succeeds returns the blocks of the version asked for.\<close>

definition serves_history :: "'w client_ops \<Rightarrow> rstring \<Rightarrow> (nat \<Rightarrow> nat \<Rightarrow> bytes) \<Rightarrow> nat \<Rightarrow> bool" where
  "serves_history ops db_id hist ps \<longleftrightarrow> (\<forall>v i. length (hist v i) = ps) \<and>
     (\<forall>v first n cl bs cl'. fetch_blocks ops \<lparr>fe_db_id = db_id, fe_version = v, fe_first_block = first, fe_count = n,
        fe_ranges = []\<rparr> ps cl = (Ok bs, cl') \<longrightarrow> bs = map (hist v) [first..<first + n])"

lemma serves_historyD:
  assumes "serves_history ops db_id hist ps"
  shows "length (hist v i) = ps"
    and "fetch_blocks ops \<lparr>fe_db_id = db_id, fe_version = v, fe_first_block = first, fe_count = n, fe_ranges = []\<rparr> ps cl =
      (Ok bs, cl') \<Longrightarrow> bs = map (hist v) [first..<first + n]"
  using assms unfolding serves_history_def by blast+

text \<open>The copy of a session holds, or will hold once its queue is empty, blocks of version \<open>v\<close>.\<close>

definition copy_coherent ::
  "('s \<Rightarrow> bool) \<Rightarrow> ('s \<Rightarrow> copy_state) \<Rightarrow> (nat \<Rightarrow> nat \<Rightarrow> bytes) \<Rightarrow> nat \<Rightarrow> nat \<Rightarrow> 's local_copy \<Rightarrow> bool" where
  "copy_coherent good holds hist ps v c \<longleftrightarrow>
     (case c of
        No_copy \<Rightarrow> True
      | Ready s \<Rightarrow> good s \<and> fits ps (holds s) \<and> coherent hist v (holds s)
      | Writing b \<Rightarrow> bg_inv good holds hist ps v b)"

context local_store
begin

lemma lc_read_coherent:
  assumes "copy_coherent good holds hist ps v c" and "lc_read ops first n c = (r, c')"
  shows "r \<noteq> Panic" and "copy_coherent good holds hist ps v c'"
    and "r = Ok bs \<Longrightarrow> length bs \<le> n \<and> (\<forall>k < length bs. bs ! k = hist v (first + k))"
proof -
  have "r \<noteq> Panic \<and> copy_coherent good holds hist ps v c' \<and>
      (r = Ok bs \<longrightarrow> length bs \<le> n \<and> (\<forall>k < length bs. bs ! k = hist v (first + k)))"
  proof (cases c)
    case (Ready s)
    obtain q t where rd: "so_read ops first n s = (q, t)" by fastforce
    have s: "good s" "fits ps (holds s)" "coherent hist v (holds s)"
      using assms(1) Ready by (simp_all add: copy_coherent_def)
    show ?thesis
      using assms(2) Ready rd s read_law [OF s(1) rd] served_coherent [OF s(3)]
      by (auto simp: copy_coherent_def)
  next
    case (Writing b)
    obtain q b' where rd: "bg_read ops first n b = (q, b')" by fastforce
    show ?thesis
      using assms Writing rd bg_read_inv [OF _ rd] by (auto simp: copy_coherent_def)
  qed (use assms in \<open>auto simp: copy_coherent_def\<close>)
  then show "r \<noteq> Panic" "copy_coherent good holds hist ps v c'"
    "r = Ok bs \<Longrightarrow> length bs \<le> n \<and> (\<forall>k < length bs. bs ! k = hist v (first + k))" by blast+
qed

lemma writer_coherent:
  assumes "copy_coherent good holds hist ps v c" and "writer dops c = Some b"
  shows "bg_inv good holds hist ps v b"
  using assms by (auto simp: copy_coherent_def writer_def bg_start_def bg_inv_def split: local_copy.splits)

lemma write_law_job:
  assumes "copy_coherent good holds hist ps v (Ready s)" and "job_ok hist ps v j"
    and "so_write ops (fst j) (snd j) s = (r, s')"
  shows "r \<noteq> Panic" and "r \<noteq> Hang"
    and "r = Ok () \<Longrightarrow> copy_coherent good holds hist ps (hd_version (fst j)) (Ready s')"
proof -
  have s: "good s" "fits ps (holds s)" "coherent hist v (holds s)"
    using assms(1) by (simp_all add: copy_coherent_def)
  have j: "head_ok (fst j)" "writable (fst j) (holds s)" "\<forall>b \<in> set (snd j). length (snd b) = hd_page_size (fst j)"
    "hd_page_size (fst j) = ps"
    using assms(2) s(2) by (auto simp: job_ok_def writable_def fits_def split: copy_state.splits)
  note W = write_law [OF s(1) j(1-3) assms(3)]
  show "r \<noteq> Panic" "r \<noteq> Hang" using W by blast+
  show "copy_coherent good holds hist ps (hd_version (fst j)) (Ready s')" if "r = Ok ()"
    using W that updated_coherent [OF s(3) assms(2)] j(4) by (simp add: copy_coherent_def fits_def)
qed

lemma write_copy_coherent:
  assumes "copy_coherent good holds hist ps v (rm_local (se_remote se))" and "do_store dops = ops"
    and "write_copy dops is se = (r, se')" and "job_ok hist ps v (copy_job is se)"
    and "rm_version (se_remote se) = v \<or>
      is \<noteq> [] \<and> (do_native dops \<or> (\<forall>b. rm_local (se_remote se) \<noteq> Writing b))"
  shows "copy_coherent good holds hist ps (rm_version (se_remote se)) (rm_local (se_remote se'))" and "r = Ok ()"
proof -
  let ?j = "copy_job is se"
  have version: "hd_version (fst ?j) = rm_version (se_remote se)"
    by (simp add: copy_job_def copy_head_of_def)
  have "copy_coherent good holds hist ps (rm_version (se_remote se)) (rm_local (se_remote se')) \<and> r = Ok ()"
    using assms(3)
  proof (cases rule: write_copy_cases)
    case same
    then show ?thesis using assms(1,5) by (auto simp: copy_coherent_def)
  next
    case (gone f)
    then show ?thesis by (simp add: copy_coherent_def)
  next
    case (queued b b' f)
    have "bg_inv good holds hist ps v (bg_progress ops b)"
      by (rule bg_inv_progress [OF writer_coherent [OF assms(1) queued(2)]])
    then have "bg_inv good holds hist ps (hd_version (fst ?j)) b'"
      using bg_inv_write [OF _ assms(4)] queued(3) assms(2) by blast
    then show ?thesis using queued(1,4) version by (simp add: copy_coherent_def)
  next
    case (written s s' f)
    then show ?thesis
      using write_law_job(3) [OF _ assms(4), of s "Ok ()" s'] assms(1,2) version by simp
  next
    case (stuck s q s')
    then show ?thesis using write_law_job(1,2) [OF _ assms(4), of s q s'] assms(1,2) by auto
  qed
  then show "copy_coherent good holds hist ps (rm_version (se_remote se)) (rm_local (se_remote se'))" "r = Ok ()"
    by blast+
qed

end

text \<open>The head under which a session writes its copy.\<close>

definition session_head :: "'s remote \<Rightarrow> nat \<Rightarrow> nat \<Rightarrow> head" where
  "session_head rm ps n =
     \<lparr>hd_subject = rm_subject rm, hd_db_id = rm_db_id rm, hd_page_size = ps, hd_page_count = n, hd_version = rm_version rm\<rparr>"

lemma session_head_simps [simp]:
  "hd_subject (session_head rm ps n) = rm_subject rm" "hd_db_id (session_head rm ps n) = rm_db_id rm"
  "hd_page_size (session_head rm ps n) = ps" "hd_page_count (session_head rm ps n) = n"
  "hd_version (session_head rm ps n) = rm_version rm"
  by (simp_all add: session_head_def)

lemma session_head_cong:
  assumes "identity a = identity b"
  shows "session_head a = session_head b"
  using identityD [OF assms] by (simp add: session_head_def fun_eq_iff)

lemma copy_head_of_session:
  "head_ok (session_head rm (pg_page_size p) (pg_stable_page_count p)) \<Longrightarrow>
     copy_head_of rm p = session_head rm (pg_page_size p) (pg_stable_page_count p)"
  by (auto simp: head_ok_def session_head_def copy_head_of_def MAX_PAGE_SIZE_def)

definition fetch_serves ::
  "('w, 's) db_ops \<Rightarrow> ('s \<Rightarrow> bool) \<Rightarrow> ('s \<Rightarrow> copy_state) \<Rightarrow> (nat \<Rightarrow> nat \<Rightarrow> bytes) \<Rightarrow> nat \<Rightarrow> nat \<Rightarrow>
     'w client \<times> 's remote \<Rightarrow> bool" where
  "fetch_serves ops good holds hist ps n s \<longleftrightarrow>
     local_store (do_store ops) good holds \<and> serves_history (do_client ops) (rm_db_id (snd s)) hist ps \<and>
     copy_coherent good holds hist ps (rm_version (snd s)) (rm_local (snd s)) \<and> head_ok (session_head (snd s) ps n)"

lemma set_blocks_to_copy: "set (blocks_to_copy p is) = {(i, d). i \<in> set is \<and> block_at p i = Some d}"
  by (force simp: blocks_to_copy_def List.map_filter_def)

lemma fetched_job_ok:
  assumes "head_ok (session_head (se_remote t) ps (pg_stable_page_count (se_pages t)))" and "ps = pg_page_size (se_pages t)"
    and "\<forall>i. first \<le> i \<and> i < first + n \<longrightarrow> block_at (se_pages t) i = None"
    and "bs = map (hist (rm_version (se_remote t))) [first..<first + n]" and "\<forall>v i. length (hist v i) = ps"
  shows "job_ok hist ps (rm_version (se_remote t)) (copy_job [first..<first + n] (keep_run first bs t))"
proof -
  let ?q = "keep_all (se_pages t) first bs" and ?v = "rm_version (se_remote t)"
  have "\<forall>d \<in> set bs. length d = pg_page_size (se_pages t)"
    unfolding assms(4) using assms(2,5) by simp
  then have "same_shape (se_pages t) ?q"
    using loads_keep_all by (simp add: loads_def)
  then have k: "pg_page_size ?q = ps" "pg_stable_page_count ?q = pg_stable_page_count (se_pages t)"
    using same_shapeD(1,3) assms(2) by simp_all
  have h: "copy_head_of (se_remote t) ?q = session_head (se_remote t) ps (pg_stable_page_count (se_pages t))"
    using copy_head_of_session [of "se_remote t" ?q] assms(1) unfolding k by simp
  have b: "d = hist ?v i" if "(i, d) \<in> set (blocks_to_copy ?q [first..<first + n])" for i d
  proof -
    have i: "first \<le> i" "i < first + n" "block_at ?q i = Some d"
      using that by (simp_all add: set_blocks_to_copy)
    then have "block_at (se_pages t) i = None" using assms(3) by simp
    then show ?thesis using i by (simp add: block_at_keep_all assms(4))
  qed
  have job: "copy_job [first..<first + n] (keep_run first bs t) =
      (session_head (se_remote t) ps (pg_stable_page_count (se_pages t)), blocks_to_copy ?q [first..<first + n])"
    by (simp add: copy_job_def h)
  have "\<forall>x \<in> set (blocks_to_copy ?q [first..<first + n]). length (snd x) = ps \<and> snd x = hist ?v (fst x)"
    using b assms(5) by (metis prod.collapse)
  then show ?thesis
    unfolding job job_ok_def fst_conv snd_conv session_head_simps using assms(1) by blast
qed

lemma take_from_copy_exact:
  assumes "take_from_copy ops first n se = (r, se')" and "local_store (do_store ops) good holds"
    and "copy_coherent good holds hist ps v (rm_local (se_remote se))"
  obtains bs where "copy_coherent good holds hist ps v (rm_local (se_remote se'))"
    and "identity (se_remote se') = identity (se_remote se)"
    and "se_pages se' = keep_all (se_pages se) first bs" and "\<forall>k < length bs. bs ! k = hist v (first + k)"
    and "r = Ok True \<longrightarrow> bs \<noteq> []" and "r = Ok False \<longrightarrow> bs = []" and "r \<noteq> Panic"
proof -
  note lread = local_store.lc_read_coherent [OF assms(2,3)]
  from assms(1) show thesis
  proof (cases rule: take_from_copy_cases)
    case none
    then show thesis using assms(3) by (intro that [of "[]"]) simp_all
  next
    case (got m bs c f g)
    then show thesis using lread [OF got(2)] by (intro that [of bs]) simp_all
  next
    case (missed m bs c f g)
    then show thesis using lread [OF missed(1)] by (intro that [of "[]"]) simp_all
  next
    case (failed f)
    then show thesis by (intro that [of "[]"]) (simp_all add: copy_coherent_def)
  next
    case (stuck m q c g)
    have "r \<noteq> Ok True" "r \<noteq> Ok False" using stuck(4) by auto
    then show thesis using stuck lread [OF stuck(1)] by (intro that [of "[]"]) simp_all
  qed
qed

lemma fetch_missing_exact:
  assumes "fetch_missing ops first n se = (r, se')" and "calm (do_client ops)"
    and "fetch_serves ops good holds hist (pg_page_size (se_pages se)) (pg_stable_page_count (se_pages se))
      (se_client se, se_remote se)"
    and "\<forall>i. first \<le> i \<and> i < first + n \<longrightarrow> fmlookup (pg_blocks (se_pages se)) i = None"
  shows "copy_coherent good holds hist (pg_page_size (se_pages se)) (rm_version (se_remote se)) (rm_local (se_remote se')) \<and>
    (\<forall>i d. block_at (se_pages se) i = None \<and> block_at (se_pages se') i = Some d \<longrightarrow> d = hist (rm_version (se_remote se)) i) \<and>
    (r = Ok () \<and> 0 < n \<longrightarrow> block_at (se_pages se') first \<noteq> None)"
proof -
  let ?ps = "pg_page_size (se_pages se)" and ?v = "rm_version (se_remote se)"
  have store: "local_store (do_store ops) good holds" and serves: "serves_history (do_client ops) (rm_db_id (se_remote se)) hist ?ps"
    and coh: "copy_coherent good holds hist ?ps ?v (rm_local (se_remote se))"
    and head: "head_ok (session_head (se_remote se) ?ps (pg_stable_page_count (se_pages se)))"
    using assms(3) by (simp_all add: fetch_serves_def)
  have new: "hist ?v i = d" if "\<forall>k < length bs. bs ! k = hist ?v (first + k)" "block_at (se_pages se) i = None"
      "block_at (keep_all (se_pages se) first bs) i = Some d" for bs i d
    using that by (auto simp: block_at_keep_all split: if_splits)
  have got: "block_at (keep_all (se_pages se) first bs) first \<noteq> None" if "bs \<noteq> []" for bs
    using that by (simp add: block_at_keep_all)
  show ?thesis
    using assms(1,2)
  proof (cases rule: fetch_missing_cases)
    case (broken b)
    then show ?thesis using coh by auto
  next
    case (copied q)
    obtain bs where B: "copy_coherent good holds hist ?ps ?v (rm_local (se_remote se'))"
      "identity (se_remote se') = identity (se_remote se)"
      "se_pages se' = keep_all (se_pages se) first bs" "\<forall>k < length bs. bs ! k = hist ?v (first + k)"
      "q = Ok True \<longrightarrow> bs \<noteq> []" "q = Ok False \<longrightarrow> bs = []" "q \<noteq> Panic"
      by (rule take_from_copy_exact [OF copied(1) store coh])
    show ?thesis
      using B(1,3) new [OF B(4)] got [of bs] B(5) copied(4) by auto
  next
    case (failed se1)
    obtain bs where B: "copy_coherent good holds hist ?ps ?v (rm_local (se_remote se1))"
      "identity (se_remote se1) = identity (se_remote se)"
      "se_pages se1 = keep_all (se_pages se) first bs" "\<forall>k < length bs. bs ! k = hist ?v (first + k)"
      "(Ok False :: (bool, broken) res) = Ok True \<longrightarrow> bs \<noteq> []" "(Ok False :: (bool, broken) res) = Ok False \<longrightarrow> bs = []" "(Ok False :: (bool, broken) res) \<noteq> Panic"
      by (rule take_from_copy_exact [OF failed(1) store coh])
    have "se_pages se1 = se_pages se" using B(3,6) by simp
    then show ?thesis using B(1) failed(3,4) by (auto simp: idle_def)
  next
    case (loaded se1 bs t c c')
    obtain xs where X: "copy_coherent good holds hist ?ps ?v (rm_local (se_remote se1))"
      "identity (se_remote se1) = identity (se_remote se)"
      "se_pages se1 = keep_all (se_pages se) first xs" "\<forall>k < length xs. xs ! k = hist ?v (first + k)"
      "(Ok False :: (bool, broken) res) = Ok True \<longrightarrow> xs \<noteq> []" "(Ok False :: (bool, broken) res) = Ok False \<longrightarrow> xs = []" "(Ok False :: (bool, broken) res) \<noteq> Panic"
      by (rule take_from_copy_exact [OF loaded(1) store coh])
    have t: "copy_coherent good holds hist ?ps ?v (rm_local (se_remote t))" "identity (se_remote t) = identity (se_remote se)"
      "se_pages t = se_pages se" "se_pages se1 = se_pages se" "identity (se_remote se1) = identity (se_remote se)"
      using X loaded(2) by (auto simp: idle_def)
    note same = identityD [OF t(2)] and same1 = identityD [OF t(5)]
    have bs: "bs = map (hist ?v) [first..<first + n]"
      using serves_historyD(2) [OF serves] loaded(5) same1(1,3) t(4) by simp
    have job: "job_ok hist ?ps ?v (copy_job [first..<first + n] (keep_run first bs t))"
      unfolding same(3) [symmetric]
    proof (rule fetched_job_ok)
      show "head_ok (session_head (se_remote t) ?ps (pg_stable_page_count (se_pages t)))"
        using head session_head_cong [OF t(2)] t(3) by simp
      show "\<forall>i. first \<le> i \<and> i < first + n \<longrightarrow> block_at (se_pages t) i = None"
        using assms(4) t(3) by (simp add: block_at_def)
      show "\<forall>v i. length (hist v i) = ?ps" using serves_historyD(1) [OF serves] by blast
    qed (use bs same(3) t(3) in simp_all)
    have "copy_coherent good holds hist ?ps ?v (rm_local (se_remote se'))"
      using local_store.write_copy_coherent(1) [OF store _ refl loaded(6) job] t(1) same(3) by simp
    moreover have p: "se_pages se' = keep_all (se_pages se) first bs"
      using write_copy_frame(2) [OF loaded(6)] t(3) by simp
    moreover have "\<forall>k < length bs. bs ! k = hist ?v (first + k)" "0 < n \<Longrightarrow> bs \<noteq> []"
      unfolding bs by simp_all
    ultimately show ?thesis using new [of bs] got [of bs] unfolding p by auto
  qed
qed

interpretation fetch_exact:
  page_source_exact "fetch_fill ops" "fetch_good ops" "fetch_serves ops good holds hist"
    "\<lambda>s. hist (rm_version (snd s))"
  for ops :: "('w, 's) db_ops" and good and holds and hist
proof
  fix p first count st r p' st' and s s' :: "'w client \<times> 's remote"
  assume g: "fetch_good ops (pg_page_size p) s"
    and v: "fetch_serves ops good holds hist (pg_page_size p) (pg_stable_page_count p) s"
    and n: "0 < count" and f: "fetch_fill ops s p first count st = (r, s', p', st')"
    and absent: "\<forall>i. first \<le> i \<and> i < first + count \<longrightarrow> fmlookup (pg_blocks p) i = None"
  obtain se where se: "fetch_missing ops first count (session_of s p st) = (r, se)" "p' = se_pages se"
      "s' = (se_client se, se_remote se)"
    using f by (auto simp: fetch_fill_def split: prod.splits)
  have c: "calm (do_client ops)" "store_sane ops" using g by (simp_all add: fetch_good_def)
  have id: "identity (se_remote se) = identity (snd s)"
    using fetch_missing_loads [OF se(1) c] by (simp add: fetched_def session_of_def)
  note same = identityD [OF id]
  have E: "copy_coherent good holds hist (pg_page_size p) (rm_version (snd s)) (rm_local (snd s')) \<and>
      (\<forall>i d. block_at p i = None \<and> block_at p' i = Some d \<longrightarrow> d = hist (rm_version (snd s)) i) \<and>
      (r = Ok () \<and> 0 < count \<longrightarrow> block_at p' first \<noteq> None)"
    using fetch_missing_exact [OF se(1) c(1), of good holds hist] v absent se(2,3) by (simp add: session_of_def)
  have "fetch_serves ops good holds hist (pg_page_size p) (pg_stable_page_count p) s'"
    using E v se(3) same(1,3) session_head_cong [OF id] by (simp add: fetch_serves_def)
  moreover have "blk_data b = hist (rm_version (snd s)) i"
    if "fmlookup (pg_blocks p) i = None" "fmlookup (pg_blocks p') i = Some b" for i b
    using E that by (simp add: block_at_def)
  ultimately show "fetch_serves ops good holds hist (pg_page_size p) (pg_stable_page_count p) s' \<and>
      hist (rm_version (snd s')) = hist (rm_version (snd s)) \<and>
      (\<forall>i b. fmlookup (pg_blocks p) i = None \<and> fmlookup (pg_blocks p') i = Some b \<longrightarrow>
         blk_data b = hist (rm_version (snd s)) i) \<and>
      (r = Ok () \<longrightarrow> fmlookup (pg_blocks p') first = None \<longrightarrow>
         hist (rm_version (snd s)) first = zeros (pg_page_size p))"
    using E n se(3) same(3) by (auto simp: block_at_def)
next
  fix ps n i and s :: "'w client \<times> 's remote"
  assume "fetch_serves ops good holds hist ps n s"
  then show "length (hist (rm_version (snd s)) i) = ps"
    by (auto simp: fetch_serves_def dest: serves_historyD(1))
qed

end
