(* ===== verification/Server_Files.thy ===== *)
theory Server_Files
  imports Server_Source
begin

text \<open>
  A database on the server as a plain file (\<open>database.rs\<close>): reading, writing and truncating refine the
  operations of a file of bytes, for a server that serves the blocks of the version asked for and a local
  copy that holds blocks of that version.
\<close>

definition server_inv ::
  "('w, 's) db_ops \<Rightarrow> ('s \<Rightarrow> bool) \<Rightarrow> ('s \<Rightarrow> copy_state) \<Rightarrow> (nat \<Rightarrow> nat \<Rightarrow> bytes) \<Rightarrow> 'w client \<Rightarrow> 's database \<Rightarrow> bool" where
  "server_inv ops good holds hist cl db \<longleftrightarrow>
     fetch_good ops (pg_page_size (db_pages db)) (cl, db_remote db) \<and>
     fetch_serves ops good holds hist (pg_page_size (db_pages db)) (pg_stable_page_count (db_pages db)) (cl, db_remote db) \<and>
     pages_wf (db_pages db) \<and> agrees (hist (rm_version (db_remote db))) (db_pages db)"

definition server_file :: "(nat \<Rightarrow> nat \<Rightarrow> bytes) \<Rightarrow> 's database \<Rightarrow> bytes" where
  "server_file hist db = file_of (hist (rm_version (db_remote db))) (db_pages db)"

lemma length_server_file [simp]: "length (server_file hist db) = db_file_size db"
  by (simp add: server_file_def db_file_size_def)

lemma server_invD:
  assumes "server_inv ops good holds hist cl db"
  shows "fetch_good ops (pg_page_size (db_pages db)) (cl, db_remote db)"
    and "pages_wf (db_pages db)" and "agrees (hist (rm_version (snd (cl, db_remote db)))) (db_pages db)"
    and "fetch_serves ops good holds hist (pg_page_size (db_pages db)) (pg_stable_page_count (db_pages db)) (cl, db_remote db)"
  using assms by (simp_all add: server_inv_def)

text \<open>C3: reading a database on the server gives the bytes of its file, zero-filled past the end, and says
  whether the read lay inside the file, whether the blocks come from memory, the local copy or the
  server.  Whatever the outcome, the file and the invariant stay, and the call does not panic.\<close>

theorem server_read_refines:
  assumes "server_inv ops good holds hist cl db" and "db_read ops db cl buf off st = (r, buf', db', cl', st')"
  shows "r \<noteq> Panic \<and> server_inv ops good holds hist cl' db' \<and> server_file hist db' = server_file hist db \<and>
    (\<forall>full. r = Ok full \<longrightarrow> buf' = file_read (server_file hist db) off (length buf) \<and>
       (full \<longleftrightarrow> buf = [] \<or> off + length buf \<le> db_file_size db))"
proof (cases "rm_broken (db_remote db)")
  case (Some b)
  then show ?thesis using assms by (auto simp: db_read_def)
next
  case None
  let ?s = "(cl, db_remote db)"
  obtain rm p where r: "pages_read (fetch_fill ops) ?s (db_pages db) buf off st = (r, buf', (cl', rm), p, st')"
    and db': "db' = \<lparr>db_pages = p, db_remote = rm\<rparr>"
    using assms(2) None by (auto simp: db_read_def split: prod.splits)
  note inv = server_invD [OF assms(1)]
  note keeps = fetch_exact.pages_read_keeps [OF r inv]
  have "buf' = file_read (server_file hist db) off (length buf) \<and>
      (full \<longleftrightarrow> buf = [] \<or> off + length buf \<le> db_file_size db)" if "r = Ok full" for full
    using fetch_exact.pages_read_exact [OF r [unfolded that] inv]
    by (simp add: server_file_def db_file_size_def)
  with keeps show ?thesis
    unfolding db' by (simp add: server_inv_def server_file_def)
qed


text \<open>C13: truncating a database on the server, or extending one that is held in memory as a whole, changes
  its file to the given size, rounded up to a multiple of the page size: the bytes before it stay, new ones
  are zeros.  It keeps the invariant and cannot fail unless the database is broken.\<close>

theorem server_truncate_refines:
  assumes "server_inv ops good holds hist cl db" and "n \<le> U64"
    and "n \<le> db_file_size db \<or> \<not> asks_source (db_pages db)" and "db_truncate db n = (r, db')"
  shows "server_inv ops good holds hist cl db' \<and>
    (case rm_broken (db_remote db) of
       Some e \<Rightarrow> r = Err e \<and> db' = db
     | None \<Rightarrow> r = Ok () \<and>
         server_file hist db' = file_truncate (pg_page_size (db_pages db)) (server_file hist db) n)"
proof (cases "rm_broken (db_remote db)")
  case None
  note inv = server_invD [OF assms(1)]
  have n: "n \<le> pages_file_size (db_pages db) \<or> \<not> asks_source (db_pages db)"
    using assms(3) by (simp add: db_file_size_def)
  obtain q where q: "pages_truncate (db_pages db) n = Ok q" "pages_wf q"
      "pg_page_size q = pg_page_size (db_pages db)" "pg_stable_page_count q = pg_stable_page_count (db_pages db)"
      "agrees (hist (rm_version (db_remote db))) q"
    by (rule pages_truncate_ok [OF inv(2), of n]) (use inv(3) assms(2) in auto)
  show ?thesis
    using assms(1,4) None q pages_truncate_exact [OF inv(2,3) n q(1)]
    by (auto simp: db_truncate_def server_inv_def server_file_def)
qed (use assms in \<open>auto simp: db_truncate_def\<close>)

end
