(* ===== verification/Server_Commit.thy ===== *)
theory Server_Commit
  imports Server_Files
begin

text \<open>
  Commits to the server (\<open>Database::commit\<close>, \<open>resume_until\<close> and \<open>parts\<close> of \<open>database.rs\<close>): how a transaction
  is cut into parts, what a commit that succeeds has confirmed, what one that fails leaves, and that the
  local copy stays one of the database.
\<close>

subsection \<open>Failures are remembered\<close>

text \<open>An error is also the reason the database is broken for; without one the reason stays \<open>k\<close>.\<close>

fun breaks :: "broken option \<Rightarrow> ('a, broken) res \<times> ('w, 's) session \<Rightarrow> bool" where
  "breaks k (Err b, t) \<longleftrightarrow> rm_broken (se_remote t) = Some b"
| "breaks k (Ok _, t) \<longleftrightarrow> rm_broken (se_remote t) = k"
| "breaks k (_, t) \<longleftrightarrow> True"

lemma breaks_and_then:
  "breaks k m \<Longrightarrow> (\<And>x t. rm_broken (se_remote t) = k \<Longrightarrow> breaks k (f x t)) \<Longrightarrow> breaks k (and_then m f)"
  by (cases "(m, f)" rule: and_then.cases) auto

lemma breaks_break_with [simp]: "breaks k (break_with b t)"
  by (simp add: break_with_def)

lemma on_client_broken: "on_client f t = (r, t') \<Longrightarrow> rm_broken (se_remote t') = rm_broken (se_remote t)"
  by (auto simp: on_client_def split: prod.splits)

lemma snd_on_client_broken [simp]: "rm_broken (se_remote (snd (on_client f t))) = rm_broken (se_remote t)"
  by (simp add: on_client_def split: prod.split)

lemma session_now_broken: "session_now ops t = (r, t') \<Longrightarrow> rm_broken (se_remote t') = rm_broken (se_remote t)"
  by (auto simp: session_now_def dest: on_client_broken)

lemma on_current_connection_broken:
  "on_current_connection ops t = (r, t') \<Longrightarrow> rm_broken (se_remote t') = rm_broken (se_remote t)"
  by (auto simp: on_current_connection_def split: prod.splits dest: on_client_broken)

lemma resume_broken: "kept (\<lambda>t'. rm_broken (se_remote t') = k) (resume ops ps t) \<longleftrightarrow> rm_broken (se_remote t) = k"
proof -
  have c: "kept (\<lambda>t'. rm_broken (se_remote t') = k) (on_client f u) \<longleftrightarrow> rm_broken (se_remote u) = k" for f k
    and u :: "('a, 'b) session"
    by (simp add: on_client_def split: prod.split)
  have "kept (\<lambda>t'. rm_broken (se_remote t') = rm_broken (se_remote t)) (resume ops ps t)"
    unfolding resume_def
    by (auto intro!: kept_and_then split: prod.split server_body.split simp: c dest: on_client_broken)
  then show ?thesis by (auto simp: kept_def)
qed

lemma snd_on_client_idle [simp]: "idle se (snd (on_client f t)) = idle se t"
  by (simp add: on_client_def split: prod.split)

lemma resume_until_idle: "idle se t \<Longrightarrow> kept (idle se) (resume_until n ops ps deadline t)"
proof (induction n arbitrary: t)
  case (Suc n)
  obtain r u where res: "resume ops ps t = (r, u)" by fastforce
  have u: "idle se u" using resume_idle [OF Suc.prems, of ops ps] res by simp
  obtain now w where now: "session_now ops u = (now, w)" by fastforce
  have "idle se w" using session_now_idle [OF now] u by simp
  then show ?case
    using res now u Suc.IH by (auto simp: break_with_def split: res.split)
qed simp

lemma resume_until_breaks: "breaks (rm_broken (se_remote t)) (resume_until n ops ps deadline t)"
proof (induction n arbitrary: t)
  case (Suc n)
  obtain r u where res: "resume ops ps t = (r, u)" by fastforce
  have u: "rm_broken (se_remote u) = rm_broken (se_remote t)"
    using resume_broken [of _ ops ps t] res by (metis kept_value)
  obtain now w where now: "session_now ops u = (now, w)" by fastforce
  let ?w = "snd (on_client (on_world (\<lambda>w. ((), co_pause (do_client ops) RECONNECT_PAUSE w))) w)"
  show ?case using res now u session_now_broken [OF now] Suc.IH [of ?w] by (auto split: res.split)
qed simp

lemma resume_until_quiet:
  assumes "calm (do_client ops)"
  shows "quiet (resume_until n ops ps deadline t)"
proof (induction n arbitrary: t)
  case (Suc n)
  obtain r u where res: "resume ops ps t = (r, u)" by fastforce
  have "r \<noteq> Panic" using resume_quiet [OF assms, of ps t] res by (simp add: quiet_iff)
  then show ?case using res Suc.IH by (auto simp: break_with_def split: res.split prod.split)
qed simp

lemma resume_until_resumed:
  "resume_until n ops ps deadline t = (Ok od, t') \<Longrightarrow> \<exists>u u'. resume ops ps u = (Ok od, u')"
  by (induction n arbitrary: t) (auto simp: break_with_def split: prod.splits res.splits if_splits)

subsection \<open>Attempts\<close>

text \<open>
  A commit is confirmed as version \<open>v\<close>: the server acknowledged its parts, or after a broken connection the
  server was found one version ahead, with this commit as its last.
\<close>

definition confirmed :: "('w, 's) db_ops \<Rightarrow> commit_msg list \<Rightarrow> bytes \<Rightarrow> nat \<Rightarrow> nat \<Rightarrow> nat \<Rightarrow> bool" where
  "confirmed ops parts commit_id ps base v \<longleftrightarrow>
     (\<exists>cl cl'. client_commit (do_client ops) parts cl = (Ok v, cl')) \<or>
     v = base + 1 \<and> (\<exists>(t :: ('w, 's) session) t' od. resume ops ps t = (Ok od, t') \<and> op_version od = v \<and> op_last_commit_id od = commit_id)"

lemma commit_loop_quiet:
  assumes "calm ops"
  shows "quiet (commit_loop n ops ids refusal cl)"
proof (induction n arbitrary: refusal cl)
  case (Suc n)
  then show ?case
    unfolding commit_loop.simps
    by (intro quiet_and_then client_receive_quiet [OF assms])
      (auto simp: Let_def split: option.split server_body.split)
qed simp

lemma send_parts_quiet:
  assumes "calm ops"
  shows "quiet (send_parts ops parts cl)"
  by (induction parts arbitrary: cl) (auto intro!: quiet_and_then client_send_quiet [OF assms])

lemma client_commit_quiet: "calm ops \<Longrightarrow> quiet (client_commit ops parts cl)"
  unfolding client_commit_def by (intro quiet_and_then send_parts_quiet safe_if commit_loop_quiet) simp_all

lemma rejoin_idle: "idle se t \<Longrightarrow> kept (idle se) (rejoin ops deadline t)"
  by (auto simp: rejoin_def on_current_connection_idle split: prod.split intro!: kept_and_then resume_until_idle)

lemma rejoin_breaks: "breaks (rm_broken (se_remote t)) (rejoin ops deadline t)"
proof -
  obtain current u where cur: "on_current_connection ops t = (current, u)" by fastforce
  show ?thesis
    using on_current_connection_broken [OF cur] resume_until_breaks [of u]
    by (auto simp: rejoin_def cur intro!: breaks_and_then)
qed

lemma rejoin_quiet: "calm (do_client ops) \<Longrightarrow> quiet (rejoin ops deadline t)"
  by (auto simp: rejoin_def split: prod.split intro!: quiet_and_then resume_until_quiet)

lemma after_failure_idle: "idle se t \<Longrightarrow> kept (idle se) (after_failure ops commit_id deadline err t)"
  by (auto simp: after_failure_def session_now_idle split: prod.split client_error.split
      intro!: kept_and_then resume_until_idle)

lemma after_failure_breaks: "breaks (rm_broken (se_remote t)) (after_failure ops commit_id deadline err t)"
  by (auto simp: after_failure_def split: prod.split client_error.split intro!: breaks_and_then resume_until_breaks
      dest: session_now_broken)

lemma after_failure_quiet: "calm (do_client ops) \<Longrightarrow> quiet (after_failure ops commit_id deadline err t)"
  by (auto simp: after_failure_def split: prod.split client_error.split intro!: quiet_and_then resume_until_quiet)

lemma after_failure_applied:
  assumes "after_failure ops commit_id deadline err t = (Ok (Some v), t')"
  shows "confirmed ops parts commit_id (pg_page_size (se_pages t)) (rm_version (se_remote t)) v"
proof -
  have "\<exists>od u. resume_until (do_turns ops) ops (pg_page_size (se_pages t)) deadline t = (Ok od, u) \<and>
      op_version od = rm_version (se_remote u) + 1 \<and> op_last_commit_id od = commit_id \<and> v = op_version od"
    using assms by (auto simp: after_failure_def break_with_def and_then_Ok split: if_splits prod.splits client_error.splits)
  then obtain od u where od: "resume_until (do_turns ops) ops (pg_page_size (se_pages t)) deadline t = (Ok od, u)"
    and v: "op_version od = rm_version (se_remote u) + 1" "op_last_commit_id od = commit_id" "v = op_version od"
    by blast
  have "idle t u" using resume_until_idle [of t t "do_turns ops" ops] od by (metis idle_refl kept_value)
  then have "rm_version (se_remote u) = rm_version (se_remote t)"
    using identityD(3) by (auto simp: idle_def)
  then show ?thesis
    using v resume_until_resumed [OF od] unfolding confirmed_def by metis
qed

lemma commit_attempts_idle: "idle se t \<Longrightarrow> kept (idle se) (commit_attempts n ops parts commit_id deadline t)"
proof (induction n arbitrary: t)
  case (Suc n)
  then show ?case
    unfolding commit_attempts.simps
    by (intro kept_and_then rejoin_idle)
      (auto simp: on_client_idle split: prod.split res.split option.split intro!: kept_and_then after_failure_idle)
qed simp

lemma commit_attempts_breaks:
  "rm_broken (se_remote t) = k \<Longrightarrow> breaks k (commit_attempts n ops parts commit_id deadline t)"
proof (induction n arbitrary: t k)
  case (Suc n)
  have a: "breaks k (after_failure ops commit_id deadline err u)" if "rm_broken (se_remote u) = k" for k u err
    using after_failure_breaks [of u] that by simp
  have j: "breaks k (rejoin ops deadline t)" using rejoin_breaks [of t] Suc.prems by simp
  show ?case
    unfolding commit_attempts.simps
    by (rule breaks_and_then [OF j])
      (auto split: prod.split res.split option.split intro!: breaks_and_then a Suc.IH simp: on_client_broken)
qed simp

lemma commit_attempts_quiet:
  assumes "calm (do_client ops)"
  shows "quiet (commit_attempts n ops parts commit_id deadline t)"
proof (induction n arbitrary: t)
  case (Suc n)
  have "on_client (client_commit (do_client ops) parts) u \<noteq> (Panic, w)" for u w :: "('a, 'b) session"
    using client_commit_quiet [OF assms, of parts "se_client u"] by (auto simp: on_client_def quiet_iff split: prod.split)
  then show ?case
    unfolding commit_attempts.simps
    by (intro quiet_and_then rejoin_quiet [OF assms])
      (auto split: prod.split res.split option.split intro!: quiet_and_then after_failure_quiet [OF assms] Suc.IH)
qed simp

lemma commit_attempts_confirmed:
  assumes "commit_attempts n ops parts commit_id deadline t = (Ok v, t')"
  shows "confirmed ops parts commit_id (pg_page_size (se_pages t)) (rm_version (se_remote t)) v"
  using assms
proof (induction n arbitrary: t)
  case (Suc n)
  then obtain t1 where r: "rejoin ops deadline t = (Ok (), t1)"
    by (auto simp: and_then_Ok)
  have i1: "idle t t1" using rejoin_idle [of t t ops deadline] r by simp
  obtain q t2 where c: "on_client (client_commit (do_client ops) parts) t1 = (q, t2)" by fastforce
  have i2: "idle t t2" using on_client_idle [OF c] i1 by simp
  then have same: "se_pages t2 = se_pages t" "rm_version (se_remote t2) = rm_version (se_remote t)"
    using identityD(3) by (auto simp: idle_def)
  show ?case
  proof (cases q)
    case (Ok w)
    then have "client_commit (do_client ops) parts (se_client t1) = (Ok v, se_client t2)"
      using Suc.prems r c by (auto simp: on_client_def split: prod.splits)
    then show ?thesis by (auto simp: confirmed_def)
  next
    case (Err err)
    then obtain a t3 where a: "after_failure ops commit_id deadline err t2 = (Ok a, t3)"
      and rest: "(case a of Some v \<Rightarrow> (Ok v, t3) | None \<Rightarrow> commit_attempts n ops parts commit_id deadline t3) = (Ok v, t')"
      using Suc.prems r c by (auto simp: and_then_Ok)
    have "idle t t3" using after_failure_idle [OF i2, of ops commit_id deadline err] a by simp
    then have same3: "se_pages t3 = se_pages t" "rm_version (se_remote t3) = rm_version (se_remote t)"
      using identityD(3) by (auto simp: idle_def)
    show ?thesis
    proof (cases a)
      case None
      then show ?thesis using Suc.IH [of t3] rest same3 by simp
    next
      case (Some w)
      then show ?thesis using after_failure_applied [of ops commit_id deadline err t2 v] a rest same by simp
    qed
  qed (use Suc.prems r c in simp_all)
qed simp

subsection \<open>The outcome of a commit\<close>

text \<open>The session while a commit is pending, and after it was confirmed.\<close>

definition with_pending :: "bytes \<Rightarrow> ('w, 's) session \<Rightarrow> ('w, 's) session" where
  "with_pending commit_id se = se\<lparr>se_remote := (se_remote se)\<lparr>rm_pending_commit := Some commit_id\<rparr>\<rparr>"

definition advanced :: "nat \<Rightarrow> bytes \<Rightarrow> ('w, 's) session \<Rightarrow> ('w, 's) session" where
  "advanced version commit_id se =
     se\<lparr>se_remote := (se_remote se)\<lparr>rm_version := version, rm_last_commit_id := commit_id, rm_pending_commit := None\<rparr>,
        se_pages := snd (committed (se_pages se))\<rparr>"

lemma commit_session_cases:
  assumes "commit_session ops timeout se = (r, se')" and "calm (do_client ops)" and "pages_wf (se_pages se)"
  obtains (broken) b where "rm_broken (se_remote se) = Some b" and "r = Err b" and "se' = se"
  | (clean) "is_clean (se_pages se)" and "r = Ok ()" and "se' = se"
  | (fenced) "was_revoked (rm_db_id (se_remote se)) (rm_lease_epoch (se_remote se)) (se_client se)" and "r = Err Fenced"
      and "se' = se\<lparr>se_remote := (se_remote se)\<lparr>rm_broken := Some Fenced\<rparr>\<rparr>"
  | (failed) commit_id where "idle (with_pending commit_id se) se'" and "r \<noteq> Panic" and "\<not> is_ok r" and "breaks None (r, se')"
  | (stored) commit_id parts version t q t' p st where "\<not> is_clean (se_pages se)" and "rm_broken (se_remote se) = None"
      and "commit_parts (se_remote se) (se_pages se) commit_id (li_max_frame_bytes (cl_limits (se_client se))) = Ok parts"
      and "confirmed ops parts commit_id (pg_page_size (se_pages se)) (rm_version (se_remote se)) version"
      and "idle (with_pending commit_id se) t" and "rm_broken (se_remote t) = None"
      and "write_copy ops (fst (committed (se_pages se))) (advanced version commit_id t) = (q, t')"
      and "make_room (se_pages t') 0 (se_stats t') = (p, st)" and "r = q"
      and "se' = (if q = Ok () then t'\<lparr>se_pages := p, se_stats := st\<lparr>held_blocks := held p\<rparr>\<rparr> else t')"
proof -
  consider "rm_broken (se_remote se) \<noteq> None" | "rm_broken (se_remote se) = None" "is_clean (se_pages se)"
    | "rm_broken (se_remote se) = None" "\<not> is_clean (se_pages se)"
      "was_revoked (rm_db_id (se_remote se)) (rm_lease_epoch (se_remote se)) (se_client se)"
    | "rm_broken (se_remote se) = None" "\<not> is_clean (se_pages se)"
      "\<not> was_revoked (rm_db_id (se_remote se)) (rm_lease_epoch (se_remote se)) (se_client se)"
    by blast
  then show thesis
  proof cases
    case 1
    then obtain b where "rm_broken (se_remote se) = Some b" by blast
    moreover have "r = Err b" "se' = se" using assms(1) calculation by (simp_all add: commit_session_def)
    ultimately show thesis by (rule broken)
  next
    case 2
    then have "r = Ok ()" "se' = se" using assms(1) by (simp_all add: commit_session_def)
    then show thesis using clean 2 by blast
  next
    case 3
    then have "r = Err Fenced" "se' = se\<lparr>se_remote := (se_remote se)\<lparr>rm_broken := Some Fenced\<rparr>\<rparr>"
      using assms(1) by (simp_all add: commit_session_def break_with_def)
    then show thesis using fenced 3 by blast
  next
    case 4
    obtain commit_id w where rand: "co_random (do_client ops) (cl_world (se_client se)) = (commit_id, w)" by fastforce
    let ?cl = "(se_client se)\<lparr>cl_world := w\<rparr>"
    let ?t = "with_pending commit_id (se\<lparr>se_client := ?cl\<rparr>)"
    obtain dirty where dirty: "dirty_blocks (se_pages se) = Ok dirty" using dirty_blocks_ok [OF assms(3)] by metis
    then obtain parts where parts: "commit_parts (se_remote se) (se_pages se) commit_id
        (li_max_frame_bytes (cl_limits (se_client se))) = Ok parts"
      by (simp add: commit_parts_def)
    obtain started t1 where now: "session_now ops ?t = (started, t1)" by fastforce
    have pend: "idle (with_pending commit_id se) u = idle ?t u" for u
      by (simp add: idle_def with_pending_def)
    have i1: "idle ?t t1" "rm_broken (se_remote t1) = None"
      using session_now_idle [OF now, of ?t] session_now_broken [OF now] 4(1) by (simp_all add: with_pending_def)
    obtain q t where att: "commit_attempts (do_turns ops) ops parts commit_id (started + timeout) t1 = (q, t)" by fastforce
    have i: "idle ?t t" "breaks None (q, t)" "q \<noteq> Panic"
      using commit_attempts_idle [OF i1(1), of "do_turns ops" ops parts commit_id "started + timeout"]
        commit_attempts_breaks [OF i1(2), of "do_turns ops" ops parts commit_id "started + timeout"]
        commit_attempts_quiet [OF assms(2), of "do_turns ops" parts commit_id "started + timeout" t1] att
      by (simp_all add: quiet_iff)
    show thesis
    proof (cases q)
      case (Ok version)
      have same1: "se_pages t1 = se_pages se" "rm_version (se_remote t1) = rm_version (se_remote se)"
        using i1(1) identityD(3) [of "se_remote t1" "se_remote ?t"] by (simp_all add: idle_def with_pending_def)
      have conf: "confirmed ops parts commit_id (pg_page_size (se_pages se)) (rm_version (se_remote se)) version"
        using commit_attempts_confirmed [of "do_turns ops" ops parts commit_id "started + timeout" t1] att Ok same1 by simp
      obtain now2 t2 where now2: "session_now ops t = (now2, t2)" by fastforce
      define t3 where "t3 = tally (count_db_commit (length parts) (length dirty) (pg_page_size (se_pages t2)) (now2 - started)) t2"
      have t3: "idle ?t t3" "rm_broken (se_remote t3) = None"
        using session_now_idle [OF now2] session_now_broken [OF now2] i Ok by (simp_all add: t3_def)
      have pages: "se_pages t3 = se_pages se" "se_pages t2 = se_pages se"
        using t3(1) by (simp_all add: idle_def with_pending_def t3_def)
      obtain q' :: "(unit, broken) res" and t' where w: "write_copy ops (fst (committed (se_pages se))) (advanced version commit_id t3) = (q', t')"
        by fastforce
      obtain p st where m: "make_room (se_pages t') 0 (se_stats t') = (p, st)" by fastforce
      note w' = w [unfolded advanced_def, unfolded t3_def, simplified, unfolded pages(2)]
      have "r = q' \<and> se' = (if q' = Ok () then t'\<lparr>se_pages := p, se_stats := st\<lparr>held_blocks := held p\<rparr>\<rparr> else t')"
        using assms(1) 4 rand parts now att Ok now2 dirty pages w' m
        by (cases q') (auto simp: commit_session_def on_client_def on_world_def with_pending_def [symmetric]
            Let_def split_beta)
      then show thesis
        using stored [OF 4(2,1) parts conf _ t3(2) w m] t3(1) pend by blast
    next
      case (Err e)
      then have "r = Err e" "se' = t"
        using assms(1) 4 rand parts now att
        by (simp_all add: commit_session_def on_client_def on_world_def with_pending_def [symmetric])
      then show thesis using failed [of commit_id] i Err pend by simp
    next
      case Hang
      then have "r = Hang" "se' = t"
        using assms(1) 4 rand parts now att
        by (simp_all add: commit_session_def on_client_def on_world_def with_pending_def [symmetric])
      then show thesis using failed [of commit_id] i Hang pend by simp
    qed (use i in simp)
  qed
qed

end
