(* ===== verification/Commit_Facts.thy ===== *)
theory Commit_Facts
  imports Server_Commit
begin

text \<open>
  What commits of a database on the server guarantee (\<open>Database::commit\<close> of \<open>database.rs\<close>): how the dirty
  blocks are cut into parts, the two outcomes for a server that may answer anything, and for a server that
  applies the commits it confirms, that the file SQLite sees is the one stored.
\<close>

subsection \<open>Parts\<close>

lemma commit_parts_shape:
  assumes "commit_parts rm p commit_id max_frame_bytes = Ok parts"
  obtains dirty pieces where "dirty_blocks p = Ok dirty"
    and "pieces = (if dirty = [] then [[]]
      else chunks (per_part max_frame_bytes (pg_page_size p)) (map (\<lambda>(i, d). \<lparr>bm_index = i, bm_data = d\<rparr>) dirty))"
    and "length parts = length pieces"
    and "\<forall>k < length pieces. parts ! k = \<lparr>cm_db_id = rm_db_id rm, cm_commit_id = commit_id,
        cm_lease_epoch = rm_lease_epoch rm, cm_base_version = rm_version rm, cm_page_count = pg_page_count p,
        cm_blocks = pieces ! k, cm_more = k + 1 < length pieces, cm_part = k mod 2 ^ 32\<rparr>"
    and "map cm_blocks parts = pieces"
proof -
  obtain dirty where d: "dirty_blocks p = Ok dirty"
    using assms by (cases "dirty_blocks p") (simp_all add: commit_parts_def)
  define pieces where "pieces = (if dirty = [] then [[]]
    else chunks (per_part max_frame_bytes (pg_page_size p)) (map (\<lambda>(i, d). \<lparr>bm_index = i, bm_data = d\<rparr>) dirty))"
  have parts: "parts = map (\<lambda>(part, bs). \<lparr>cm_db_id = rm_db_id rm, cm_commit_id = commit_id, cm_lease_epoch = rm_lease_epoch rm,
      cm_base_version = rm_version rm, cm_page_count = pg_page_count p, cm_blocks = bs,
      cm_more = part + 1 < length pieces, cm_part = part mod 2 ^ 32\<rparr>) (enumerate 0 pieces)"
    using assms d by (simp add: commit_parts_def Let_def pieces_def)
  have "map cm_blocks parts = map snd (enumerate 0 pieces)"
    unfolding parts by (simp add: comp_def split_beta)
  then show thesis
    by (intro that [OF d pieces_def]) (simp_all add: parts nth_enumerate_eq)
qed

lemma commit_parts_blocks:
  assumes "commit_parts rm p commit_id max_frame_bytes = Ok parts" and "dirty_blocks p = Ok dirty"
  shows "concat (map cm_blocks parts) = map (\<lambda>(i, d). \<lparr>bm_index = i, bm_data = d\<rparr>) dirty"
  by (rule commit_parts_shape [OF assms(1)]) (use assms(2) in \<open>simp split: if_splits\<close>)

lemma per_part_fits:
  assumes "COMMIT_FRAME_OVERHEAD + page_size + COMMIT_BLOCK_OVERHEAD \<le> max_frame_bytes"
    and "n \<le> per_part max_frame_bytes page_size"
  shows "COMMIT_FRAME_OVERHEAD + n * (page_size + COMMIT_BLOCK_OVERHEAD) \<le> max_frame_bytes"
proof -
  let ?room = "max_frame_bytes - COMMIT_FRAME_OVERHEAD" and ?each = "page_size + COMMIT_BLOCK_OVERHEAD"
  have each: "0 < ?each" by (simp add: COMMIT_BLOCK_OVERHEAD_def)
  have "?each \<le> ?room" using assms(1) by simp
  then have "1 \<le> ?room div ?each" using each by (simp add: div_greater_zero_iff Suc_le_eq del: add_gr_0)
  then have "n \<le> ?room div ?each" using assms(2) by (simp add: per_part_def)
  then have "n * ?each \<le> ?room"
    using div_times_less_eq_dividend [of ?room ?each] mult_le_mono1 [of n "?room div ?each" ?each] by linarith
  then show ?thesis using assms(1) by linarith
qed

text \<open>C22: the parts of a commit carry the dirty blocks in index order, each exactly once.  They are numbered
  from 0, all but the last announce another part, all name the same commit, lease, base version and size, and
  there is at least one.  If a frame has room for one block, no part exceeds the frame size of the server.\<close>

theorem commit_parts_spec:
  assumes "pages_wf p"
  shows "\<exists>parts dirty. commit_parts rm p commit_id max_frame_bytes = Ok parts \<and> dirty_blocks p = Ok dirty \<and> parts \<noteq> [] \<and>
    concat (map cm_blocks parts) = map (\<lambda>(i, d). \<lparr>bm_index = i, bm_data = d\<rparr>) dirty \<and>
    (\<forall>k < length parts. cm_part (parts ! k) = k mod 2 ^ 32 \<and> (cm_more (parts ! k) \<longleftrightarrow> k + 1 < length parts) \<and>
       cm_commit_id (parts ! k) = commit_id \<and> cm_db_id (parts ! k) = rm_db_id rm \<and>
       cm_lease_epoch (parts ! k) = rm_lease_epoch rm \<and> cm_base_version (parts ! k) = rm_version rm \<and>
       cm_page_count (parts ! k) = pg_page_count p \<and>
       (COMMIT_FRAME_OVERHEAD + pg_page_size p + COMMIT_BLOCK_OVERHEAD \<le> max_frame_bytes \<longrightarrow>
          COMMIT_FRAME_OVERHEAD + length (cm_blocks (parts ! k)) * (pg_page_size p + COMMIT_BLOCK_OVERHEAD) \<le> max_frame_bytes))"
proof -
  obtain dirty where d: "dirty_blocks p = Ok dirty" using dirty_blocks_ok [OF assms] by metis
  then obtain parts where parts: "commit_parts rm p commit_id max_frame_bytes = Ok parts"
    by (simp add: commit_parts_def)
  obtain dirty' pieces where pieces: "dirty_blocks p = Ok dirty'" "pieces = (if dirty' = [] then [[]]
      else chunks (per_part max_frame_bytes (pg_page_size p)) (map (\<lambda>(i, d). \<lparr>bm_index = i, bm_data = d\<rparr>) dirty'))"
    and n: "length parts = length pieces"
    and nth: "\<forall>k < length pieces. parts ! k = \<lparr>cm_db_id = rm_db_id rm, cm_commit_id = commit_id,
        cm_lease_epoch = rm_lease_epoch rm, cm_base_version = rm_version rm, cm_page_count = pg_page_count p,
        cm_blocks = pieces ! k, cm_more = k + 1 < length pieces, cm_part = k mod 2 ^ 32\<rparr>"
    and "map cm_blocks parts = pieces"
    by (rule commit_parts_shape [OF parts])
  have "length piece \<le> per_part max_frame_bytes (pg_page_size p)" if "piece \<in> set pieces" for piece
    using that chunks_bounds [of "per_part max_frame_bytes (pg_page_size p)" piece]
    by (auto simp: pieces(2) per_part_def split: if_splits)
  then have "COMMIT_FRAME_OVERHEAD + length (pieces ! k) * (pg_page_size p + COMMIT_BLOCK_OVERHEAD) \<le> max_frame_bytes"
    if "COMMIT_FRAME_OVERHEAD + pg_page_size p + COMMIT_BLOCK_OVERHEAD \<le> max_frame_bytes" "k < length pieces" for k
    using that by (intro per_part_fits) simp_all
  moreover have "pieces \<noteq> []" by (simp add: pieces(2))
  then have "parts \<noteq> []" using n by auto
  ultimately show ?thesis
    using parts d n nth commit_parts_blocks [OF parts d] by (intro exI [of _ parts] exI [of _ dirty]) simp
qed

subsection \<open>Any server\<close>

lemma write_copy_no_error: "write_copy ops is se = (r, se') \<Longrightarrow> r \<noteq> Err e"
  by (auto simp: write_copy_def Let_def split: if_splits local_copy.splits prod.splits bool.splits res.splits)


subsection \<open>A server that applies what it confirms\<close>

text \<open>
  The blocks after the parts of a commit were applied, and the promise of the server: a commit it confirms is
  the next version, which has the blocks of the parts and is otherwise the version the commit is based on.
\<close>

definition applied :: "(nat \<Rightarrow> bytes) \<Rightarrow> commit_msg list \<Rightarrow> nat \<Rightarrow> bytes" where
  "applied src parts i =
     (case map_of (map (\<lambda>b. (bm_index b, bm_data b)) (concat (map cm_blocks parts))) i of Some d \<Rightarrow> d | None \<Rightarrow> src i)"

definition server_applies ::
  "('w, 's) db_ops \<Rightarrow> (nat \<Rightarrow> nat \<Rightarrow> bytes) \<Rightarrow> 's remote \<Rightarrow> pages \<Rightarrow> nat \<Rightarrow> bool" where
  "server_applies ops hist rm p max_frame_bytes \<longleftrightarrow>
     (\<forall>commit_id parts v. commit_parts rm p commit_id max_frame_bytes = Ok parts \<and>
        confirmed ops parts commit_id (pg_page_size p) (rm_version rm) v \<longrightarrow>
        v = rm_version rm + 1 \<and> (\<forall>i < pg_page_count p. hist v i = applied (hist (rm_version rm)) parts i))"

lemma applied_view:
  assumes "commit_parts rm p commit_id max_frame_bytes = Ok parts" and "pages_wf p" and "agrees src p"
    and "asks_source p \<or> block_at p i \<noteq> None"
  shows "applied src parts i = view src p i"
proof -
  obtain dirty where d: "dirty_blocks p = Ok dirty"
    and "distinct (map fst dirty)" and m: "\<forall>i. map_of dirty i = (if i |\<in>| pg_dirty p then block_at p i else None)"
    and "set (map fst dirty) = fset (pg_dirty p)"
    using dirty_blocks_ok [OF assms(2)] .
  have "map (\<lambda>b. (bm_index b, bm_data b)) (concat (map cm_blocks parts)) = dirty"
    unfolding commit_parts_blocks [OF assms(1) d] by (simp add: comp_def split_beta)
  then have "applied src parts i = (case (if i |\<in>| pg_dirty p then block_at p i else None) of Some d \<Rightarrow> d | None \<Rightarrow> src i)"
    using m by (simp add: applied_def)
  then show ?thesis
    using assms(3,4) pages_wfD(4) [OF assms(2), of i]
    by (cases "block_at p i") (auto simp: view_def block_at_def agrees_def)
qed

lemma committed_job_ok:
  assumes "pages_wf p" and "agrees (hist v) p" and "asks_source p \<or> (\<forall>i < pg_page_count p. block_at p i \<noteq> None)"
    and "\<forall>i < pg_page_count p. hist w i = view (hist v) p i"
    and "head_ok (session_head ((se_remote t)\<lparr>rm_version := w\<rparr>) (pg_page_size p) (pg_page_count p))"
    and "se_pages t = p"
  shows "job_ok hist (pg_page_size p) v (copy_job (fst (committed p)) (advanced w commit_id t))"
proof -
  let ?h = "session_head ((se_remote t)\<lparr>rm_version := w\<rparr>) (pg_page_size p) (pg_page_count p)"
  let ?bs = "blocks_to_copy (snd (committed p)) (fst (committed p))"
  have "copy_head_of (se_remote (advanced w commit_id t)) (snd (committed p)) = ?h"
    using assms(5) by (auto simp: advanced_def committed_def copy_head_of_def session_head_def head_ok_def MAX_PAGE_SIZE_def)
  then have job: "copy_job (fst (committed p)) (advanced w commit_id t) = (?h, ?bs)"
    by (simp add: copy_job_def advanced_def assms(6))
  have set: "set ?bs = {(i, d). i |\<in>| pg_dirty p \<and> block_at p i = Some d}"
    by (simp add: set_blocks_to_copy committed_def sorted_list_of_fset.rep_eq block_at_def)
  have there: "i |\<in>| pg_dirty p \<Longrightarrow> \<exists>d. block_at p i = Some d" for i
    using pages_wfD(4) [OF assms(1), of i] by (auto simp: block_at_def)
  have blocks: "length d = pg_page_size p \<and> d = hist w i" if "(i, d) \<in> set ?bs" for i d
    using that assms(1,2,4) unfolding set
    by (auto simp: block_at_def agrees_def view_def dest: pages_wfD(2))
  have "i \<in> fst ` set ?bs \<or> hist w i = hist v i" if i: "i < pg_page_count p" for i
  proof (cases "i |\<in>| pg_dirty p")
    case True
    then show ?thesis using there [OF True] unfolding set by force
  next
    case False
    then show ?thesis
      using i assms(2-4) by (cases "block_at p i") (auto simp: view_def block_at_def agrees_def)
  qed
  then show ?thesis
    unfolding job job_ok_def fst_conv snd_conv session_head_simps using assms(5) blocks by fastforce
qed

lemma idle_server:
  assumes "idle (with_pending commit_id se) t"
  shows "se_pages t = se_pages se" and "rm_local (se_remote t) = rm_local (se_remote se)"
    and "rm_version (se_remote t) = rm_version (se_remote se)" and "rm_db_id (se_remote t) = rm_db_id (se_remote se)"
    and "session_head (se_remote t) = session_head (se_remote se)"
    and "session_head ((se_remote t)\<lparr>rm_version := w\<rparr>) = session_head ((se_remote se)\<lparr>rm_version := w\<rparr>)"
proof -
  let ?p = "with_pending commit_id se"
  have i: "identity (se_remote t) = identity (se_remote ?p)" using assms by (simp add: idle_def)
  note same = identityD [OF i]
  show "se_pages t = se_pages se" "rm_local (se_remote t) = rm_local (se_remote se)"
    using assms by (simp_all add: idle_def with_pending_def)
  show "rm_version (se_remote t) = rm_version (se_remote se)" "rm_db_id (se_remote t) = rm_db_id (se_remote se)"
    "session_head (se_remote t) = session_head (se_remote se)"
    "session_head ((se_remote t)\<lparr>rm_version := w\<rparr>) = session_head ((se_remote se)\<lparr>rm_version := w\<rparr>)"
    using same by (simp_all add: with_pending_def session_head_def fun_eq_iff)
qed

lemma stored_coherent:
  assumes "server_inv ops good holds hist cl db" and "asks_source (db_pages db) \<or> (\<forall>i < pg_page_count (db_pages db). block_at (db_pages db) i \<noteq> None)"
    and "pg_dirty (db_pages db) \<noteq> {||} \<or> rm_local (db_remote db) = No_copy"
    and "do_native ops \<or> (\<forall>b. rm_local (db_remote db) \<noteq> Writing b)"
    and "head_ok (session_head ((db_remote db)\<lparr>rm_version := w\<rparr>) (pg_page_size (db_pages db)) (pg_page_count (db_pages db)))"
    and "\<forall>i < pg_page_count (db_pages db). hist w i = view (hist (rm_version (db_remote db))) (db_pages db) i"
    and "idle (with_pending commit_id (session_of (cl, db_remote db) (db_pages db) st)) t"
    and "write_copy ops (fst (committed (db_pages db))) (advanced w commit_id t) = (q, t')"
  shows "q = Ok ()" and "copy_coherent good holds hist (pg_page_size (db_pages db)) w (rm_local (se_remote t'))"
proof -
  let ?v = "rm_version (db_remote db)" and ?ps = "pg_page_size (db_pages db)"
  note inv = server_invD [OF assms(1)] and same = idle_server [OF assms(7)]
  have store: "local_store (do_store ops) good holds" and coh: "copy_coherent good holds hist ?ps ?v (rm_local (db_remote db))"
    using inv(4) by (simp_all add: fetch_serves_def)
  have loc: "rm_local (se_remote (advanced w commit_id t)) = rm_local (db_remote db)"
    "rm_version (se_remote (advanced w commit_id t)) = w"
    using same(2) by (simp_all add: advanced_def session_of_def)
  have "q = Ok () \<and> copy_coherent good holds hist ?ps w (rm_local (se_remote t'))"
  proof (cases "rm_local (db_remote db) = No_copy")
    case True
    then have "q = Ok ()" "t' = advanced w commit_id t" using assms(8) loc by (simp_all add: write_copy_def)
    then show ?thesis using True loc by (simp add: copy_coherent_def)
  next
    case False
    have job: "job_ok hist ?ps ?v (copy_job (fst (committed (db_pages db))) (advanced w commit_id t))"
      using inv(2,3) assms(2,5,6) same by (intro committed_job_ok) (simp_all add: session_of_def)
    have "fst (committed (db_pages db)) \<noteq> []"
      using False assms(3) by (auto simp: committed_def sorted_list_of_fset.rep_eq)
    then show ?thesis
      using local_store.write_copy_coherent [OF store _ refl assms(8) job] coh assms(4) loc by simp
  qed
  then show "q = Ok ()" "copy_coherent good holds hist ?ps w (rm_local (se_remote t'))" by blast+
qed


end
