(* ===== verification/Sample_Server.thy ===== *)
theory Sample_Server
  imports Commit_Facts
begin

text \<open>
  A concrete server and a database on it: a page server that serves blocks \<open>[5, 6]\<close> and acknowledges a commit
  as version 8, with the local copy in an empty file.  It instantiates the properties of databases on the
  server (\<open>Server_Files\<close> and \<open>Commit_Facts\<close>) and the hypotheses they make about the server and the store.
\<close>

subsection \<open>Frames come from the decoder\<close>

lemma receive_loop_decoded:
  "receive_loop n ops cl = (Ok f, cl') \<Longrightarrow> \<exists>d. co_decode ops d = Some f"
  by (induction n arbitrary: cl) (auto split: if_splits prod.splits res.splits option.splits)

lemma client_receive_decoded: "client_receive ops cl = (Ok f, cl') \<Longrightarrow> \<exists>d. co_decode ops d = Some f"
  by (auto simp: client_receive_def dest: receive_loop_decoded)

lemma receives_decoded: "receives ops cl fs cl' \<Longrightarrow> f \<in> set fs \<Longrightarrow> \<exists>d. co_decode ops d = Some f"
  by (induction rule: receives.induct) (auto dest: client_receive_decoded)

lemma fetch_loop_content:
  assumes "\<forall>d f p. co_decode ops d = Some f \<and> sf_body f = Some (Pages_body p) \<longrightarrow> set (pm_blocks p) \<subseteq> S"
    and "fetch_loop n ops rid expected ps blocks cl = (Ok bs, cl')" and "snd ` set blocks \<subseteq> S"
  shows "snd ` set bs \<subseteq> S"
  using assms(2,3)
proof (induction n arbitrary: blocks cl)
  case (Suc n)
  obtain f c where f: "client_receive ops cl = (Ok f, c)"
    using Suc.prems(1) by (auto simp: and_then_Ok)
  obtain d where d: "co_decode ops d = Some f" using client_receive_decoded [OF f] ..
  have new: "snd ` set (blocks @ frame_blocks p) \<subseteq> S" if "sf_body f = Some (Pages_body p)" for p
  proof -
    have "snd ` set (frame_blocks p) = set (map snd (enumerate 0 (pm_blocks p)))"
      unfolding frame_blocks_def set_map image_image by (rule image_cong) auto
    also have "\<dots> = set (pm_blocks p)" by (simp only: map_snd_enumerate)
    finally have "snd ` set (frame_blocks p) \<subseteq> S" using assms(1) d that by blast
    then show ?thesis using Suc.prems(2) by (simp add: image_Un)
  qed
  show ?case
    using Suc.prems f Suc.IH [of _ c] new
    by (auto simp: Let_def image_subset_iff split: if_splits option.splits server_body.splits)
qed simp

lemma fetch_blocks_content:
  assumes "\<forall>d f p. co_decode ops d = Some f \<and> sf_body f = Some (Pages_body p) \<longrightarrow> set (pm_blocks p) \<subseteq> S"
    and "fetch_blocks ops fetch ps cl = (Ok bs, cl')"
  shows "set bs \<subseteq> S"
  using assms(2) fetch_loop_content [OF assms(1)]
  by (fastforce simp: fetch_blocks_def fetch_frames_def and_then_Ok)

lemma client_commit_decoded:
  assumes "client_commit ops parts cl = (Ok v, cl')"
  shows "\<exists>d f ack. co_decode ops d = Some f \<and> sf_body f = Some (CommitAck_body ack) \<and> ca_version ack = v"
proof -
  obtain ids mid where "commit_loop (co_turns ops) ops ids None mid = (Ok v, cl')"
    using assms by (auto simp: client_commit_def and_then_Ok split: if_splits)
  then obtain fs f ack where f: "receives ops mid (fs @ [f]) cl'" "sf_body f = Some (CommitAck_body ack)" "ca_version ack = v"
    using commit_loop_receives by blast
  then show ?thesis using receives_decoded [OF f(1), of f] by auto
qed

subsection \<open>The file store never panics when read\<close>

lemma os_quiet: "quiet (os_try s)" "quiet (os_read_exact off n s)" "quiet (fs_open_file s)"
proof -
  show t: "quiet (os_try s)" for s
    by (auto simp: os_try_def split: prod.split option.split)
  show "quiet (os_read_exact off n s)" "quiet (fs_open_file s)"
    by (auto simp: os_read_exact_def fs_open_file_def intro!: quiet_and_then t split: option.split)
qed

lemma header_quiet: "quiet (read_header s)" "quiet (read_present h s)"
  by (auto simp: read_header_def read_present_def Let_def intro!: quiet_and_then os_quiet)

lemma read_blocks_length: "safe (\<lambda>_. True) (\<lambda>bs _. length bs = n) (read_blocks n ps at s)"
proof (induction n arbitrary: at s)
  case (Suc n)
  show ?case
    unfolding read_blocks.simps
    by (rule safe_and_then [OF os_quiet(2)], rule safe_and_then [OF Suc.IH]) simp
qed simp

lemma fs_read_sane: "safe (\<lambda>_. True) (\<lambda>bs _. length bs \<le> count) (fs_read first count s)"
proof -
  have run: "length (takeWhile P [first..<min (first + count) k]) \<le> count" for P k
    using length_takeWhile_le [of P "[first..<min (first + count) k]"] by simp
  have blocks: "safe (\<lambda>_. True) (\<lambda>bs _. length bs \<le> count) (read_blocks n ps at s)" if "n \<le> count" for n ps at s
    by (rule safe_mono [OF read_blocks_length]) (use that in auto)
  show ?thesis
    unfolding fs_read_def Let_def
    by (rule safe_and_then [OF header_quiet(1)])
      (auto split: option.split intro!: safe_and_then [OF header_quiet(2)] safe_and_then [OF os_quiet(3)]
        safe_and_then [OF os_quiet(1)] safe_if blocks run)
qed

subsection \<open>The sample\<close>

definition sample_ops :: "(bytes list, file_store) db_ops" where
  "sample_ops = \<lparr>do_client = sample_client_ops, do_store = file_ops, do_native = True, do_spawned = True,
     do_schedule = [], do_turns = 3\<rparr>"

definition sample_remote :: "file_store remote" where
  "sample_remote = \<lparr>rm_db_id = [97], rm_subject = [98], rm_version = 7, rm_lease_id = [], rm_lease_epoch = 3,
     rm_last_commit_id = [1], rm_pending_commit = None, rm_local = Ready (fs_new [] []), rm_broken = None, rm_login = 0\<rparr>"

definition sample_database :: "file_store database" where
  "sample_database = \<lparr>db_pages = (pages_new 2 2 (Some 1) (Some 4))
      \<lparr>pg_blocks := fmupd 1 \<lparr>blk_data = [5, 6], blk_used = 0\<rparr> fmempty, pg_dirty := {|1|}, pg_stable_page_count := 1\<rparr>,
     db_remote = sample_remote\<rparr>"

definition sample_hist :: "nat \<Rightarrow> nat \<Rightarrow> bytes" where
  "sample_hist v i = [5, 6]"

lemma sample_serves: "serves_history sample_client_ops [97] sample_hist 2"
proof -
  have "\<forall>d f p. co_decode sample_client_ops d = Some f \<and> sf_body f = Some (Pages_body p) \<longrightarrow> set (pm_blocks p) \<subseteq> {[5, 6]}"
    by (auto simp: sample_frame_def split: if_splits)
  note content = fetch_blocks_content [OF this]
  have "bs = map (sample_hist v) [first..<first + n]"
    if f: "fetch_blocks sample_client_ops \<lparr>fe_db_id = [97], fe_version = v, fe_first_block = first, fe_count = n, fe_ranges = []\<rparr>
      2 cl = (Ok bs, cl')" for v first n cl bs cl'
    using content [OF f] safeD [OF fetch_blocks_safe [OF calm_sample] f]
    by (intro nth_equalityI) (auto simp: sample_hist_def subset_iff dest!: nth_mem [of _ bs])
  then show ?thesis by (simp add: serves_history_def sample_hist_def)
qed

lemma sample_sane: "store_sane sample_ops"
  using fs_read_sane by (fastforce simp: store_sane_def sample_ops_def file_ops_def dest: safeD)

lemma sample_server_inv:
  "server_inv sample_ops file_good (\<lambda>s. copy_in (fs_bytes s)) sample_hist cl sample_database"
proof -
  have copy: "copy_coherent file_good (\<lambda>s. copy_in (fs_bytes s)) sample_hist 2 7 (Ready (fs_new [] []))"
    using empty_file
    by (simp add: copy_coherent_def file_good_def fs_new_def header_atomic_def media_def fs_bytes_def fits_def coherent_def)
  have head: "head_ok (session_head sample_remote 2 1)"
    by (simp add: head_ok_def sample_remote_def U64_def MAX_PAGE_SIZE_def MAX_PAGE_COUNT_def HEADER_BYTES_def
        valid_utf8_ascii)
  have "fetch_serves sample_ops file_good (\<lambda>s. copy_in (fs_bytes s)) sample_hist 2 1 (cl, sample_remote)"
    using copy head sample_serves file_copy.local_store_axioms
    by (simp add: fetch_serves_def sample_ops_def) (simp add: sample_remote_def)
  then show ?thesis
    using calm_sample sample_sane
    by (auto simp: server_inv_def fetch_good_def sample_database_def pages_wf_def agrees_def sample_hist_def U64_def
        split: if_splits) (simp add: sample_ops_def)
qed

lemma sample_size: "db_file_size sample_database = 4" "pg_page_size (db_pages sample_database) = 2"
    "rm_broken (db_remote sample_database) = None" "asks_source (db_pages sample_database)"
    "pg_dirty (db_pages sample_database) \<noteq> {||}" "rm_version (db_remote sample_database) = 7"
    "pg_page_count (db_pages sample_database) = 2" "do_native sample_ops" "do_client sample_ops = sample_client_ops"
  by (simp_all add: db_file_size_def sample_database_def pages_file_size_def sample_remote_def asks_source_def sample_ops_def)

lemma sample_applies:
  "server_applies sample_ops sample_hist (db_remote sample_database) (db_pages sample_database) n"
proof -
  let ?p = "db_pages sample_database" and ?rm = "db_remote sample_database"
  have dirty: "dirty_blocks ?p = Ok [(1, [5, 6])]"
    by (simp add: sample_database_def dirty_blocks_def sorted_list_of_fset.rep_eq)
  have "v = 8" if "client_commit sample_client_ops parts cl = (Ok v, cl')" for parts cl v cl'
    using client_commit_decoded [OF that] by (auto simp: sample_frame_def split: if_splits)
  then have "v = 8" if "confirmed sample_ops parts commit_id 2 7 v" for parts commit_id v
    using that by (auto simp: confirmed_def sample_ops_def)
  moreover have "applied (\<lambda>i. [5, 6]) parts i = [5, 6]" if "commit_parts ?rm ?p commit_id n = Ok parts" for parts commit_id i
    using commit_parts_blocks [OF that dirty] by (simp add: applied_def)
  ultimately show ?thesis
    unfolding server_applies_def sample_hist_def sample_size by force
qed

subsection \<open>The properties on the sample\<close>

lemma sample_file: "server_file sample_hist sample_database = [5, 6, 5, 6]"
  by (simp add: server_file_def file_of_def file_byte_def pages_file_size_def view_def block_at_def asks_source_def
      sample_hist_def sample_database_def upt_rec numeral_2_eq_2 [symmetric])

theorem server_read_refines_witness:
  "case db_read sample_ops sample_database (sample_client [[2]]) [0, 0, 0] 1 default_stats of (r, buf, db, cl, _) \<Rightarrow>
     r \<noteq> Panic \<and> server_file sample_hist db = [5, 6, 5, 6] \<and> (r = Ok True \<longrightarrow> buf = [6, 5, 6])"
  using server_read_refines [OF sample_server_inv, of "sample_client [[2]]" "[0, 0, 0]" 1 default_stats]
  by (auto simp: sample_file file_read_def split: prod.split)


theorem server_truncate_refines_witness:
  "case db_truncate sample_database 2 of (r, db) \<Rightarrow>
     r = Ok () \<and> server_file sample_hist db = file_truncate 2 [5, 6, 5, 6] 2"
  using server_truncate_refines [OF sample_server_inv, where n = 2 and cl = "sample_client []"]
  by (auto simp: sample_file sample_size U64_def split: prod.split)

theorem commit_parts_spec_witness:
  "\<exists>parts dirty. commit_parts sample_remote (db_pages sample_database) [9] 300 = Ok parts \<and>
     dirty_blocks (db_pages sample_database) = Ok dirty \<and> parts \<noteq> [] \<and>
     concat (map cm_blocks parts) = map (\<lambda>(i, d). \<lparr>bm_index = i, bm_data = d\<rparr>) dirty"
  using commit_parts_spec [OF server_invD(2) [OF sample_server_inv], of sample_remote "[9]" 300] by blast



end
