(* ===== verification/Server_Open.thy ===== *)
theory Server_Open
  imports Sample_Server
begin

text \<open>
  Opening and healing a database on the server (\<open>Database::open\<close>, \<open>heal\<close>, and \<open>Remote::fill\<close>,
  \<open>take_copy\<close>, \<open>catch_copy_up\<close> of \<open>database.rs\<close>).  For a server that keeps its promises, both end with the
  invariant that reading, writing and committing rely on, and with the file of the server's version, whether
  the blocks come from the local copy, a copy that was caught up, or the server.
\<close>

subsection \<open>Promises of the server\<close>

text \<open>
  The change log names every block that differs between two versions, and blocks fetched by range are those of
  the version and lie in the ranges asked for.
\<close>

definition honest_changes :: "'w client_ops \<Rightarrow> rstring \<Rightarrow> (nat \<Rightarrow> nat \<Rightarrow> bytes) \<Rightarrow> bool" where
  "honest_changes ops db_id hist \<longleftrightarrow>
     (\<forall>from cl changes cl' i. client_changes ops db_id from cl = (Ok changes, cl') \<and> cs_complete changes \<and>
        i \<notin> set (cs_blocks changes) \<longrightarrow> hist (cs_to_version changes) i = hist from i)"

definition honest_ranges :: "'w client_ops \<Rightarrow> rstring \<Rightarrow> (nat \<Rightarrow> nat \<Rightarrow> bytes) \<Rightarrow> nat \<Rightarrow> bool" where
  "honest_ranges ops db_id hist ps \<longleftrightarrow>
     (\<forall>v rs cl bs cl' x. fetch_ranges ops db_id v rs ps cl = (Ok bs, cl') \<and> x \<in> set bs \<longrightarrow>
        snd x = hist v (fst x) \<and> (\<exists>r \<in> set rs. fst r \<le> fst x \<and> fst x < fst r + snd r))"

definition honest_server :: "'w client_ops \<Rightarrow> rstring \<Rightarrow> (nat \<Rightarrow> nat \<Rightarrow> bytes) \<Rightarrow> nat \<Rightarrow> bool" where
  "honest_server ops db_id hist ps \<longleftrightarrow>
     serves_history ops db_id hist ps \<and> honest_changes ops db_id hist \<and> honest_ranges ops db_id hist ps"

subsection \<open>Sessions that only load\<close>

text \<open>The blocks in memory are blocks of the source, and none is modified.\<close>

definition stocked :: "(nat \<Rightarrow> bytes) \<Rightarrow> pages \<Rightarrow> bool" where
  "stocked src p \<longleftrightarrow> pages_wf p \<and> agrees src p \<and> is_clean p \<and> pg_page_count p = pg_stable_page_count p"

lemma stocked_keep:
  assumes "stocked src p" and "i < pg_page_count p" and "d = src i" and "length d = pg_page_size p"
  shows "stocked src (keep p i d)"
  using assms same_shape_keep [of p i d]
  by (auto simp: stocked_def pages_wf_keep agrees_def is_clean_def same_shape_def keep_lookup split: if_splits)

lemma stocked_keep_fold:
  assumes "stocked src p" and "\<forall>x \<in> set bs. fst x < pg_page_count p \<and> snd x = src (fst x) \<and> length (snd x) = pg_page_size p"
  shows "stocked src (fold (\<lambda>(i, d) p. keep p i d) bs p) \<and> same_shape p (fold (\<lambda>(i, d) p. keep p i d) bs p)"
  using assms
proof (induction bs arbitrary: p)
  case (Cons x bs)
  let ?q = "keep p (fst x) (snd x)"
  have q: "stocked src ?q" "same_shape p ?q"
    using Cons.prems stocked_keep same_shape_keep by auto
  have bs: "\<forall>x \<in> set bs. fst x < pg_page_count ?q \<and> snd x = src (fst x) \<and> length (snd x) = pg_page_size ?q"
    unfolding same_shapeD(1,2) [OF q(2)] using Cons.prems(2) by (meson list.set_intros(2))
  show ?case
    using Cons.IH [OF q(1) bs] same_shape_trans [OF q(2)] by (simp add: split_beta)
qed simp

lemma stocked_keep_all:
  assumes "stocked src p" and "\<forall>k < length bs. bs ! k = src (first + k)" and "first + length bs \<le> pg_page_count p"
    and "\<forall>i. length (src i) = pg_page_size p"
  shows "stocked src (keep_all p first bs) \<and> same_shape p (keep_all p first bs)"
  using assms
proof (induction bs arbitrary: p first)
  case (Cons d ds)
  have d: "d = src first" using Cons.prems(2) by (metis add_0_right length_Cons nth_Cons_0 zero_less_Suc)
  have q: "stocked src (keep p first d)" "same_shape p (keep p first d)"
    using Cons.prems d by (auto intro!: stocked_keep same_shape_keep)
  have "\<forall>k < length ds. ds ! k = src (first + 1 + k)"
    using Cons.prems(2) by (metis Suc_less_eq add.assoc length_Cons nth_Cons_Suc plus_1_eq_Suc)
  then show ?case
    using Cons.IH [OF q(1), of "first + 1"] Cons.prems(3,4) q(2) same_shape_trans [OF q(2)]
    by (simp add: same_shape_def)
qed simp

lemma stocked_make_room:
  assumes "stocked src p" and "make_room p k st = (q, st')"
  shows "stocked src q" and "same_shape p q" and "pg_cap p = None \<Longrightarrow> q = p"
proof -
  show "same_shape p q" by (rule same_shape_make_room [OF assms(2)])
  show none: "q = p" if "pg_cap p = None"
    using that assms(2) by (simp add: make_room_eq)
  show "stocked src q"
  proof (cases "pg_cap p")
    case None
    then show ?thesis using none assms(1) by simp
  next
    case (Some c)
    then show ?thesis
      using assms view_make_room [OF _ assms(2), of src] pages_wf_make_room [OF _ assms(2)] make_room_frame [OF assms(2)]
      by (auto simp: stocked_def is_clean_def asks_source_def)
  qed
qed

text \<open>
  \<open>semi\<close>: a session that opens database \<open>rm\<close> with blocks shaped like \<open>p\<close>, before the local copy is checked.
  \<open>ready\<close>: the same with a copy that holds blocks of the version opened.
\<close>

definition semi ::
  "('s \<Rightarrow> bool) \<Rightarrow> (nat \<Rightarrow> nat \<Rightarrow> bytes) \<Rightarrow> 's remote \<Rightarrow> pages \<Rightarrow> ('w, 's) session \<Rightarrow> bool" where
  "semi good hist rm p se \<longleftrightarrow> identity (se_remote se) = identity rm \<and> same_shape p (se_pages se) \<and>
     stocked (hist (rm_version rm)) (se_pages se) \<and>
     (case rm_local (se_remote se) of No_copy \<Rightarrow> True | Ready s \<Rightarrow> good s | Writing _ \<Rightarrow> False)"

definition ready ::
  "('s \<Rightarrow> bool) \<Rightarrow> ('s \<Rightarrow> copy_state) \<Rightarrow> (nat \<Rightarrow> nat \<Rightarrow> bytes) \<Rightarrow> 's remote \<Rightarrow> pages \<Rightarrow> ('w, 's) session \<Rightarrow> bool" where
  "ready good holds hist rm p se \<longleftrightarrow> identity (se_remote se) = identity rm \<and> same_shape p (se_pages se) \<and>
     stocked (hist (rm_version rm)) (se_pages se) \<and>
     copy_coherent good holds hist (pg_page_size p) (rm_version rm) (rm_local (se_remote se))"

definition loaded :: "nat \<Rightarrow> ('w, 's) session \<Rightarrow> bool" where
  "loaded n se \<longleftrightarrow> (\<forall>i < n. block_at (se_pages se) i \<noteq> None)"

lemma ready_tally [simp]:
  "ready good holds hist rm p (tally f se) = ready good holds hist rm p se"
  "semi good hist rm p (tally f se) = semi good hist rm p se" "loaded n (tally f se) = loaded n se"
  by (simp_all add: ready_def semi_def loaded_def)

lemma ready_idle: "idle a b \<Longrightarrow> ready good holds hist rm p b = ready good holds hist rm p a"
  "idle a b \<Longrightarrow> loaded n b = loaded n a" "idle a b \<Longrightarrow> semi good hist rm p b = semi good hist rm p a"
  by (simp_all add: ready_def loaded_def idle_def semi_def)

lemma ready_set_local:
  "ready good holds hist rm p se \<Longrightarrow> copy_coherent good holds hist (pg_page_size p) (rm_version rm) c \<Longrightarrow>
     ready good holds hist rm p (set_local c se)"
  "semi good hist rm p se \<Longrightarrow> copy_coherent good holds hist (pg_page_size p) (rm_version rm) c \<Longrightarrow>
     ready good holds hist rm p (set_local c se)"
  by (simp_all add: ready_def semi_def)

lemma keep_run_ready:
  assumes "ready good holds hist rm p se" and "\<forall>k < length bs. bs ! k = hist (rm_version rm) (first + k)"
    and "first + length bs \<le> pg_page_count p" and "\<forall>v i. length (hist v i) = pg_page_size p"
  shows "ready good holds hist rm p (keep_run first bs se)"
    and "loaded n se \<Longrightarrow> loaded n (keep_run first bs se)"
    and "loaded first se \<Longrightarrow> loaded (first + length bs) (keep_run first bs se)"
proof -
  have shape: "same_shape p (se_pages se)" "stocked (hist (rm_version rm)) (se_pages se)"
    using assms(1) by (simp_all add: ready_def)
  have "stocked (hist (rm_version rm)) (keep_all (se_pages se) first bs) \<and>
      same_shape (se_pages se) (keep_all (se_pages se) first bs)"
    using assms(2-4) shape by (intro stocked_keep_all) (simp_all add: same_shape_def)
  then show "ready good holds hist rm p (keep_run first bs se)"
    using assms(1) shape(1) same_shape_trans by (auto simp: ready_def)
  show "loaded n se \<Longrightarrow> loaded n (keep_run first bs se)"
    "loaded first se \<Longrightarrow> loaded (first + length bs) (keep_run first bs se)"
    by (auto simp: loaded_def block_at_keep_all)
qed

subsection \<open>Loading\<close>

lemma copy_read_ready:
  assumes "ready good holds hist rm p se" and "local_store (do_store ops) good holds"
  shows "safe (\<lambda>_. True) (\<lambda>read se'. ready good holds hist rm p se' \<and> (\<forall>n. loaded n se' = loaded n se) \<and>
      se_pages se' = se_pages se \<and>
      (\<forall>bs. read = Some bs \<longrightarrow> (\<forall>k < length bs. bs ! k = hist (rm_version rm) (first + k))))
    (copy_read ops first n se)"
proof -
  obtain q c where rd: "lc_read (do_store ops) first n (rm_local (se_remote se)) = (q, c)" by fastforce
  have coh: "copy_coherent good holds hist (pg_page_size p) (rm_version rm) (rm_local (se_remote se))"
    using assms(1) by (simp add: ready_def)
  note R = local_store.lc_read_coherent [OF assms(2) coh rd]
  have no: "copy_coherent good holds hist (pg_page_size p) (rm_version rm) No_copy" by (simp add: copy_coherent_def)
  show ?thesis
    using assms(1) R ready_set_local(1) [OF assms(1) R(2)]
    by (cases q) (auto simp: copy_read_def rd loaded_def intro!: ready_set_local(1) [OF _ no])
qed

lemma copy_chunks_ready:
  assumes "ready good holds hist rm p se" and "local_store (do_store ops) good holds" and "loaded first se"
    and "\<forall>v i. length (hist v i) = pg_page_size p"
  shows "safe (\<lambda>_. True) (\<lambda>full se'. ready good holds hist rm p se' \<and> (full \<longrightarrow> loaded (pg_page_count p) se'))
    (copy_chunks turns ops first se)"
  using assms(1,3)
proof (induction turns arbitrary: first se)
  case 0
  have "pg_page_count (se_pages se) = pg_page_count p"
    using 0(1) by (simp add: ready_def same_shape_def)
  then show ?case using 0 by (auto simp: loaded_def)
next
  case (Suc turns)
  have count: "pg_page_count (se_pages se) = pg_page_count p"
    using Suc.prems(1) by (simp add: ready_def same_shape_def)
  let ?n = "min (blocks_per_read (pg_page_size (se_pages se))) (pg_page_count (se_pages se) - first)"
  show ?case
  proof (cases "first < pg_page_count (se_pages se)")
    case False
    then show ?thesis using Suc.prems count by (auto simp: loaded_def)
  next
    case True
    have step: "safe (\<lambda>_. True) (\<lambda>full se'. ready good holds hist rm p se' \<and> (full \<longrightarrow> loaded (pg_page_count p) se'))
        (copy_chunks turns ops (first + ?n) (keep_run first bs (tally f t)))"
      if "ready good holds hist rm p t" "\<forall>n. loaded n t = loaded n se" "length bs = ?n"
        "\<forall>k < length bs. bs ! k = hist (rm_version rm) (first + k)" for bs f t
    proof -
      have r: "ready good holds hist rm p (tally f t)" "loaded first (tally f t)" using that Suc.prems(2) by simp_all
      have b: "first + length bs \<le> pg_page_count p" using that(3) True count by simp
      show ?thesis
        using keep_run_ready(1,3) [OF r(1) that(4) b assms(4)] r(2) that(3) by (intro Suc.IH) simp_all
    qed
    show ?thesis
      using True step
      by (auto simp: Let_def split: option.split
          intro!: safe_and_then [OF copy_read_ready [OF Suc.prems(1) assms(2), of first ?n]])
  qed
qed

lemma load_range_ready:
  assumes "ready good holds hist rm p se" and "calm (do_client ops)"
    and "serves_history (do_client ops) (rm_db_id rm) hist (pg_page_size p)" and "n = pg_page_count p"
  shows "safe (\<lambda>_. True) (\<lambda>_ se'. ready good holds hist rm p se' \<and> loaded (pg_page_count p) se')
    (load_range ops 0 n se)"
proof (rule safeI)
  fix r se'
  assume l: "load_range ops 0 n se = (r, se')"
  have same: "identity (se_remote se) = identity rm" "same_shape p (se_pages se)"
    using assms(1) by (simp_all add: ready_def)
  note ids = identityD [OF same(1)]
  from l assms(2) show "True \<and> r \<noteq> Panic \<and> (\<forall>x. r = Ok x \<longrightarrow> ready good holds hist rm p se' \<and> loaded (pg_page_count p) se')"
  proof (cases rule: load_range_cases)
    case (loaded bs c c' t)
    have bs: "bs = map (hist (rm_version rm)) [0..<0 + n]"
      using serves_historyD(2) [OF assms(3) loaded(6) [unfolded ids(1,3) same_shapeD(1) [OF same(2)]]] .
    have r: "ready good holds hist rm p t" using assms(1) ready_idle(1) [OF loaded(4)] by simp
    have hist: "\<forall>v i. length (hist v i) = pg_page_size p" using serves_historyD(1) [OF assms(3)] by blast
    have k: "\<forall>k < length bs. bs ! k = hist (rm_version rm) (0 + k)" "0 + length bs \<le> pg_page_count p"
      unfolding bs using assms(4) by simp_all
    have "loaded 0 t" by (simp add: loaded_def)
    then show ?thesis
      using keep_run_ready(1,3) [OF r k hist] loaded(1,5) bs assms(4) by simp
  qed (simp_all add: is_ok_iff)
qed

lemma stocked_head:
  assumes "identity (se_remote se) = identity rm" and "same_shape p (se_pages se)" and "stocked src (se_pages se)"
    and "head_ok (session_head rm (pg_page_size p) (pg_page_count p))"
  shows "copy_head_of (se_remote se) (se_pages se) = session_head rm (pg_page_size p) (pg_page_count p)"
proof -
  have "pg_stable_page_count (se_pages se) = pg_page_count p" "pg_page_size (se_pages se) = pg_page_size p"
    using assms(2,3) by (simp_all add: stocked_def same_shape_def)
  then show ?thesis
    using copy_head_of_session [of "se_remote se" "se_pages se"] assms(4) session_head_cong [OF assms(1)] by simp
qed

lemma write_copy_ready:
  fixes se :: "('w, 's) session"
  assumes "ready good holds hist rm p se" and "local_store (do_store ops) good holds"
    and "head_ok (session_head rm (pg_page_size p) (pg_page_count p))" and "\<forall>v i. length (hist v i) = pg_page_size p"
  shows "safe (\<lambda>_. True) (\<lambda>_ se'. ready good holds hist rm p se' \<and> (\<forall>n. loaded n se' = loaded n se))
    (write_copy ops is se :: (unit, 'e) res \<times> ('w, 's) session)"
proof (rule safeI)
  fix r :: "(unit, 'e) res" and se'
  assume w: "write_copy ops is se = (r, se')"
  let ?v = "rm_version rm" and ?q = "se_pages se"
  have same: "identity (se_remote se) = identity rm" "same_shape p ?q" "stocked (hist ?v) ?q"
      "copy_coherent good holds hist (pg_page_size p) ?v (rm_local (se_remote se))"
    using assms(1) by (simp_all add: ready_def)
  note head = stocked_head [OF same(1-3) assms(3)] and ids = identityD [OF same(1)]
  have "d = hist ?v i" if "block_at ?q i = Some d" for i d
    using that same(3) by (auto simp: stocked_def is_clean_def block_at_def agrees_def)
  then have "\<forall>x \<in> set (blocks_to_copy ?q is). length (snd x) = pg_page_size p \<and> snd x = hist ?v (fst x)"
    unfolding set_blocks_to_copy using assms(4) by auto
  then have job: "job_ok hist (pg_page_size p) ?v (copy_job is se)"
    unfolding job_ok_def copy_job_def head fst_conv snd_conv session_head_simps using assms(3) by blast
  note C = local_store.write_copy_coherent [OF assms(2) same(4) refl w job]
  have "copy_coherent good holds hist (pg_page_size p) ?v (rm_local (se_remote se'))" "r = Ok ()"
    using C ids(3) by simp_all
  then show "True \<and> r \<noteq> Panic \<and> (\<forall>x. r = Ok x \<longrightarrow> ready good holds hist rm p se' \<and> (\<forall>n. loaded n se' = loaded n se))"
    using same write_copy_frame(1,2) [OF w] by (simp add: ready_def loaded_def)
qed

lemma forget_copy_ready:
  fixes se :: "('w, 's) session"
  assumes "semi good hist rm p se" and "local_store (do_store ops) good holds"
  shows "safe (\<lambda>_. True) (\<lambda>_ se'. ready good holds hist rm p se')
    (forget_copy ops se :: (unit, 'e) res \<times> ('w, 's) session)"
proof (cases "rm_local (se_remote se)")
  case (Ready s)
  then have g: "good s" using assms(1) by (simp add: semi_def)
  obtain q s' where c: "so_clear (do_store ops) s = (q, s')" by fastforce
  note C = local_store.clear_law [OF assms(2) g c]
  show ?thesis
    using assms(1) Ready c C
    by (cases q) (auto simp: forget_copy_def semi_def ready_def copy_coherent_def fits_def coherent_def)
qed (use assms(1) in \<open>auto simp: forget_copy_def semi_def ready_def copy_coherent_def\<close>)

subsection \<open>Catching up\<close>

lemma forgotten_coherent:
  assumes "coherent hist (hd_version b) (Copy b B)" and "\<And>i. i \<notin> set outdated \<Longrightarrow> hist (hd_version h) i = hist (hd_version b) i"
  shows "coherent hist (hd_version h) (Copy h (forgotten h outdated B))"
  using assms by (auto simp: coherent_def forgotten_def)

lemma clipped_runs_inside: "\<forall>r \<in> set (clipped_runs n blocks). fst r + snd r \<le> n"
  by (auto simp: clipped_runs_def)

lemma client_changes_quiet: "calm ops \<Longrightarrow> quiet (client_changes ops db_id v cl)"
  unfolding client_changes_def by (intro quiet_and_then call_quiet) (auto split: server_body.split)

lemma fetch_ranges_safe:
  assumes "calm ops"
  shows "safe (\<lambda>_. True) (\<lambda>bs _. sized ps bs) (fetch_ranges ops db_id v rs ps cl)"
  unfolding fetch_ranges_def Let_def by (rule safe_mono [OF fetch_frames_safe [OF assms]]) simp

lemma kept_ranges_ready:
  fixes se :: "('w, 's) session"
  assumes "ready good holds hist rm p se" and "local_store (do_store ops) good holds" and "calm (do_client ops)"
    and "honest_ranges (do_client ops) (rm_db_id rm) hist (pg_page_size p)"
    and "head_ok (session_head rm (pg_page_size p) (pg_page_count p))" and "\<forall>v i. length (hist v i) = pg_page_size p"
    and "fetch_ranges (do_client ops) (rm_db_id rm) (rm_version rm) rs (pg_page_size p) cl = (Ok bs, cl')"
    and "\<forall>r \<in> set rs. fst r + snd r \<le> pg_page_count p"
  shows "safe (\<lambda>_. True) (\<lambda>_ se'. ready good holds hist rm p se')
    (write_copy ops is (se\<lparr>se_pages := fold (\<lambda>(i, d) p. keep p i d) bs (se_pages se)\<rparr>) :: (unit, 'e) res \<times> ('w, 's) session)"
proof -
  have se: "stocked (hist (rm_version rm)) (se_pages se)" "same_shape p (se_pages se)"
    using assms(1) by (simp_all add: ready_def)
  have "fst x < pg_page_count (se_pages se) \<and> snd x = hist (rm_version rm) (fst x) \<and> length (snd x) = pg_page_size (se_pages se)"
    if x: "x \<in> set bs" for x
  proof -
    obtain r where "snd x = hist (rm_version rm) (fst x)" "r \<in> set rs" "fst x < fst r + snd r"
      using assms(4,7) x unfolding honest_ranges_def by blast
    then show ?thesis
      using assms(6,8) unfolding same_shapeD(1,2) [OF se(2)] by fastforce
  qed
  then have "stocked (hist (rm_version rm)) (fold (\<lambda>(i, d) p. keep p i d) bs (se_pages se)) \<and>
      same_shape (se_pages se) (fold (\<lambda>(i, d) p. keep p i d) bs (se_pages se))"
    by (intro stocked_keep_fold [OF se(1)]) blast
  then have "ready good holds hist rm p (se\<lparr>se_pages := fold (\<lambda>(i, d) p. keep p i d) bs (se_pages se)\<rparr>)"
    using assms(1) same_shape_trans [OF se(2)] by (simp add: ready_def)
  then show ?thesis
    by (rule safe_mono [OF write_copy_ready [OF _ assms(2,5,6)]]) simp
qed

lemma changes_safe:
  assumes "calm (do_client ops)" and "honest_changes (do_client ops) (rm_db_id (se_remote se)) hist"
  shows "safe (\<lambda>_. True) (\<lambda>c t. idle se t \<and>
      (cs_complete c \<longrightarrow> (\<forall>i. i \<notin> set (cs_blocks c) \<longrightarrow> hist (cs_to_version c) i = hist v i)))
    (on_client (client_changes (do_client ops) (rm_db_id (se_remote se)) v) se)"
proof -
  obtain r cl where c: "client_changes (do_client ops) (rm_db_id (se_remote se)) v (se_client se) = (r, cl)" by fastforce
  have "r \<noteq> Panic" using client_changes_quiet [OF assms(1), of "rm_db_id (se_remote se)" v "se_client se"] c by (simp add: quiet_iff)
  then show ?thesis
    using c assms(2) unfolding honest_changes_def by (cases r) (auto simp: on_client_def)
qed

lemma ranges_safe:
  assumes "calm (do_client ops)"
  shows "safe (\<lambda>_. True) (\<lambda>bs t. idle se t \<and> fetch_ranges (do_client ops) db_id v rs ps (se_client se) = (Ok bs, se_client t))
    (on_client (fetch_ranges (do_client ops) db_id v rs ps) se)"
proof -
  obtain r cl where c: "fetch_ranges (do_client ops) db_id v rs ps (se_client se) = (r, cl)" by fastforce
  have "r \<noteq> Panic" using safeD(2) [OF fetch_ranges_safe [OF assms] c] .
  then show ?thesis using c by (cases r) (auto simp: on_client_def)
qed

lemma refetch_ready:
  assumes "ready good holds hist rm p se" and "\<forall>r \<in> set rs. fst r + snd r \<le> pg_page_count p"
    and "local_store (do_store ops) good holds" and "calm (do_client ops)"
    and "honest_ranges (do_client ops) (rm_db_id rm) hist (pg_page_size p)"
    and "head_ok (session_head rm (pg_page_size p) (pg_page_count p))" and "\<forall>v i. length (hist v i) = pg_page_size p"
  shows "safe (\<lambda>_. True) (\<lambda>ok se'. ok \<and> ready good holds hist rm p se') (refetch ops rs se)"
proof (cases "\<not> on_demand (se_pages se) \<and> rs \<noteq> []")
  case True
  obtain started t where now: "session_now ops se = (started, t)" by fastforce
  have t: "ready good holds hist rm p t" using assms(1) ready_idle(1) [of se t] session_now_idle [OF now, of se] by simp
  then have same: "identity (se_remote t) = identity rm" "same_shape p (se_pages t)" by (simp_all add: ready_def)
  note ids = identityD [OF same(1)] and shape = same_shapeD [OF same(2)]
  have written: "safe (\<lambda>_. True) (\<lambda>ok se'. ok \<and> ready good holds hist rm p se')
      (and_then (write_copy ops (map fst bs) ((tally f w)\<lparr>se_pages := fold (\<lambda>(i, d) p. keep p i d) bs (se_pages w)\<rparr>))
        (\<lambda>_ se. (Ok True :: (bool, client_error) res, se)))"
    if "ready good holds hist rm p w" "fetch_ranges (do_client ops) (rm_db_id rm) (rm_version rm) rs (pg_page_size p) cl = (Ok bs, cl')"
    for f w bs cl cl'
  proof -
    have "ready good holds hist rm p (tally f w)" using that(1) by simp
    from kept_ranges_ready [OF this assms(3-7) that(2) assms(2)] show ?thesis
      by (intro safe_and_then [of "\<lambda>_. True"]) auto
  qed
  have later: "ready good holds hist rm p w"
    if "idle t u" "session_now ops u = (n, w)" for u n w
    using t ready_idle(1) [OF that(1)] ready_idle(1) [of u w] session_now_idle [OF that(2), of u] by simp
  show ?thesis
    using True now
    by (auto simp: refetch_def ids(1,3) shape(1) Let_def split: prod.split
        intro!: safe_and_then [OF ranges_safe [OF assms(4)]]) (rule written, erule (1) later, assumption)
qed (use assms(1) in \<open>auto simp: refetch_def\<close>)

definition copy_of :: "('s \<Rightarrow> copy_state) \<Rightarrow> 's local_copy \<Rightarrow> copy_state" where
  "copy_of holds c = (case c of Ready s \<Rightarrow> holds s | _ \<Rightarrow> Absent)"

lemma catch_copy_up_ready:
  assumes "semi good hist rm p se" and "local_store (do_store ops) good holds" and "calm (do_client ops)"
    and "honest_server (do_client ops) (rm_db_id rm) hist (pg_page_size p)"
    and "head_ok (session_head rm (pg_page_size p) (pg_page_count p))"
    and "copy_of holds (rm_local (se_remote se)) = Copy h B" and "hd_page_size h = pg_page_size p"
    and "coherent hist (hd_version h) (Copy h B)"
  shows "safe (\<lambda>_. True) (\<lambda>ok se'. if ok then ready good holds hist rm p se' else semi good hist rm p se')
    (catch_copy_up ops h se)"
proof -
  obtain s where s: "rm_local (se_remote se) = Ready s" "holds s = Copy h B" "good s"
    using assms(1,6) by (auto simp: copy_of_def semi_def split: local_copy.splits)
  have same: "identity (se_remote se) = identity rm" "same_shape p (se_pages se)" "stocked (hist (rm_version rm)) (se_pages se)"
    using assms(1) by (simp_all add: semi_def)
  note ids = identityD [OF same(1)] and shape = same_shapeD [OF same(2)]
  have hist: "\<forall>v i. length (hist v i) = pg_page_size p"
    and changes: "honest_changes (do_client ops) (rm_db_id (se_remote se)) hist"
    and ranges: "honest_ranges (do_client ops) (rm_db_id rm) hist (pg_page_size p)"
    using assms(4) ids(1) by (auto simp: honest_server_def dest: serves_historyD(1))
  show ?thesis
    unfolding catch_copy_up_def
  proof (rule safe_and_then [OF changes_safe [OF assms(3) changes, of "hd_version h"]], goal_cases)
    case (1 c t)
    note Q = 1(2)
    let ?h = "session_head rm (pg_page_size p) (pg_page_count p)"
    let ?rs = "clipped_runs (pg_page_count (se_pages t)) (cs_blocks c)"
    have t: "semi good hist rm p t" using assms(1) ready_idle(3) Q by blast
    then have sh: "identity (se_remote t) = identity rm" "same_shape p (se_pages t)" "stocked (hist (rm_version rm)) (se_pages t)"
      by (simp_all add: semi_def)
    note idt = identityD [OF sh(1)]
    have loc: "rm_local (se_remote t) = Ready s" using Q s(1) by (simp add: idle_def)
    have head: "copy_head_of (se_remote t) (se_pages t) = ?h" using stocked_head [OF sh assms(5)] .
    obtain q s' where f: "so_forget (do_store ops) ?h (cs_blocks c) s = (q, s')" by fastforce
    have size: "hd_page_size h = hd_page_size ?h" using assms(7) by simp
    note F = local_store.forget_law [OF assms(2) s(3) assms(5) s(2) size f]
    have no: "copy_coherent good holds hist (pg_page_size p) (rm_version rm) No_copy" by (simp add: copy_coherent_def)
    have gone: "semi good hist rm p (set_local No_copy (tally g t))" for g
      using t by (simp add: semi_def)
    have up: "ready good holds hist rm p (tally g (set_local (Ready s') t))"
      if "q = Ok ()" "cs_complete c" "cs_to_version c = rm_version (se_remote t)" for g
    proof -
      have "coherent hist (rm_version rm) (Copy ?h (forgotten ?h (cs_blocks c) B))"
        using forgotten_coherent [OF assms(8), of "cs_blocks c" ?h] Q that(2,3) idt(3) by simp
      then have "copy_coherent good holds hist (pg_page_size p) (rm_version rm) (Ready s')"
        using F that(1) by (simp add: copy_coherent_def fits_def)
      then show ?thesis using ready_set_local(2) [OF t] by simp
    qed
    have inside: "\<forall>r \<in> set ?rs. fst r + snd r \<le> pg_page_count p"
      using clipped_runs_inside same_shapeD(2) [OF sh(2)] by metis
    have fetched: "safe (\<lambda>_. True) (\<lambda>ok se'. if ok then ready good holds hist rm p se' else semi good hist rm p se')
        (refetch ops ?rs (tally g (set_local (Ready s') t)))"
      if "q = Ok ()" "cs_complete c" "cs_to_version c = rm_version (se_remote t)" for g
      by (rule safe_mono [OF refetch_ready [OF up [OF that] inside assms(2,3) ranges assms(5) hist]]) simp_all
    show ?case
      using t gone fetched f F by (cases q) (simp_all add: Let_def loc head)
  qed
qed

subsection \<open>Filling\<close>

text \<open>A copy under the name of this user and database holds what its version had.\<close>

definition trusted ::
  "('s \<Rightarrow> copy_state) \<Rightarrow> (nat \<Rightarrow> nat \<Rightarrow> bytes) \<Rightarrow> 's remote \<Rightarrow> nat \<Rightarrow> 's local_copy \<Rightarrow> bool" where
  "trusted holds hist rm ps c \<longleftrightarrow>
     (\<forall>h B. copy_of holds c = Copy h B \<and> hd_subject h = rm_subject rm \<and> hd_db_id h = rm_db_id rm \<and> hd_page_size h = ps
        \<longrightarrow> coherent hist (hd_version h) (Copy h B))"

text \<open>What opening needs of its surroundings.\<close>

definition openable ::
  "('w, 's) db_ops \<Rightarrow> ('s \<Rightarrow> bool) \<Rightarrow> ('s \<Rightarrow> copy_state) \<Rightarrow> (nat \<Rightarrow> nat \<Rightarrow> bytes) \<Rightarrow> 's remote \<Rightarrow> pages \<Rightarrow> bool" where
  "openable ops good holds hist rm p \<longleftrightarrow> calm (do_client ops) \<and> local_store (do_store ops) good holds \<and>
     honest_server (do_client ops) (rm_db_id rm) hist (pg_page_size p) \<and>
     head_ok (session_head rm (pg_page_size p) (pg_page_count p))"

lemma openableD:
  assumes "openable ops good holds hist rm p"
  shows "calm (do_client ops)" and "local_store (do_store ops) good holds"
    and "honest_server (do_client ops) (rm_db_id rm) hist (pg_page_size p)"
    and "head_ok (session_head rm (pg_page_size p) (pg_page_count p))"
    and "serves_history (do_client ops) (rm_db_id rm) hist (pg_page_size p)"
    and "\<forall>v i. length (hist v i) = pg_page_size p"
  using assms by (auto simp: openable_def honest_server_def dest: serves_historyD(1))

lemma take_copy_ready:
  assumes "openable ops good holds hist rm p" and "semi good hist rm p se"
    and "trusted holds hist rm (pg_page_size p) (rm_local (se_remote se))"
  shows "safe (\<lambda>_. True) (\<lambda>full se'. ready good holds hist rm p se' \<and> (full \<longrightarrow> loaded (pg_page_count p) se'))
    (take_copy ops se)"
proof (cases "rm_local (se_remote se)")
  case (Ready s)
  note env = openableD [OF assms(1)]
  have same: "identity (se_remote se) = identity rm" "same_shape p (se_pages se)" and s: "good s"
    using assms(2) Ready by (simp_all add: semi_def)
  note ids = identityD [OF same(1)] and shape = same_shapeD [OF same(2)]
  obtain q s' where hd: "so_head (do_store ops) s = (q, s')" by fastforce
  note H = local_store.head_law [OF env(2) s hd]
  let ?se = "set_local (Ready s') se"
  have semi: "semi good hist rm p ?se" using assms(2) H by (simp add: semi_def)
  have sids: "rm_subject (se_remote ?se) = rm_subject rm" "rm_db_id (se_remote ?se) = rm_db_id rm"
    using ids by (simp_all add: set_local_def)
  let ?Q = "\<lambda>full se'. ready good holds hist rm p se' \<and> (full \<longrightarrow> loaded (pg_page_count p) se')"
  have drop: "safe (\<lambda>_. True) ?Q (and_then (forget_copy ops t) (\<lambda>_ se. (Ok False, se)))" if "semi good hist rm p t" for t
    by (rule safe_and_then [OF forget_copy_ready [OF that env(2)]]) simp
  have use: "safe (\<lambda>_. True) ?Q (if on_demand (se_pages t) then (Ok False, t) else copy_chunks (pg_page_count (se_pages t)) ops 0 t)"
    if "ready good holds hist rm p t" for t
    using that copy_chunks_ready [OF that env(2) _ env(6), of 0] by (simp add: loaded_def)
  have found: "safe (\<lambda>_. True) (\<lambda>ok se'. if ok then ready good holds hist rm p se' else semi good hist rm p se')
      (if hd_version h < rm_version rm then catch_copy_up ops h ?se else (Ok True, ?se))"
    if q: "q = Ok (Some h)" and h: "hd_subject h = rm_subject rm" "hd_db_id h = rm_db_id rm" "hd_page_size h = pg_page_size p"
      and v: "hd_version h \<le> rm_version rm" for h
  proof -
    obtain B where B: "holds s = Copy h B" "holds s' = Copy h B" using H q by auto
    have coh: "coherent hist (hd_version h) (Copy h B)"
      using assms(3) h B(1) Ready by (simp add: trusted_def copy_of_def)
    have "ready good holds hist rm p ?se" if "hd_version h = rm_version rm"
      using ready_set_local(2) [OF assms(2), of holds "Ready s'"] coh B h(3) H that by (simp add: copy_coherent_def fits_def)
    then show ?thesis
      using v catch_copy_up_ready [OF semi env(2,1,3,4) _ h(3) coh] B(2) by (simp add: copy_of_def)
  qed
  show ?thesis
  proof (cases q)
    case (Ok found_head)
    show ?thesis
    proof (cases "\<exists>h. found_head = Some h \<and> hd_subject h = rm_subject rm \<and> hd_db_id h = rm_db_id rm \<and> hd_page_size h = pg_page_size p")
      case True
      then obtain h where h: "q = Ok (Some h)" "hd_subject h = rm_subject rm" "hd_db_id h = rm_db_id rm"
          "hd_page_size h = pg_page_size p" using Ok by blast
      have "safe (\<lambda>_. True) ?Q (and_then (if hd_version h < rm_version rm then catch_copy_up ops h ?se else (Ok True, ?se))
          (\<lambda>current se. if \<not> current then and_then (forget_copy ops se) (\<lambda>_ se. (Ok False, se))
             else if on_demand (se_pages se) then (Ok False, se) else copy_chunks (pg_page_count (se_pages se)) ops 0 se))"
        if "hd_version h \<le> rm_version rm"
        by (rule safe_and_then [OF found [OF h that]]) (use drop use in auto)
      then show ?thesis using h ids(3) sids shape(1) by (simp add: take_copy_def Ready hd Let_def)
    next
      case False
      then show ?thesis using drop [OF semi] Ok ids(3) sids shape(1)
        by (auto simp: take_copy_def Ready hd Let_def split: option.split)
    qed
  qed (use H assms(2) Ready hd in \<open>auto simp: take_copy_def semi_def ready_def copy_coherent_def\<close>)
qed (use assms(2) in \<open>auto simp: take_copy_def semi_def ready_def copy_coherent_def\<close>)

lemma remote_fill_ready:
  assumes "openable ops good holds hist rm p"
    and "semi good hist rm p se \<and> trusted holds hist rm (pg_page_size p) (rm_local (se_remote se)) \<or>
      ready good holds hist rm p se \<and> (\<exists>b. rm_local (se_remote se) = Writing b)"
  shows "safe (\<lambda>_. True) (\<lambda>_ se'. ready good holds hist rm p se' \<and> (asks_source p \<or> loaded (pg_page_count p) se'))
    (remote_fill ops se)"
proof -
  note env = openableD [OF assms(1)]
  have take: "safe (\<lambda>_. True) (\<lambda>full se'. ready good holds hist rm p se' \<and> (full \<longrightarrow> loaded (pg_page_count p) se'))
      (take_copy ops se)"
    using assms(2) take_copy_ready [OF assms(1), of se] by (auto simp: take_copy_def)
  have room: "safe (\<lambda>_. True) (\<lambda>_ se'. ready good holds hist rm p se' \<and> (asks_source p \<or> loaded (pg_page_count p) se'))
      (case make_room (se_pages t) 0 (se_stats t) of (p, st) \<Rightarrow>
        (Ok (), t\<lparr>se_pages := p, se_stats := st\<lparr>held_blocks := held p\<rparr>\<rparr>))"
    if "ready good holds hist rm p t \<and> (on_demand (se_pages t) \<or> loaded (pg_page_count p) t)" for t
  proof -
    obtain q st where m: "make_room (se_pages t) 0 (se_stats t) = (q, st)" by fastforce
    have t: "stocked (hist (rm_version rm)) (se_pages t)" "same_shape p (se_pages t)" using that by (simp_all add: ready_def)
    note R = stocked_make_room [OF t(1) m] and shape = same_shapeD [OF t(2)]
    have "asks_source p \<or> loaded (pg_page_count p) t \<and> pg_cap (se_pages t) = None"
      using that shape(6,7) by (auto simp: asks_source_def on_demand_def)
    then show ?thesis
      using that R same_shape_trans [OF t(2)] by (auto simp: m ready_def loaded_def)
  qed
  have fill: "safe (\<lambda>_. True) (\<lambda>_ se'. ready good holds hist rm p se' \<and> (on_demand (se_pages se') \<or> loaded (pg_page_count p) se'))
      (if \<not> on_demand (se_pages t) \<and> 0 < pg_page_count (se_pages t) \<and> \<not> full
       then and_then (load_range ops 0 (pg_page_count (se_pages t)) t) (\<lambda>_ se. write_copy ops (indexes (se_pages se)) se)
       else (Ok (), t))"
    if t: "ready good holds hist rm p t" "full \<longrightarrow> loaded (pg_page_count p) t" for full t
  proof -
    have "pg_page_count (se_pages t) = pg_page_count p" using t(1) by (simp add: ready_def same_shape_def)
    moreover have "safe (\<lambda>_. True) (\<lambda>_ se'. ready good holds hist rm p se' \<and> (on_demand (se_pages se') \<or> loaded (pg_page_count p) se'))
        (and_then (load_range ops 0 (pg_page_count p) t) (\<lambda>_ se. write_copy ops (indexes (se_pages se)) se))"
      by (rule safe_and_then [OF load_range_ready [OF t(1) env(1,5) refl]], rule safe_mono [OF write_copy_ready [OF _ env(2,4,6)]]) auto
    ultimately show ?thesis using t by (auto simp: loaded_def)
  qed
  show ?thesis
    unfolding remote_fill_def
    by (rule safe_and_then [OF take], rule safe_and_then [OF fill]) (auto intro!: room)
qed

text \<open>A session that is ready leaves a database with the invariant, showing the file of its version.\<close>

lemma ready_server:
  assumes "ready good holds hist rm p se" and "asks_source p \<or> loaded (pg_page_count p) se"
    and "openable ops good holds hist rm p" and "store_sane ops"
    and "db = \<lparr>db_pages = se_pages se, db_remote = (se_remote se)\<lparr>rm_broken := b\<rparr>\<rparr>"
  shows "server_inv ops good holds hist (se_client se) db" and "is_clean (db_pages db)"
    and "server_file hist db = concat (map (hist (rm_version rm)) [0..<pg_page_count p])"
    and "asks_source (db_pages db) \<or> (\<forall>i < pg_page_count (db_pages db). block_at (db_pages db) i \<noteq> None)"
    and "rm_version (db_remote db) = rm_version rm" and "pg_page_count (db_pages db) = pg_page_count p"
proof -
  note env = openableD [OF assms(3)]
  have se: "identity (se_remote se) = identity rm" "same_shape p (se_pages se)" "stocked (hist (rm_version rm)) (se_pages se)"
      "copy_coherent good holds hist (pg_page_size p) (rm_version rm) (rm_local (se_remote se))"
    using assms(1) by (simp_all add: ready_def)
  note ids = identityD [OF se(1)] and shape = same_shapeD [OF se(2)]
  have st: "pages_wf (se_pages se)" "agrees (hist (rm_version rm)) (se_pages se)" "is_clean (se_pages se)"
      "pg_stable_page_count (se_pages se) = pg_page_count p"
    using se(3) shape by (simp_all add: stocked_def)
  have head: "session_head ((se_remote se)\<lparr>rm_broken := b\<rparr>) = session_head rm"
    using ids by (simp add: session_head_def fun_eq_iff)
  show "server_inv ops good holds hist (se_client se) db"
    using se st env assms(4) ids shape head by (simp add: server_inv_def assms(5) fetch_good_def fetch_serves_def)
  show full: "asks_source (db_pages db) \<or> (\<forall>i < pg_page_count (db_pages db). block_at (db_pages db) i \<noteq> None)"
    using assms(2) shape by (auto simp: assms(5) asks_source_def loaded_def)
  have "view (hist (rm_version rm)) (se_pages se) i = hist (rm_version rm) i" if "i < pg_page_count (se_pages se)" for i
    using full that st(2,3) by (auto simp: assms(5) view_def block_at_def agrees_def is_clean_def split: option.split)
  then show "server_file hist db = concat (map (hist (rm_version rm)) [0..<pg_page_count p])"
    using file_of_concat [of "se_pages se" "hist (rm_version rm)" "hist (rm_version rm)"] env(6) pages_wfD(1) [OF st(1)] ids shape
    by (simp add: server_file_def assms(5))
qed (use assms in \<open>auto simp: ready_def stocked_def same_shape_def dest: identityD(3)\<close>)

subsection \<open>Opening\<close>

text \<open>Whatever the server and the store do, filling changes neither the identity of the database nor its shape.\<close>

definition framed :: "'s remote \<Rightarrow> pages \<Rightarrow> ('w, 's) session \<Rightarrow> bool" where
  "framed rm p t \<longleftrightarrow> identity (se_remote t) = identity rm \<and> rm_broken (se_remote t) = rm_broken rm \<and> same_shape p (se_pages t)"

lemma framed_simps [simp]:
  "framed rm p (tally f t) = framed rm p t" "framed rm p (set_local c t) = framed rm p t"
  "framed rm p (t\<lparr>se_client := cl\<rparr>) = framed rm p t"
  by (simp_all add: framed_def)

lemma framed_on_client [simp]: "kept (framed rm p) (on_client f t) \<longleftrightarrow> framed rm p t"
  by (simp add: on_client_def split: prod.split)

lemma framed_now: "session_now ops t = (n, t') \<Longrightarrow> framed rm p t' = framed rm p t"
  by (auto simp: session_now_def on_client_def split: prod.splits)

lemma same_shape_keep_all: "same_shape p q \<Longrightarrow> same_shape p (keep_all q first bs)"
  by (induction bs arbitrary: q first) (auto intro: same_shape_trans [OF _ same_shape_keep])

lemma same_shape_keep_fold: "same_shape p q \<Longrightarrow> same_shape p (fold (\<lambda>(i, d) p. keep p i d) bs q)"
  by (induction bs arbitrary: q) (auto intro: same_shape_trans [OF _ same_shape_keep])

lemma framed_keep: "framed rm p t \<Longrightarrow> framed rm p (keep_run first bs t)"
  "framed rm p t \<Longrightarrow> framed rm p ((tally f t)\<lparr>se_pages := fold (\<lambda>(i, d) p. keep p i d) xs (se_pages t)\<rparr>)"
  by (simp_all add: framed_def same_shape_keep_all same_shape_keep_fold)

lemma forget_copy_framed: "framed rm p t \<Longrightarrow> kept (framed rm p) (forget_copy ops t)"
  by (auto simp: forget_copy_def split: local_copy.split prod.split res.split)

lemma copy_read_framed: "framed rm p t \<Longrightarrow> kept (framed rm p) (copy_read ops first n t)"
  by (auto simp: copy_read_def split: prod.split res.split)

lemma write_copy_framed:
  fixes t :: "('w, 's) session"
  assumes "framed rm p t"
  shows "kept (framed rm p) (write_copy ops is t :: (unit, 'e) res \<times> ('w, 's) session)"
proof -
  obtain r :: "(unit, 'e) res" and t' where w: "write_copy ops is t = (r, t')" by fastforce
  show ?thesis using assms write_copy_frame(1-3) [OF w] by (simp add: w framed_def)
qed

lemma copy_chunks_framed: "framed rm p t \<Longrightarrow> kept (framed rm p) (copy_chunks n ops first t)"
proof (induction n arbitrary: first t)
  case (Suc n)
  then show ?case
    by (auto simp: Let_def split: option.split intro!: kept_and_then copy_read_framed Suc.IH framed_keep)
qed simp

lemma load_range_framed: "framed rm p t \<Longrightarrow> kept (framed rm p) (load_range ops first n t)"
  by (auto simp: load_range_def framed_now split: prod.split intro!: kept_and_then framed_keep)

lemma catch_copy_up_framed: "framed rm p t \<Longrightarrow> kept (framed rm p) (catch_copy_up ops h t)"
proof -
  have "kept (framed rm p) (refetch ops rs u)" if "framed rm p u" for rs u
    using that
    by (auto simp: refetch_def framed_now Let_def split: prod.split intro!: kept_and_then write_copy_framed framed_keep(2))
  then show "framed rm p t \<Longrightarrow> kept (framed rm p) (catch_copy_up ops h t)"
    by (auto simp: catch_copy_up_def Let_def split: prod.split res.split intro!: kept_and_then)
qed

lemma take_copy_framed: "framed rm p t \<Longrightarrow> kept (framed rm p) (take_copy ops t)"
  by (auto simp: take_copy_def Let_def split: local_copy.split prod.split res.split option.split
      intro!: kept_and_then forget_copy_framed catch_copy_up_framed copy_chunks_framed)

lemma remote_fill_framed: "framed rm p t \<Longrightarrow> kept (framed rm p) (remote_fill ops t)"
proof -
  have "framed rm p (u\<lparr>se_pages := q, se_stats := st\<rparr>)" if "framed rm p u" "make_room (se_pages u) 0 k = (q, st')" for u q st k st'
    using that same_shape_trans [OF _ same_shape_make_room [OF that(2)]] by (simp add: framed_def)
  then show "framed rm p t \<Longrightarrow> kept (framed rm p) (remote_fill ops t)"
    by (auto simp: remote_fill_def split: prod.split intro!: kept_and_then take_copy_framed load_range_framed write_copy_framed)
qed

lemma checked_ok:
  assumes "checked od in_use = Ok od'"
  shows "od' = od" and "valid_page_size (op_page_size od)" and "op_page_count od \<le> MAX_PAGE_COUNT"
    and "in_use = Some ps \<Longrightarrow> op_page_size od = ps"
  using assms by (auto simp: checked_def split: if_splits option.splits)

lemma valid_page_size_bounds: "valid_page_size n \<Longrightarrow> 0 < n \<and> n \<le> MAX_PAGE_SIZE"
  by (simp add: valid_page_size_def MIN_PAGE_SIZE_def)

lemma stocked_new:
  "0 < ps \<Longrightarrow> bpf \<noteq> Some 0 \<Longrightarrow> n \<le> MAX_PAGE_COUNT \<Longrightarrow> stocked src (pages_new ps n bpf c)"
  by (simp add: stocked_def pages_wf_new agrees_def is_clean_def MAX_PAGE_COUNT_def U64_def)

lemma db_open_cases:
  assumes "db_open ops db_id opts cl st = (Ok db, cl', st')"
  obtains od c se where "checked od None = Ok od"
    and "remote_fill ops (session_of (c, \<lparr>rm_db_id = db_id, rm_subject = oo_subject opts, rm_version = op_version od,
        rm_lease_id = op_lease_id od, rm_lease_epoch = op_lease_epoch od, rm_last_commit_id = op_last_commit_id od,
        rm_pending_commit = None, rm_local = (case oo_local opts of Some s \<Rightarrow> Ready s | None \<Rightarrow> No_copy), rm_broken = None,
        rm_login = cl_logins c\<rparr>) (pages_new (op_page_size od) (op_page_count od) (oo_blocks_per_fetch opts) (oo_cap opts)) st) = (Ok (), se)"
    and "db = \<lparr>db_pages = se_pages se, db_remote = se_remote se\<rparr>" and "cl' = se_client se"
proof -
  let ?open = "call (do_client ops) (Open_body \<lparr>om_db_id = db_id, om_page_size = oo_page_size opts,
    om_create_if_missing = oo_create opts, om_takeover = oo_takeover opts, om_resume = None\<rparr>) cl"
  obtain od c where first: "and_then ?open (\<lambda>answer cl. case answer of Opened_body od \<Rightarrow> (checked od None, cl)
        | _ \<Rightarrow> (Err (Protocol_error ''expected Opened''), cl)) = (Ok od, c)"
    using assms unfolding db_open_def by (auto split: prod.splits res.splits)
  then obtain answer c' where "?open = (Ok answer, c')" and rest: "(case answer of Opened_body od \<Rightarrow> (checked od None, c')
        | _ \<Rightarrow> (Err (Protocol_error ''expected Opened''), c')) = (Ok od, c)"
    by (auto simp only: and_then_Ok)
  then have answer: "?open = (Ok answer, c)" "answer = Opened_body od" "checked od None = Ok od"
    using checked_ok(1) by (cases answer; auto)+
  show thesis
    using assms answer(3) unfolding db_open_def first
    by (auto simp: Let_def split: prod.splits elim!: map_ok.elims intro!: that)
qed


end
