(* ===== verification/Server_Heal.thy ===== *)
theory Server_Heal
  imports Server_Open
begin

text \<open>
  Healing a database that broke because the server could not be reached (\<open>Database::heal\<close> of \<open>database.rs\<close>).
\<close>

subsection \<open>Healing\<close>

lemma resume_checked:
  assumes "resume ops ps t = (Ok od, t')"
  shows "checked od (Some (ps mod 2 ^ 32)) = Ok od" and "idle t t'"
proof -
  show "idle t t'" using resume_idle [of t t ops ps] assms by simp
  obtain answer u where "(case answer of
        Opened_body od \<Rightarrow>
          and_then (checked od (Some (ps mod 2 ^ 32)), u) (\<lambda>od se. (Ok od, se\<lparr>se_remote := (se_remote se)\<lparr>rm_login := cl_logins (se_client se)\<rparr>\<rparr>))
      | _ \<Rightarrow> (Err (Protocol_error ''expected Opened''), u)) = (Ok od, t')"
    using assms unfolding resume_def by (auto simp only: and_then_Ok split: prod.splits)
  then show "checked od (Some (ps mod 2 ^ 32)) = Ok od"
    using checked_ok(1) by (cases answer) (auto simp: and_then_Ok)
qed

lemma or_break_on_Ok: "or_break_on m = (Ok x, t) \<longleftrightarrow> m = (Ok x, t)"
  by (cases m rule: or_break_on.cases) (auto simp: break_with_def)

lemma heal_session_cases:
  assumes "heal_session ops se = (Ok (), se')"
  obtains od t f u where "resume ops (pg_page_size (se_pages se)) se = (Ok od, t)" and "idle se t"
    and "op_version od = rm_version (se_remote t) \<or> was_applied (se_remote t) od"
    and "remote_fill ops ((tally f t)\<lparr>se_remote := (se_remote t)\<lparr>rm_version := op_version od,
        rm_last_commit_id := op_last_commit_id od, rm_pending_commit := None\<rparr>,
      se_pages := emptied (se_pages t) (op_page_count od)\<rparr>) = (Ok (), u)"
    and "se' = tally (\<lambda>st. st\<lparr>healed := healed st + 1\<rparr>) (u\<lparr>se_remote := (se_remote u)\<lparr>rm_broken := None\<rparr>\<rparr>)"
proof -
  obtain od t where r: "resume ops (pg_page_size (se_pages se)) se = (Ok od, t)"
    using assms by (auto simp: heal_session_def and_then_Ok or_break_on_Ok)
  define f :: "stats \<Rightarrow> stats" where "f = (if was_applied (se_remote t) od then (\<lambda>st. st\<lparr>recovered_commits := recovered_commits st + 1\<rparr>) else (\<lambda>st. st))"
  have f: "(if was_applied (se_remote t) od then tally (\<lambda>st. st\<lparr>recovered_commits := recovered_commits st + 1\<rparr>) t else t) = tally f t"
    by (simp add: f_def tally_def)
  show thesis
    using assms r that [OF r resume_checked(2) [OF r], of f]
    by (auto simp: heal_session_def Let_def f break_with_def and_then_Ok or_break_on_Ok split: if_splits)
qed


subsection \<open>A copy that is being written\<close>

lemma blocks_per_read_pos: "1 \<le> blocks_per_read ps"
  by (simp add: blocks_per_read_def)

text \<open>C15: healing leaves a local copy alone that the background thread writes, also if the pending commit turns
  out applied: the version advances, and the blocks the copy held before that commit are still served, as
  blocks of the new version.\<close>

theorem heal_keeps_old_copy:
  assumes "db_heal ops db cl st = (Ok (), db', cl', st')" and "rm_local (db_remote db) = Writing b"
    and "on_demand (db_pages db)" and "bg_read (do_store ops) i 1 b = (Ok [d], b')" and "length d = pg_page_size (db_pages db)"
  shows "rm_local (db_remote db') = Writing b \<and>
    (\<exists>se. fetch_missing ops i 1 (session_of (cl', db_remote db') (db_pages db') st') = (Ok (), se) \<and>
       block_at (se_pages se) i = Some d)"
proof -
  let ?se = "session_of (cl, db_remote db) (db_pages db) st"
  obtain se' where h: "heal_session ops ?se = (Ok (), se')"
    and db': "db' = \<lparr>db_pages = se_pages se', db_remote = se_remote se'\<rparr>"
    using assms(1) by (auto simp: db_heal_def split: prod.splits)
  obtain od t f u where res: "resume ops (pg_page_size (se_pages ?se)) ?se = (Ok od, t)" and i: "idle ?se t"
    and "op_version od = rm_version (se_remote t) \<or> was_applied (se_remote t) od"
    and fill: "remote_fill ops ((tally f t)\<lparr>se_remote := (se_remote t)\<lparr>rm_version := op_version od,
        rm_last_commit_id := op_last_commit_id od, rm_pending_commit := None\<rparr>,
      se_pages := emptied (se_pages t) (op_page_count od)\<rparr>) = (Ok (), u)"
    and se': "se' = tally (\<lambda>st. st\<lparr>healed := healed st + 1\<rparr>) (u\<lparr>se_remote := (se_remote u)\<lparr>rm_broken := None\<rparr>\<rparr>)"
    by (rule heal_session_cases [OF h])
  have t: "se_pages t = db_pages db" "rm_local (se_remote t) = Writing b"
    using i assms(2) by (simp_all add: idle_def session_of_def)
  let ?p = "emptied (db_pages db) (op_page_count od)"
  obtain q st1 where m: "make_room ?p 0 (f (se_stats t)) = (q, st1)" by fastforce
  have "on_demand ?p" using assms(3) by (simp add: emptied_def on_demand_def)
  then have u: "se_pages u = q" "rm_local (se_remote u) = Writing b"
    using fill t m by (auto simp: remote_fill_def take_copy_def tally_def)
  have q: "block_at q i = None" "pg_page_size q = pg_page_size (db_pages db)"
    using make_room_lookup [OF m, of i] make_room_frame(1) [OF m] by (auto simp: block_at_def emptied_def)
  show ?thesis
    using u q assms(4,5) blocks_per_read_pos [of "pg_page_size (db_pages db)"]
    by (simp add: db' se' fetch_missing_def take_from_copy_def copy_read_def session_of_def block_at_keep min_def Let_def)
qed

end
