(* ===== verification/Server_Ends.thy ===== *)
theory Server_Ends
  imports Server_Heal
begin

text \<open>
  Which loops of a database on the server end (\<open>database.rs\<close>): reading a whole copy, reconnecting until a
  deadline, and the attempts of a commit, which have no bound if the server stays reachable but every commit
  breaks the connection.
\<close>

subsection \<open>Reading a whole copy\<close>

lemma lc_read_ends:
  assumes "\<forall>first n s. fst (so_read ops first n s) \<noteq> Hang" and "lc_read ops first n c = (r, c')"
  shows "r \<noteq> Hang"
proof (cases c)
  case (Ready s)
  then show ?thesis using assms by (auto split: prod.splits) (metis fst_conv)
next
  case (Writing b)
  then show ?thesis using assms(2) by (auto simp: bg_read_def Let_def split: if_splits prod.splits res.splits)
qed (use assms(2) in auto)

lemma copy_chunks_hang:
  assumes "\<forall>first n s. fst (so_read (do_store ops) first n s) \<noteq> Hang" and "pg_page_count (se_pages se) \<le> first + turns"
  shows "fst (copy_chunks turns ops first se) \<noteq> Hang"
  using assms(2)
proof (induction turns arbitrary: first se)
  case (Suc turns)
  let ?n = "min (blocks_per_read (pg_page_size (se_pages se))) (pg_page_count (se_pages se) - first)"
  obtain q c where rd: "lc_read (do_store ops) first ?n (rm_local (se_remote se)) = (q, c)" by fastforce
  have q: "q \<noteq> Hang" using lc_read_ends [OF assms(1) rd] .
  have count: "pg_page_count (keep_all p f bs) = pg_page_count p" for p f bs
    using same_shapeD(2) [OF same_shape_keep_all [OF same_shape_refl]] .
  have "pg_page_count (se_pages se) \<le> first + ?n + turns" if "first < pg_page_count (se_pages se)"
    using Suc.prems that blocks_per_read_pos [of "pg_page_size (se_pages se)"] by linarith
  then show ?case
    using q rd Suc.IH by (cases q) (auto simp: Let_def copy_read_def count)
qed simp

text \<open>C18: the loop that loads a database from its copy ends after at most as many turns as the database has
  blocks, if the store answers every read.\<close>

theorem copy_chunks_ends:
  assumes "\<forall>first n s. fst (so_read (do_store ops) first n s) \<noteq> Hang"
  shows "fst (copy_chunks (pg_page_count (se_pages se)) ops 0 se) \<noteq> Hang"
  by (rule copy_chunks_hang [OF assms]) simp

subsection \<open>Reconnecting\<close>

definition time_of :: "('w \<Rightarrow> nat) \<Rightarrow> ('w, 's) session \<Rightarrow> nat" where
  "time_of clock t = clock (cl_world (se_client t))"

lemma on_world_time:
  assumes "\<forall>w n w'. co_now (do_client ops) w = (n, w') \<longrightarrow> n = clock w \<and> clock w \<le> clock w'"
    and "session_now ops t = (now, t')"
  shows "now = time_of clock t" and "time_of clock t \<le> time_of clock t'"
proof -
  obtain w where "co_now (do_client ops) (cl_world (se_client t)) = (now, w)" "cl_world (se_client t') = w"
    using assms(2) by (auto simp: session_now_def on_client_def on_world_def split: prod.splits)
  then show "now = time_of clock t" "time_of clock t \<le> time_of clock t'"
    using assms(1) by (auto simp: time_of_def)
qed

text \<open>C14: reconnecting gives up once the deadline has passed.  If every attempt returns, the clock does not run
  backwards and a pause lasts at least as long as asked for, the attempts are at most one more than the pauses
  that fit before the deadline.\<close>

theorem resume_until_ends:
  assumes "\<forall>t r t'. resume ops ps t = (r, t') \<longrightarrow> r \<noteq> Hang \<and> time_of clock t \<le> time_of clock t'"
    and "\<forall>w n w'. co_now (do_client ops) w = (n, w') \<longrightarrow> n = clock w \<and> clock w \<le> clock w'"
    and "\<forall>n w. clock w + n \<le> clock (co_pause (do_client ops) n w)"
    and "deadline \<le> time_of clock t + RECONNECT_PAUSE * n"
  shows "fst (resume_until (Suc n) ops ps deadline t) \<noteq> Hang"
  using assms(4)
proof (induction n arbitrary: t)
  case 0
  obtain r u where r: "resume ops ps t = (r, u)" by fastforce
  obtain now w where now: "session_now ops u = (now, w)" by fastforce
  have "deadline \<le> now"
    using 0 assms(1) r on_world_time(1) [OF assms(2) now] by fastforce
  then show ?case using assms(1) r now by (cases r) (auto simp: break_with_def)
next
  case (Suc n)
  obtain r u where r: "resume ops ps t = (r, u)" by fastforce
  obtain now w where now: "session_now ops u = (now, w)" by fastforce
  let ?w = "snd (on_client (on_world (\<lambda>w. ((), co_pause (do_client ops) RECONNECT_PAUSE w))) w)"
  have "time_of clock t \<le> time_of clock w"
    using assms(1) r on_world_time(2) [OF assms(2) now] le_trans by blast
  moreover have "time_of clock w + RECONNECT_PAUSE \<le> time_of clock ?w"
    using assms(3) by (simp add: time_of_def on_client_def on_world_def)
  ultimately have "deadline \<le> time_of clock ?w + RECONNECT_PAUSE * n" using Suc.prems by simp
  then have "fst (resume_until (Suc n) ops ps deadline ?w) \<noteq> Hang" by (rule Suc.IH)
  then show ?case using assms(1) r now by (cases r) (auto simp: break_with_def simp del: resume_until.simps(2) simp: resume_until.simps(2) [of "Suc n"])
qed

subsection \<open>Attempts of a commit\<close>

text \<open>C17: the deadline bounds reconnecting, not committing.  If the server can be reached, resumes the lease at
  the version known, and the connection breaks at every commit, the commit is sent again and again: no number
  of attempts is enough, whatever the time.\<close>

theorem commit_spins:
  assumes "I t" and "0 < do_turns ops"
    and "\<forall>t r t'. I t \<and> on_current_connection ops t = (r, t') \<longrightarrow> I t'"
    and "\<forall>t. I t \<longrightarrow> (\<exists>od t'. resume ops (pg_page_size (se_pages t)) t = (Ok od, t') \<and> I t' \<and>
      op_version od = rm_version (se_remote t'))"
    and "\<forall>t. I t \<longrightarrow> (\<exists>e t'. on_client (client_commit (do_client ops) parts) t = (Err (Transport_error e), t') \<and> I t')"
    and "\<forall>f t. I t \<longrightarrow> I (tally f t)"
  shows "fst (commit_attempts n ops parts commit_id deadline t) = Hang"
  using assms(1)
proof (induction n arbitrary: t)
  case (Suc n)
  have resumed: "\<exists>od t'. resume_until (do_turns ops) ops (pg_page_size (se_pages t)) deadline t = (Ok od, t') \<and> I t' \<and>
      op_version od = rm_version (se_remote t')" if "I t" for t
    using assms(2,4) that by (cases "do_turns ops") fastforce+
  obtain current u where cur: "on_current_connection ops t = (current, u)" by fastforce
  have u: "I u" using assms(3) Suc.prems cur by blast
  obtain v where v: "rejoin ops deadline t = (Ok (), v)" "I v"
    using cur u resumed [OF u] by (cases current) (auto simp: rejoin_def)
  obtain e w where w: "on_client (client_commit (do_client ops) parts) v = (Err (Transport_error e), w)" "I w"
    using assms(5) v(2) by blast
  obtain x where x: "after_failure ops commit_id deadline (Transport_error e) w = (Ok None, x)" "I x"
    using resumed [OF w(2)] assms(6) by (auto simp: after_failure_def)
  show ?case using v w x Suc.IH by simp
qed simp

text \<open>C16: a commit that took effect can end as diverged, for good.  If the server fails the commit with a
  transient error although it applied it, and the connection must be renewed before the commit is sent again,
  the server is found one version ahead with this very commit as its last one, and the database breaks as
  if another client had written it.\<close>

theorem own_commit_diverges:
  assumes "on_current_connection ops t = (True, t0)"
    and "on_client (client_commit (do_client ops) parts) t0 = (Err (Server_error e), t1)" and "error_code_of e = Internal"
    and "session_now ops t1 = (now, t2)" and "now < deadline" and "0 < do_turns ops"
    and "on_current_connection ops (tally (\<lambda>st. st\<lparr>resent_commits := resent_commits st + 1\<rparr>)
      (snd (on_client (on_world (\<lambda>w. ((), co_pause (do_client ops) RECONNECT_PAUSE w))) t2))) = (False, t3)"
    and "resume ops (pg_page_size (se_pages t3)) t3 = (Ok od, t4)"
    and "op_version od = rm_version (se_remote t4) + 1 \<and> op_last_commit_id od = commit_id"
  shows "\<exists>m. fst (commit_attempts (Suc (Suc n)) ops parts commit_id deadline t) = Err (Diverged m)"
proof -
  let ?u = "tally (\<lambda>st. st\<lparr>resent_commits := resent_commits st + 1\<rparr>)
    (snd (on_client (on_world (\<lambda>w. ((), co_pause (do_client ops) RECONNECT_PAUSE w))) t2))"
  have first: "commit_attempts (Suc (Suc n)) ops parts commit_id deadline t = commit_attempts (Suc n) ops parts commit_id deadline ?u"
    using assms(1-5) by (simp add: rejoin_def after_failure_def del: commit_attempts.simps) (simp add: commit_attempts.simps(2) [of "Suc n"] rejoin_def after_failure_def)
  obtain k where k: "do_turns ops = Suc k" using assms(6) by (cases "do_turns ops") auto
  have "\<exists>m. rejoin ops deadline ?u = break_with (Diverged m) t4"
    using assms(7-9) by (auto simp: rejoin_def k)
  then show ?thesis unfolding first by (auto simp: break_with_def)
qed

end
