(* ===== verification/Echo_Server.thy ===== *)
theory Echo_Server
  imports Server_Ends
begin

text \<open>
  A concrete server that answers each kind of request with a fixed message, or closes the connection.  It
  instantiates the properties about opening, healing and the loops of a database on the server, and the
  hypotheses they make.
\<close>

subsection \<open>The server\<close>

record echo =
  ec_clock :: nat
  ec_last :: bytes

fun kind_of :: "client_body \<Rightarrow> byte" where
  "kind_of (Hello_body _) = 0"
| "kind_of (Proof_body _) = 1"
| "kind_of (Open_body _) = 2"
| "kind_of (Commit_body _) = 3"
| "kind_of _ = 4"

definition echo_decode :: "(byte \<Rightarrow> server_body option) \<Rightarrow> bytes \<Rightarrow> server_frame option" where
  "echo_decode reply d =
     (case d of [] \<Rightarrow> None | k # r \<Rightarrow> map_option (\<lambda>b. \<lparr>sf_request_id = length r, sf_body = Some b\<rparr>) (reply k))"

definition echo_receive :: "(byte \<Rightarrow> server_body option) \<Rightarrow> echo \<Rightarrow> (bytes, message) res \<times> echo" where
  "echo_receive reply w =
     (case ec_last w of [] \<Rightarrow> (Err ''closed'', w) | k # r \<Rightarrow> (if reply k = None then Err ''closed'' else Ok (ec_last w), w))"

definition echo_client :: "(byte \<Rightarrow> server_body option) \<Rightarrow> echo client_ops" where
  "echo_client reply =
     \<lparr>co_dial = (\<lambda>w. (Ok (), w)), co_send = (\<lambda>d w. (Ok (), w\<lparr>ec_last := d\<rparr>)), co_receive = echo_receive reply,
      co_reopen = (\<lambda>w. (Ok (), w)), co_reachable = (\<lambda>w. (True, w)), co_logged_in = (\<lambda>_ w. w),
      co_now = (\<lambda>w. (ec_clock w, w)), co_pause = (\<lambda>n w. w\<lparr>ec_clock := ec_clock w + n\<rparr>), co_random = (\<lambda>w. ([9], w)),
      co_encode = (\<lambda>f. (case cf_body f of Some b \<Rightarrow> kind_of b | None \<Rightarrow> 4) # replicate (cf_request_id f) 0),
      co_decode = echo_decode reply, co_token = None,
      co_signer = \<lparr>sg_algorithm = Ed25519, sg_public_key = [], sg_sign = id\<rparr>, co_instance_id = [],
      co_trace_fetches = False, co_turns = 1\<rparr>"

definition echo_ops :: "(byte \<Rightarrow> server_body option) \<Rightarrow> 's store_ops \<Rightarrow> (echo, 's) db_ops" where
  "echo_ops reply store = \<lparr>do_client = echo_client reply, do_store = store, do_native = True, do_spawned = True,
     do_schedule = [], do_turns = 2\<rparr>"

lemma echo_client_simps [simp]:
  "co_dial (echo_client reply) w = (Ok (), w)" "co_send (echo_client reply) d w = (Ok (), w\<lparr>ec_last := d\<rparr>)"
  "co_receive (echo_client reply) = echo_receive reply" "co_reopen (echo_client reply) w = (Ok (), w)"
  "co_logged_in (echo_client reply) n w = w" "co_now (echo_client reply) w = (ec_clock w, w)"
  "co_pause (echo_client reply) n w = w\<lparr>ec_clock := ec_clock w + n\<rparr>" "co_random (echo_client reply) w = ([9], w)"
  "co_encode (echo_client reply) \<lparr>cf_request_id = n, cf_body = Some b\<rparr> = kind_of b # replicate n 0"
  "co_decode (echo_client reply) = echo_decode reply" "co_token (echo_client reply) = None"
  "co_turns (echo_client reply) = Suc 0"
  by (simp_all add: echo_client_def)

lemma echo_ops_simps [simp]:
  "do_client (echo_ops reply store) = echo_client reply" "do_store (echo_ops reply store) = store" "do_native (echo_ops reply store)"
  "do_spawned (echo_ops reply store)" "do_schedule (echo_ops reply store) = []" "do_turns (echo_ops reply store) = Suc (Suc 0)"
  by (simp_all add: echo_ops_def)

lemma calm_echo: "calm (echo_client reply)"
  by (auto simp: calm_def echo_client_def echo_receive_def split: list.split)

lemma echo_sane: "store_sane (echo_ops reply file_ops)"
  using fs_read_sane by (fastforce simp: store_sane_def file_ops_def dest: safeD)

subsection \<open>Exchanges\<close>

definition asked :: "client_body \<Rightarrow> echo client \<Rightarrow> echo client" where
  "asked b cl = cl\<lparr>cl_next_id := cl_next_id cl + 1,
     cl_world := (cl_world cl)\<lparr>ec_last := kind_of b # replicate (cl_next_id cl + 1) 0\<rparr>, cl_last_request := ec_clock (cl_world cl)\<rparr>"

lemma asked_simps [simp]:
  "cl_connected (asked b cl) = cl_connected cl" "cl_socket (asked b cl) = cl_socket cl" "is_open (asked b cl) = is_open cl"
  "cl_token_renewal (asked b cl) = cl_token_renewal cl" "cl_logins (asked b cl) = cl_logins cl"
  "ec_clock (cl_world (asked b cl)) = ec_clock (cl_world cl)" "cl_limits (asked b cl) = cl_limits cl"
  "cl_revoked (asked b cl) = cl_revoked cl"
  by (simp_all add: asked_def is_open_def)

lemma echo_send: "is_open cl \<Longrightarrow> client_send (echo_client reply) b cl = (Ok (cl_next_id cl + 1), asked b cl)"
  by (simp add: client_send_def is_open_def on_world_def asked_def Let_def)

lemma echo_answer:
  assumes "is_open cl"
  shows "client_receive (echo_client reply) (asked b cl) =
    (case reply (kind_of b) of
       Some body \<Rightarrow> (Ok \<lparr>sf_request_id = cl_next_id cl + 1, sf_body = Some body\<rparr>, asked b cl)
     | None \<Rightarrow> (Err (Transport_error ''closed''), (asked b cl)\<lparr>cl_connected := False\<rparr>))"
  using assms
  by (cases "reply (kind_of b)")
    (simp_all add: client_receive_def is_open_def on_world_def echo_receive_def echo_decode_def asked_def)

lemma echo_call:
  assumes "is_open cl" and "reply (kind_of b) = Some body" and "\<forall>e. body \<noteq> Error_body e"
  shows "call (echo_client reply) b cl = (Ok body, asked b cl)"
  using assms echo_send [OF assms(1), of reply b] echo_answer [OF assms(1), of reply b]
  by (cases body) (simp_all add: call_def call_answer_def)

definition helloing :: "(byte \<Rightarrow> server_body option) \<Rightarrow> bool" where
  "helloing reply \<longleftrightarrow> (\<exists>ch. reply 0 = Some (Challenge_body ch)) \<and>
     (\<exists>ok. reply 1 = Some (HelloOk_body ok) \<and> ho_access_token_ttl_ms ok = 0)"

lemma echo_reconnect:
  assumes "helloing reply"
  shows "\<exists>cl'. reconnect (echo_client reply) cl = (Ok (), cl') \<and> is_open cl' \<and> cl_token_renewal cl' = None \<and>
    ec_clock (cl_world cl') = ec_clock (cl_world cl)"
proof -
  obtain ch ok where hello: "reply 0 = Some (Challenge_body ch)" "reply 1 = Some (HelloOk_body ok)" "ho_access_token_ttl_ms ok = 0"
    using assms by (auto simp: helloing_def)
  have login: "\<exists>cl'. log_in (echo_client reply) c = (Ok (), cl') \<and> is_open cl' \<and> cl_token_renewal cl' = None \<and>
      ec_clock (cl_world cl') = ec_clock (cl_world c)" if c: "is_open c" for c
  proof -
    have first: "call (echo_client reply) (Hello_body h) c = (Ok (Challenge_body ch), asked (Hello_body h) c)" for h
      using echo_call [OF c, of reply "Hello_body h"] hello(1) by simp
    have second: "call (echo_client reply) (Proof_body p) (asked (Hello_body h) c) =
        (Ok (HelloOk_body ok), asked (Proof_body p) (asked (Hello_body h) c))" for h p
      using echo_call [of "asked (Hello_body h) c" reply "Proof_body p"] hello(2) c by simp
    show ?thesis
      using c hello(3) by (simp add: log_in_def say_hello_def first second Let_def) (simp add: is_open_def)
  qed
  obtain c where "open_socket (echo_client reply) cl = (Ok (), c)" "is_open c" "ec_clock (cl_world c) = ec_clock (cl_world cl)"
    by (cases "cl_socket cl") (simp_all add: open_socket_def on_world_def is_open_def)
  then show ?thesis using login [of c] by (simp add: reconnect_def)
qed

text \<open>A resumed lease, whatever the state of the connection.\<close>

lemma echo_resume:
  assumes "helloing reply" and "reply 2 = Some (Opened_body od)" and "checked od (Some (ps mod 2 ^ 32)) = Ok od"
  shows "\<exists>t'. resume (echo_ops reply store) ps t = (Ok od, t') \<and> ec_clock (cl_world (se_client t')) = ec_clock (cl_world (se_client t))"
proof -
  obtain up u where up: "on_client (is_connected (echo_client reply)) t = (up, u)" by fastforce
  have u: "ec_clock (cl_world (se_client u)) = ec_clock (cl_world (se_client t))" "up \<longrightarrow> is_open (se_client u)"
    using up by (auto simp: on_client_def is_connected_def on_world_def is_open_def split: prod.splits if_splits option.splits)
  obtain w where w: "(if up then (Ok (), u) else and_then (on_client (reconnect (echo_client reply)) u) (\<lambda>_ se.
        (Ok (), tally (\<lambda>st. st\<lparr>reconnects := reconnects st + 1\<rparr>) se))) = (Ok (), w)" "is_open (se_client w)"
      "ec_clock (cl_world (se_client w)) = ec_clock (cl_world (se_client t))"
  proof (cases up)
    case False
    then show thesis using that echo_reconnect [OF assms(1), of "se_client u"] u by (auto simp: on_client_def)
  qed (use that u in auto)
  have c: "call (echo_client reply) (Open_body m) (se_client w) = (Ok (Opened_body od), asked (Open_body m) (se_client w))" for m
    using echo_call [OF w(2), of reply "Open_body m"] assms(2) by simp
  show ?thesis
    unfolding resume_def
    by (simp only: echo_ops_simps up prod.case w(1) and_then.simps) (simp add: on_client_def c assms(3) [simplified] w(3))
qed

subsection \<open>Promises kept because nothing is served\<close>

definition mute :: "(byte \<Rightarrow> server_body option) \<Rightarrow> bool" where
  "mute reply \<longleftrightarrow> (\<forall>k p. reply k \<noteq> Some (Pages_body p)) \<and> (\<forall>k c. reply k \<noteq> Some (Changes_body c))"

lemma echo_decodeD: "echo_decode reply d = Some f \<Longrightarrow> \<exists>k. reply k = sf_body f"
  by (auto simp: echo_decode_def split: list.splits)

lemma call_decoded:
  assumes "call ops body cl = (Ok answer, cl')"
  shows "\<exists>d f. co_decode ops d = Some f \<and> sf_body f = Some answer"
proof -
  obtain rid c where "call_loop (co_turns ops) ops rid c = (Ok answer, cl')"
    using assms by (auto simp: call_def and_then_Ok)
  then obtain fs f where f: "receives ops c (fs @ [f]) cl'" "sf_body f = Some answer"
    using call_loop_receives by blast
  then show ?thesis using receives_decoded [OF f(1), of f] by auto
qed

lemma changes_answer: "(case answer of Changes_body c \<Rightarrow> (Ok c, cl) | _ \<Rightarrow> (Err e, cl)) = (Ok c, cl') \<Longrightarrow> answer = Changes_body c"
  by (cases answer) auto

lemma mute_honest:
  assumes "mute reply" and "\<forall>v i. length (hist v i) = ps"
  shows "honest_server (echo_client reply) db_id hist ps"
proof -
  have none: "\<forall>d f p. co_decode (echo_client reply) d = Some f \<and> sf_body f = Some (Pages_body p) \<longrightarrow> set (pm_blocks p) \<subseteq> {}"
    using assms(1) echo_decodeD unfolding mute_def echo_client_simps by metis
  have fetch: "bs = [] \<and> n = 0" if "fetch_blocks (echo_client reply) \<lparr>fe_db_id = db_id, fe_version = v, fe_first_block = first,
      fe_count = n, fe_ranges = []\<rparr> ps cl = (Ok bs, cl')" for v first n cl bs cl'
    using fetch_blocks_content [OF none that] safeD(3) [OF fetch_blocks_safe [OF calm_echo] that] by simp
  have "bs = []" if r: "fetch_ranges (echo_client reply) db_id v rs ps cl = (Ok bs, cl')" for v rs cl bs cl'
  proof -
    obtain n rid expected c where "fetch_loop n (echo_client reply) rid expected ps [] c = (Ok bs, cl')"
      using r unfolding fetch_ranges_def fetch_frames_def Let_def and_then_Ok by blast
    then show ?thesis using fetch_loop_content [OF none] by fastforce
  qed
  then have ranges: "honest_ranges (echo_client reply) db_id hist ps" by (fastforce simp: honest_ranges_def)
  have "client_changes (echo_client reply) db_id v cl \<noteq> (Ok c, cl')" for v cl c cl'
  proof
    assume "client_changes (echo_client reply) db_id v cl = (Ok c, cl')"
    then obtain answer d where a: "call (echo_client reply) (Changed_body \<lparr>cg_db_id = db_id, cg_from_version = v\<rparr>) cl = (Ok answer, d)"
        "answer = Changes_body c"
      unfolding client_changes_def and_then_Ok by (blast dest: changes_answer)
    then show False
      using call_decoded [OF a(1)] echo_decodeD assms(1) unfolding mute_def echo_client_simps by metis
  qed
  then have "honest_changes (echo_client reply) db_id hist" by (simp add: honest_changes_def)
  then show ?thesis
    using ranges fetch assms(2) by (fastforce simp: honest_server_def serves_history_def)
qed

subsection \<open>The properties on the server\<close>

definition sample_opened :: opened where
  "sample_opened = \<lparr>op_lease_id = [], op_lease_epoch = 3, op_version = 7, op_page_size = 512, op_page_count = 1,
     op_last_commit_id = [1]\<rparr>"

definition sample_reply :: "opened \<Rightarrow> server_body option \<Rightarrow> byte \<Rightarrow> server_body option" where
  "sample_reply od commit k =
     (if k = 0 then Some (Challenge_body \<lparr>ch_nonce = [], ch_server_id = [], ch_expires_at_ms = 0\<rparr>)
      else if k = 1 then Some (HelloOk_body \<lparr>ho_protocol_version = 1, ho_max_frame_bytes = 1000, ho_ping_interval_ms = 1000,
        ho_lease_ttl_ms = 1000, ho_access_token_ttl_ms = 0\<rparr>)
      else if k = 2 then Some (Opened_body od) else if k = 3 then commit else None)"

lemma sample_opened_version [simp]: "op_version sample_opened = 7"
  by (simp add: sample_opened_def)

lemma sample_reply_facts:
  "helloing (sample_reply od commit)" "sample_reply od commit 2 = Some (Opened_body od)" "sample_reply od commit 3 = commit"
  "mute (sample_reply od None)"
  by (auto simp: helloing_def sample_reply_def mute_def)

lemma sample_opened_checked: "checked sample_opened in_use = (if in_use = None \<or> in_use = Some 512 then Ok sample_opened
    else Err (Protocol_error ''page size differs from the open database''))"
proof -
  have "valid_page_size 512" by code_simp
  then show ?thesis by (auto simp: checked_def sample_opened_def MAX_PAGE_COUNT_def split: option.split)
qed

definition echo_remote :: "'s local_copy \<Rightarrow> 's remote" where
  "echo_remote local = \<lparr>rm_db_id = [97], rm_subject = [98], rm_version = 7, rm_lease_id = [], rm_lease_epoch = 3,
     rm_last_commit_id = [1], rm_pending_commit = Some [9], rm_local = local, rm_broken = Some (Uncertain []), rm_login = 0\<rparr>"

definition echo_connection :: "nat option \<Rightarrow> echo client" where
  "echo_connection renewal =
     \<lparr>cl_socket = True, cl_connected = True, cl_limits = \<lparr>li_max_frame_bytes = 1000, li_ping_interval = 1000\<rparr>,
      cl_next_id = 0, cl_last_request = 0, cl_revoked = fmempty, cl_unreported = [], cl_logins = 0,
      cl_token_renewal = renewal, cl_trace = None, cl_world = \<lparr>ec_clock = 0, ec_last = []\<rparr>\<rparr>"

definition echo_session :: "nat option \<Rightarrow> (echo, file_store) session" where
  "echo_session renewal =
     session_of (echo_connection renewal, echo_remote No_copy) (pages_new 512 1 (Some 4) None) default_stats"

lemma echo_session_simps [simp]:
  "pg_page_size (se_pages (echo_session r)) = 512" "rm_version (se_remote (echo_session r)) = 7"
  "se_remote (echo_session r) = echo_remote No_copy" "se_client (echo_session r) = echo_connection r"
  "rm_version (echo_remote l) = 7" "pg_page_count (se_pages (echo_session r)) = 1"
  by (simp_all add: echo_session_def session_of_def echo_remote_def)

theorem copy_chunks_ends_witness: "fst (copy_chunks 1 (echo_ops (sample_reply sample_opened None) file_ops) 0 (echo_session None)) \<noteq> Hang"
proof -
  have "\<forall>first n s. fst (so_read file_ops first n s) \<noteq> Hang"
    using fs_ends(2) by (auto simp: file_ops_def ends_def)
  then show ?thesis
    using copy_chunks_ends [of "echo_ops (sample_reply sample_opened None) file_ops" "echo_session None"]
    by (simp del: copy_chunks.simps)
qed

theorem resume_until_ends_witness:
  "fst (resume_until (Suc 1) (echo_ops (sample_reply sample_opened None) file_ops) 512 100 (echo_session None)) \<noteq> Hang"
proof (rule resume_until_ends [where clock = ec_clock])
  have "\<exists>t'. resume (echo_ops (sample_reply sample_opened None) file_ops) 512 t = (Ok sample_opened, t') \<and> time_of ec_clock t' = time_of ec_clock t" for t
    using echo_resume [OF sample_reply_facts(1,2), of sample_opened 512 None file_ops t] by (simp add: sample_opened_checked time_of_def)
  then show "\<forall>t r t'. resume (echo_ops (sample_reply sample_opened None) file_ops) 512 t = (r, t') \<longrightarrow>
      r \<noteq> Hang \<and> time_of ec_clock t \<le> time_of ec_clock t'"
    by (metis Pair_inject order_refl res.distinct(5))
qed (simp_all add: RECONNECT_PAUSE_def)

lemma echo_commit_lost:
  assumes "reply 3 = None"
  shows "\<exists>e cl'. client_commit (echo_client reply) [part] cl = (Err (Transport_error e), cl')"
proof (cases "is_open cl")
  case True
  then show ?thesis
    using echo_send [OF True, of reply "Commit_body part"] echo_answer [OF True, of reply "Commit_body part"] assms
    by (simp add: client_commit_def)
next
  case False
  then show ?thesis by (simp add: client_commit_def client_send_def is_open_def)
qed

definition steady :: "(echo, file_store) session \<Rightarrow> bool" where
  "steady t \<longleftrightarrow> pg_page_size (se_pages t) = 512 \<and> rm_version (se_remote t) = 7"

lemma steady_idle: "steady t \<Longrightarrow> idle t t' \<Longrightarrow> steady t'"
  unfolding steady_def idle_def using identityD(3) by metis

theorem commit_spins_witness:
  "\<forall>n deadline. fst (commit_attempts n (echo_ops (sample_reply sample_opened None) file_ops) [sample_part] [9] deadline
     (echo_session None)) = Hang"
proof (intro allI)
  fix n deadline
  let ?reply = "sample_reply sample_opened None"
  let ?ops = "echo_ops ?reply file_ops"
  have "\<exists>t'. resume ?ops 512 t = (Ok sample_opened, t') \<and> idle t t'" for t
    using echo_resume [OF sample_reply_facts(1,2), of sample_opened 512 None file_ops t] resume_checked(2)
    by (fastforce simp: sample_opened_checked)
  then have res: "\<forall>t. steady t \<longrightarrow> (\<exists>od t'. resume ?ops (pg_page_size (se_pages t)) t = (Ok od, t') \<and> steady t' \<and>
      op_version od = rm_version (se_remote t'))"
    using steady_idle sample_opened_version unfolding steady_def by metis
  have com: "\<forall>t. steady t \<longrightarrow>
      (\<exists>e t'. on_client (client_commit (do_client ?ops) [sample_part]) t = (Err (Transport_error e), t') \<and> steady t')"
  proof (intro allI impI)
    fix t assume "steady t"
    then show "\<exists>e t'. on_client (client_commit (do_client ?ops) [sample_part]) t = (Err (Transport_error e), t') \<and> steady t'"
      using echo_commit_lost [of ?reply sample_part "se_client t"]
      by (auto simp: on_client_def steady_def sample_reply_facts(3))
  qed
  have cur: "\<forall>t r t'. steady t \<and> on_current_connection ?ops t = (r, t') \<longrightarrow> steady t'"
    by (auto simp: steady_def on_current_connection_def on_client_def split: prod.splits)
  show "fst (commit_attempts n ?ops [sample_part] [9] deadline (echo_session None)) = Hang"
    by (rule commit_spins [where I = steady, OF _ _ cur res com]) (simp_all add: steady_def tally_def)
qed

definition echo_database :: "'s local_copy \<Rightarrow> 's database" where
  "echo_database local = \<lparr>db_pages = pages_new 512 1 (Some 4) None, db_remote = echo_remote local\<rparr>"

lemma echo_heal:
  assumes "helloing reply" and "reply 2 = Some (Opened_body od)" and "checked od (Some 512) = Ok od"
    and "op_version od = 7 \<or> op_version od = 8 \<and> op_last_commit_id od = [9]" and "\<forall>s. local \<noteq> Ready s"
  shows "\<exists>db' cl' st'. db_heal (echo_ops reply store) (echo_database local) (echo_connection None) default_stats =
    (Ok (), db', cl', st') \<and> rm_version (db_remote db') = op_version od"
proof -
  let ?t = "session_of (echo_connection None, echo_remote local) (pages_new 512 1 (Some 4) None) default_stats"
  obtain t where t: "resume (echo_ops reply store) 512 ?t = (Ok od, t)" "idle ?t t"
    using echo_resume [OF assms(1,2), of 512 store ?t] assms(3) resume_checked(2) by fastforce
  then have f: "identity (se_remote t) = identity (echo_remote local)" "se_pages t = pages_new 512 1 (Some 4) None"
      "rm_local (se_remote t) = local"
    by (auto simp: idle_def session_of_def echo_remote_def)
  have sel: "se_pages ?t = pages_new 512 1 (Some 4) None" by (simp add: session_of_def)
  have "rm_version (se_remote t) = 7" "rm_pending_commit (se_remote t) = Some [9]"
    using identityD [OF f(1)] by (simp_all add: echo_remote_def)
  then have "op_version od \<noteq> rm_version (se_remote t) \<longrightarrow> was_applied (se_remote t) od"
    using assms(4) by (auto simp: was_applied_def)
  moreover have "take_copy (echo_ops reply store) u = (Ok False, u)" if "rm_local (se_remote u) = local" for u :: "(echo, 'a) session"
    using that assms(5) by (cases local) (auto simp: take_copy_def)
  ultimately show ?thesis
    using t(1) f(2,3) sel
    by (cases "was_applied (se_remote t) od") (simp_all add: db_heal_def heal_session_def echo_database_def remote_fill_def Let_def emptied_def on_demand_def make_room_def
        tally_def)
qed

definition echo_hist :: "nat \<Rightarrow> nat \<Rightarrow> bytes" where
  "echo_hist v i = replicate 512 0"



text \<open>A store that holds one block, of the version before the commit.\<close>

definition one_block :: "bytes \<Rightarrow> unit store_ops" where
  "one_block d = \<lparr>so_head = (\<lambda>s. (Ok None, s)), so_read = (\<lambda>_ _ s. (Ok [d], s)), so_write = (\<lambda>_ _ s. (Ok (), s)),
     so_forget = (\<lambda>_ _ s. (Ok (), s)), so_clear = (\<lambda>s. (Ok (), s)), so_select = (\<lambda>_ s. (Ok (), s))\<rparr>"

definition later_opened :: opened where
  "later_opened = sample_opened\<lparr>op_version := 8, op_last_commit_id := [9]\<rparr>"

lemma later_opened_checked: "checked later_opened (Some 512) = Ok later_opened"
proof -
  have "valid_page_size 512" by code_simp
  then show ?thesis by (simp add: checked_def later_opened_def sample_opened_def MAX_PAGE_COUNT_def)
qed

theorem heal_keeps_old_copy_witness:
  "\<exists>db' cl' st'. db_heal (echo_ops (sample_reply later_opened None) (one_block (replicate 512 7)))
      (echo_database (Writing (bg_start True [] ()))) (echo_connection None) default_stats = (Ok (), db', cl', st') \<and>
    rm_version (db_remote db') = 8 \<and>
    (\<exists>se. fetch_missing (echo_ops (sample_reply later_opened None) (one_block (replicate 512 7))) 0 1
        (session_of (cl', db_remote db') (db_pages db') st') = (Ok (), se) \<and> block_at (se_pages se) 0 = Some (replicate 512 7))"
proof -
  let ?ops = "echo_ops (sample_reply later_opened None) (one_block (replicate 512 7))" and ?b = "bg_start True [] ()"
  obtain db' cl' st' where h: "db_heal ?ops (echo_database (Writing ?b)) (echo_connection None) default_stats = (Ok (), db', cl', st')"
    "rm_version (db_remote db') = 8"
    using echo_heal [OF sample_reply_facts(1,2) later_opened_checked, of "Writing ?b" None "one_block (replicate 512 7)"]
    by (auto simp: later_opened_def)
  have b: "bg_read (do_store ?ops) 0 1 ?b = (Ok [replicate 512 7], ?b)"
    by (simp add: bg_read_def bg_drain_def bg_start_def one_block_def)
  show ?thesis
    using h heal_keeps_old_copy [OF h(1) _ _ b] by (simp add: echo_database_def echo_remote_def on_demand_def)
qed

definition internal_error :: pb_error where
  "internal_error = default_error\<lparr>er_code := error_number Internal\<rparr>"

lemma echo_commit_fails:
  assumes "reply 3 = Some (Error_body e)" and "is_open cl"
  shows "client_commit (echo_client reply) [part] cl = (Err (Server_error e), asked (Commit_body part) cl)"
  using echo_send [OF assms(2), of reply "Commit_body part"] echo_answer [OF assms(2), of reply "Commit_body part"] assms
  by (simp add: client_commit_def)

theorem own_commit_diverges_witness:
  "\<exists>m. fst (commit_attempts 2 (echo_ops (sample_reply later_opened (Some (Error_body internal_error))) file_ops) [sample_part] [9]
     1000 (echo_session (Some 1))) = Err (Diverged m)"
proof -
  let ?reply = "sample_reply later_opened (Some (Error_body internal_error))" and ?t = "echo_session (Some 1)"
  let ?ops = "echo_ops ?reply file_ops"
  define t1 where "t1 = ?t\<lparr>se_client := asked (Commit_body sample_part) (echo_connection (Some 1))\<rparr>"
  have up: "is_open (echo_connection (Some 1))" "cl_logins (echo_connection r) = 0" "rm_login (echo_remote l :: file_store remote) = 0"
      "cl_token_renewal (echo_connection r) = r" "cl_world (echo_connection r) = \<lparr>ec_clock = 0, ec_last = []\<rparr>" for r l
    by (simp_all add: is_open_def echo_connection_def echo_remote_def)
  have cur: "on_current_connection ?ops ?t = (True, ?t)"
    using up by (simp add: on_current_connection_def on_client_def is_connected_def on_world_def)
  have com: "on_client (client_commit (do_client ?ops) [sample_part]) ?t = (Err (Server_error internal_error), t1)"
    using echo_commit_fails [of ?reply _ "echo_connection (Some 1)" sample_part] up(1)
    by (simp add: on_client_def sample_reply_facts(3) t1_def)
  have now: "session_now ?ops t1 = (0, t1)"
    by (simp add: session_now_def on_client_def on_world_def t1_def up)
  define u where "u = tally (\<lambda>st. st\<lparr>resent_commits := resent_commits st + 1\<rparr>)
      (snd (on_client (on_world (\<lambda>w. ((), co_pause (do_client ?ops) RECONNECT_PAUSE w))) t1))"
  have "ec_clock (cl_world (se_client u)) = RECONNECT_PAUSE" "cl_token_renewal (se_client u) = Some 1"
    and same: "pg_page_size (se_pages u) = 512" "rm_version (se_remote u) = 7"
    by (simp_all add: u_def tally_def on_client_def on_world_def t1_def up)
  then have renew: "on_current_connection ?ops u = (False, u)"
    by (simp add: on_current_connection_def on_client_def is_connected_def on_world_def RECONNECT_PAUSE_def)
  obtain t4 where res: "resume ?ops 512 u = (Ok later_opened, t4)"
    using echo_resume [OF sample_reply_facts(1,2), of later_opened 512 "Some (Error_body internal_error)" file_ops u] later_opened_checked
    by auto
  then have "rm_version (se_remote t4) = 7"
    using resume_checked(2) [OF res] same(2) identityD(3) unfolding idle_def by metis
  then have last: "op_version later_opened = rm_version (se_remote t4) + 1 \<and> op_last_commit_id later_opened = [9]"
    by (simp add: later_opened_def)
  have code: "error_code_of internal_error = Internal" by (simp add: internal_error_def error_code_of_number)
  show ?thesis
    unfolding numeral_2_eq_2
    by (rule own_commit_diverges [OF cur com code now _ _ renew [unfolded u_def] _ last]) (simp_all add: res same u_def [symmetric, simplified])
qed

end
