(* ===== verification/Spec2Isabelle.thy ===== *)
theory Spec2Isabelle
  imports Local_Files Vfs Echo_Server
begin

text \<open>
  A SQLite VFS whose databases live on a page server or in a browser's IndexedDB.
\<close>

end
